(* ===== verification/Prelude.thy ===== *)
theory Prelude
  imports Main "HOL-Library.Word" "HOL-Library.Sublist"
begin

text \<open>
  Shared vocabulary of the development: the simplification collections the
  component theories fill, the model's basic types, the pieces of the Go
  standard library the program calls (\<open>sort.Search\<close>, \<open>strings.HasPrefix\<close>,
  \<open>strings.TrimPrefix\<close>, byte-wise case folding), and the generic list and word facts that
  more than one component needs.
\<close>

section \<open>Collections and types\<close>

named_theorems frame_simps \<open>fields an operation leaves alone\<close>
named_theorems pool_simps \<open>facts on recycled scratch objects\<close>

text \<open>A Go pointer to a heap object is an address; a timestamp or a duration
  is a number of nanoseconds.\<close>

type_synonym ptr = nat
type_synonym nanos = int
type_synonym u64 = "64 word"

abbreviation (input) second :: nanos where
  "second \<equiv> 1000000000"

abbreviation (input) millisecond :: nanos where
  "millisecond \<equiv> 1000000"

section \<open>Strings\<close>

definition HasPrefix :: "string \<Rightarrow> string \<Rightarrow> bool" where
  "HasPrefix s p \<longleftrightarrow> take (length p) s = p"

definition TrimPrefix :: "string \<Rightarrow> string \<Rightarrow> string" where
  "TrimPrefix s p = (if HasPrefix s p then drop (length p) s else s)"

lemma HasPrefix_prefix: "HasPrefix s p \<longleftrightarrow> prefix p s"
  by (auto simp: HasPrefix_def prefix_def) (metis append_take_drop_id)

lemma HasPrefix_Nil [simp]: "HasPrefix s []"
  by (simp add: HasPrefix_def)

lemma HasPrefix_append [simp]: "HasPrefix (p @ s) p"
  by (simp add: HasPrefix_def)

lemma HasPrefix_refl [simp]: "HasPrefix s s"
  by (simp add: HasPrefix_def)

lemma HasPrefix_length: "HasPrefix s p \<Longrightarrow> length p \<le> length s"
  by (metis HasPrefix_def length_take min.absorb_iff2 nle_le)

lemma HasPrefix_split: "HasPrefix s p \<Longrightarrow> p @ drop (length p) s = s"
  by (metis HasPrefix_def append_take_drop_id)

lemma HasPrefix_append_iff:
  "HasPrefix s (p @ q) \<longleftrightarrow> HasPrefix s p \<and> HasPrefix (drop (length p) s) q"
  by (auto simp: HasPrefix_prefix prefix_def)

lemma TrimPrefix_append [simp]: "TrimPrefix (p @ s) p = s"
  by (simp add: TrimPrefix_def)

text \<open>Two prefixes of one string are ordered by their length.\<close>

lemma HasPrefix_same_length:
  "HasPrefix s p \<Longrightarrow> HasPrefix s q \<Longrightarrow> length p = length q \<Longrightarrow> p = q"
  by (metis HasPrefix_def)

text \<open>\<open>%d\<close> and \<open>strconv.FormatInt\<close> in base ten.\<close>

definition digit_char :: "nat \<Rightarrow> char" where
  "digit_char d = char_of (48 + d)"

fun show_nat :: "nat \<Rightarrow> string" where
  "show_nat n = (if n < 10 then [digit_char n] else show_nat (n div 10) @ [digit_char (n mod 10)])"

declare show_nat.simps [simp del]

definition show_int :: "int \<Rightarrow> string" where
  "show_int i = (if i < 0 then CHR ''-'' # show_nat (nat (- i)) else show_nat (nat i))"

text \<open>How a Go call can fail to return, as a value: a runtime panic, or an endless wait on a channel that
  nobody closes.\<close>

datatype go_panic = NilDereference | IndexOutOfRange | DivideByZero | SendOnClosed | EndlessWait

section \<open>Binary search: \<open>sort.Search\<close>\<close>

function sort_search_loop :: "(nat \<Rightarrow> bool) \<Rightarrow> nat \<Rightarrow> nat \<Rightarrow> nat" where
  "sort_search_loop f i j =
     (if i < j
      then let h = (i + j) div 2
           in if \<not> f h then sort_search_loop f (h + 1) j else sort_search_loop f i h
      else i)"
  by pat_completeness auto
termination
  by (relation "measure (\<lambda>(f, i, j). j - i)") auto

declare sort_search_loop.simps [simp del]

definition sort_search :: "nat \<Rightarrow> (nat \<Rightarrow> bool) \<Rightarrow> nat" where
  "sort_search n f = sort_search_loop f 0 n"

definition upward :: "nat \<Rightarrow> (nat \<Rightarrow> bool) \<Rightarrow> bool" where
  "upward n f \<longleftrightarrow> (\<forall>i j. i \<le> j \<and> j < n \<and> f i \<longrightarrow> f j)"

definition splits_at :: "nat \<Rightarrow> (nat \<Rightarrow> bool) \<Rightarrow> nat \<Rightarrow> nat \<Rightarrow> bool" where
  "splits_at n f i j \<longleftrightarrow> (\<forall>k < i. \<not> f k) \<and> (\<forall>k. j \<le> k \<and> k < n \<longrightarrow> f k)"

lemma sort_search_loop_inv:
  assumes "upward n f" and "i \<le> j" and "j \<le> n" and "splits_at n f i j"
  shows "sort_search_loop f i j \<le> n
    \<and> splits_at n f (sort_search_loop f i j) (sort_search_loop f i j)"
  using assms
proof (induction f i j rule: sort_search_loop.induct)
  case (1 f i j)
  show ?case
  proof (cases "i < j")
    case False
    with "1.prems" show ?thesis by (subst (1 2 3) sort_search_loop.simps) simp
  next
    case True
    define h where "h = (i + j) div 2"
    have hb: "i \<le> h" "h < j" "h < n" using True "1.prems"(3) by (auto simp: h_def)
    show ?thesis
    proof (cases "f h")
      case False
      have "splits_at n f (h + 1) j"
        using False "1.prems"(1,4) hb unfolding splits_at_def upward_def
        by (metis less_Suc_eq_le Suc_eq_plus1)
      moreover have "sort_search_loop f i j = sort_search_loop f (h + 1) j"
        using True False by (subst sort_search_loop.simps) (simp add: h_def)
      ultimately show ?thesis using "1.IH"(1) [OF True h_def False] "1.prems" hb by simp
    next
      case T: True
      have "splits_at n f i h"
        using T "1.prems"(1,4) hb unfolding splits_at_def upward_def by blast
      moreover have "sort_search_loop f i j = sort_search_loop f i h"
        using True T by (subst sort_search_loop.simps) (simp add: h_def)
      ultimately show ?thesis using "1.IH"(2) [OF True h_def] T "1.prems" hb by simp
    qed
  qed
qed

lemma sort_search_spec:
  assumes "upward n f"
  shows "sort_search n f \<le> n \<and> splits_at n f (sort_search n f) (sort_search n f)"
  unfolding sort_search_def
  by (rule sort_search_loop_inv [OF assms]) (auto simp: splits_at_def)

lemma sort_search_le: "upward n f \<Longrightarrow> sort_search n f \<le> n"
  by (simp add: sort_search_spec)

lemma sort_search_below: "upward n f \<Longrightarrow> k < sort_search n f \<Longrightarrow> \<not> f k"
  using sort_search_spec [of n f] unfolding splits_at_def by blast

lemma sort_search_above:
  "upward n f \<Longrightarrow> sort_search n f \<le> k \<Longrightarrow> k < n \<Longrightarrow> f k"
  using sort_search_spec [of n f] unfolding splits_at_def by blast

section \<open>Lists and words\<close>

lemma nth_mod_in_set [intro, simp]: "xs \<noteq> [] \<Longrightarrow> xs ! (k mod length xs) \<in> set xs"
  by (simp add: nth_mem)

text \<open>Reading a list at \<open>n\<close> consecutive positions modulo its length \<open>n\<close> is a rotation.\<close>

lemma map_nth_mod_rotate:
  "map (\<lambda>i. xs ! ((k + i) mod length xs)) [0..<length xs] = rotate k xs"
  by (rule nth_equalityI) (simp_all add: nth_rotate)

lemma unat_add_no_wrap:
  "unat (c :: u64) + n < 2 ^ 64 \<Longrightarrow> unat (c + of_nat n) = unat c + n"
  by (simp add: unat_word_ariths unsigned_of_nat take_bit_eq_mod)

lemma word_add_1_minus_1 [simp]: "(c :: 'a::len word) + 1 - 1 = c"
  by simp

section \<open>Refinement\<close>

text \<open>A machine answers operations; the contract of a refinement is that every operation keeps the invariant of
  the concrete machine and commutes with the abstraction. Then whole runs give the same answers.\<close>

fun run_ops :: "('op \<Rightarrow> 's \<Rightarrow> 'r \<times> 's) \<Rightarrow> 'op list \<Rightarrow> 's \<Rightarrow> 'r list \<times> 's" where
  "run_ops step [] s = ([], s)"
| "run_ops step (op # ops) s =
     (let (r, s1) = step op s; (rs, s2) = run_ops step ops s1 in (r # rs, s2))"

locale refines =
  fixes cstep :: "'op \<Rightarrow> 'c \<Rightarrow> 'r \<times> 'c"
    and astep :: "'op \<Rightarrow> 'a \<Rightarrow> 'r \<times> 'a"
    and abst :: "'c \<Rightarrow> 'a"
    and inv :: "'c \<Rightarrow> bool"
  assumes inv_step: "inv c \<Longrightarrow> inv (snd (cstep op c))"
    and simulation: "inv c \<Longrightarrow> astep op (abst c) = map_prod id abst (cstep op c)"
begin

lemma run_inv: "inv c \<Longrightarrow> inv (snd (run_ops cstep ops c))"
  by (induction ops arbitrary: c) (auto simp: split_beta inv_step)

lemma run_refines: "inv c \<Longrightarrow> run_ops astep ops (abst c) = map_prod id abst (run_ops cstep ops c)"
proof (induction ops arbitrary: c)
  case (Cons op ops)
  show ?case
    using Cons.IH [OF inv_step [OF Cons.prems]] simulation [OF Cons.prems] by (simp add: split_beta map_prod_def)
qed simp

end

end
