(* ===== verification/Hash.thy ===== *)
theory Hash
  imports Prelude
begin

text \<open>
  \<^verbatim>\<open>internal/hash/hash.go\<close>: the 64-bit FNV-1a hash that IP hashing, the consistent-hash
  ring, sticky-session sharding and the proxy cache keys use. The loop over the bytes of
  the key is a left fold over the string; multiplication wraps at 64 bits as in Go.
\<close>

unbundle bit_operations_syntax

definition fnv_offset :: u64 where
  "fnv_offset = 14695981039346656037"

definition fnv_prime :: u64 where
  "fnv_prime = 1099511628211"

definition fnv_step :: "u64 \<Rightarrow> char \<Rightarrow> u64" where
  "fnv_step h b = (h XOR of_char b) * fnv_prime"

definition FNV64a :: "string \<Rightarrow> u64" where
  "FNV64a key = foldl fnv_step fnv_offset key"

definition FNV64aBytes :: "8 word list \<Rightarrow> u64" where
  "FNV64aBytes key = foldl (\<lambda>h b. (h XOR ucast b) * fnv_prime) fnv_offset key"

section \<open>Algebra of one hash step\<close>

text \<open>The FNV prime is odd, so multiplying by it is a bijection of the 64-bit words.\<close>

lemma fnv_prime_inverse: "fnv_prime * 14886173955864302971 = 1"
  by (simp add: fnv_prime_def)

lemma fnv_mult_inject: "a * fnv_prime = b * fnv_prime \<longleftrightarrow> a = b"
proof
  assume "a * fnv_prime = b * fnv_prime"
  then have "a * (fnv_prime * 14886173955864302971) = b * (fnv_prime * 14886173955864302971)"
    by (simp only: mult.assoc [symmetric])
  then show "a = b" by (simp add: fnv_prime_inverse)
qed simp

lemma xor_cancel_right: "(a :: 'a::len word) XOR c = b XOR c \<longleftrightarrow> a = b"
  by (metis (no_types) xor.assoc xor.right_neutral xor_self_eq)

lemma unat_of_char: "unat (of_char c :: u64) = of_char c"
proof -
  have "(of_char c :: nat) mod 256 < 256" by simp
  then have "(of_char c :: nat) < 256" by (simp only: of_char_mod_256)
  also have "(256 :: nat) < 2 ^ 64" by simp
  finally have "take_bit 64 (of_char c :: nat) = of_char c"
    by (rule take_bit_nat_eq_self)
  then have "unat (of_nat (of_char c) :: u64) = of_char c"
    by (simp only: unsigned_of_nat) simp
  then show ?thesis by (simp only: of_nat_of_char)
qed

lemma of_char_word_inject: "of_char a = (of_char b :: u64) \<longleftrightarrow> a = b"
proof
  assume "of_char a = (of_char b :: u64)"
  then have "unat (of_char a :: u64) = unat (of_char b :: u64)" by simp
  then show "a = b" by (simp add: unat_of_char)
qed simp

lemma fnv_step_inject_state: "fnv_step h b = fnv_step h' b \<longleftrightarrow> h = h'"
  by (simp add: fnv_step_def fnv_mult_inject xor_cancel_right)

lemma fnv_step_inject_byte: "fnv_step h b = fnv_step h b' \<longleftrightarrow> b = b'"
  by (simp add: fnv_step_def fnv_mult_inject of_char_word_inject xor_cancel_right xor.commute [of h])

lemma foldl_fnv_inject: "foldl fnv_step h bs = foldl fnv_step h' bs \<longleftrightarrow> h = h'"
  by (induction bs arbitrary: h h') (simp_all add: fnv_step_inject_state)

lemma FNV64a_append: "FNV64a (xs @ ys) = foldl fnv_step (FNV64a xs) ys"
  by (simp add: FNV64a_def)

section \<open>Properties\<close>

lemma ucast_byte_of_char: "(ucast (of_char c :: 8 word) :: u64) = of_char c"
proof -
  have "(of_char c :: 8 word) = of_nat (of_char c)" by (simp only: of_nat_of_char)
  moreover have "take_bit 8 (of_char c :: nat) = of_char c"
    by (simp add: take_bit_eq_mod)
  ultimately have "unat (of_char c :: 8 word) = of_char c"
    by (simp only: unsigned_of_nat) simp
  then show ?thesis
    by (metis of_nat_of_char of_nat_unat)
qed

text \<open>The hash of a string and the hash of its bytes agree, so the key written through
  the string entry point and the one read through the byte entry point are the same.\<close>

theorem FNV64aBytes_agree: "FNV64aBytes (map of_char s) = FNV64a s"
  by (simp add: FNV64aBytes_def FNV64a_def foldl_map fnv_step_def [abs_def] ucast_byte_of_char)

text \<open>Two keys that differ in exactly one byte never collide: both halves of a hash
  step are injective, so a difference once introduced survives the common tail.\<close>

theorem FNV64a_one_byte:
  assumes "a \<noteq> b"
  shows "FNV64a (xs @ a # ys) \<noteq> FNV64a (xs @ b # ys)"
  using assms by (simp add: FNV64a_append foldl_fnv_inject fnv_step_inject_byte)

theorem FNV64a_one_byte_witness:
  "CHR ''1'' \<noteq> CHR ''2'' \<and> FNV64a (''10.0.0.'' @ CHR ''1'' # ''7'') \<noteq> FNV64a (''10.0.0.'' @ CHR ''2'' # ''7'')"
proof -
  have d: "CHR ''1'' \<noteq> CHR ''2''" by simp
  then show ?thesis using FNV64a_one_byte [OF d] by blast
qed

end
