(* ===== verification/Target.thy ===== *)
theory Target
  imports Hash
begin

text \<open>
  \<^verbatim>\<open>internal/loadbalance/balancer.go\<close> (the \<open>Target\<close> struct and its methods) and
  \<^verbatim>\<open>internal/loadbalance/ewma.go\<close>. A target is a record with the struct's fields; atomics
  are plain fields, a method is a function from the target (and the instant \<open>now\<close> that
  \<open>time.Now()\<close> returns) to its result and the updated target. Connection counts,
  failure counts and timestamps are \<open>int\<close>: they stay far from the 64-bit limits.
\<close>

section \<open>Response-time statistics\<close>

record EWMAStats =
  headerTime :: nanos
  lastByteTime :: nanos
  sampleCount :: int

definition NewEWMAStats :: EWMAStats where
  "NewEWMAStats = \<lparr>headerTime = 0, lastByteTime = 0, sampleCount = 0\<rparr>"

text \<open>Go's \<open>/\<close> on integers truncates towards zero.\<close>

definition go_div :: "int \<Rightarrow> int \<Rightarrow> int" where
  "go_div a b = sgn a * sgn b * (\<bar>a\<bar> div \<bar>b\<bar>)"

definition defaultAlphaScale :: int where
  "defaultAlphaScale = 300"

definition ewma_update :: "int \<Rightarrow> int \<Rightarrow> int" where
  "ewma_update old newNano =
     (if old = 0 then newNano
      else go_div (defaultAlphaScale * newNano + (1000 - defaultAlphaScale) * old) 1000)"

text \<open>
  \<open>recordAtomic\<close> retries its compare-and-swap until no other writer came in between.
  \<open>others\<close> lists the values the cell holds after each interfering write: the attempt
  that follows the last of them succeeds.
\<close>

fun recordAtomic :: "int \<Rightarrow> int list \<Rightarrow> int \<Rightarrow> int" where
  "recordAtomic cell [] newNano = ewma_update cell newNano"
| "recordAtomic cell (w # ws) newNano =
     (if w = cell then ewma_update cell newNano else recordAtomic w ws newNano)"

definition EWMA_Record :: "nanos \<Rightarrow> nanos \<Rightarrow> EWMAStats \<Rightarrow> EWMAStats" where
  "EWMA_Record ht lbt e =
     e\<lparr>headerTime := recordAtomic (headerTime e) [] ht,
       lastByteTime := recordAtomic (lastByteTime e) [] lbt,
       sampleCount := sampleCount e + 1\<rparr>"

definition EWMA_Reset :: "EWMAStats \<Rightarrow> EWMAStats" where
  "EWMA_Reset e = e\<lparr>headerTime := 0, lastByteTime := 0, sampleCount := 0\<rparr>"

section \<open>The target\<close>

record Target =
  resolvedIPs :: "string list option"
  URL :: string
  hostname :: string
  VirtualHashes :: "u64 list"
  Weight :: int
  Connections :: int
  lastResolved :: nanos
  hostnameDone :: bool
  Healthy :: bool
  MaxConns :: int
  MaxFails :: int
  FailTimeout :: nanos
  Backup :: bool
  Down :: bool
  ProxyURI :: string
  failCount :: int
  failedUntil :: nanos
  EffectiveWeight :: int
  SlowStart :: nanos
  Stats :: "EWMAStats option"

definition GetEffectiveWeight :: "Target \<Rightarrow> int" where
  "GetEffectiveWeight t = (if EffectiveWeight t = 0 then Weight t else EffectiveWeight t)"

definition IsAvailable :: "nanos \<Rightarrow> Target \<Rightarrow> bool \<times> Target" where
  "IsAvailable now t =
     (if \<not> Healthy t \<or> Down t then (False, t)
      else if MaxConns t > 0 \<and> Connections t \<ge> MaxConns t then (False, t)
      else if MaxFails t > 0 \<and> failCount t \<ge> MaxFails t then
        (if now < failedUntil t then (False, t)
         else if failedUntil t > 0 then (True, t\<lparr>failCount := 0, failedUntil := 0\<rparr>)
         else (True, t))
      else (True, t))"

definition RecordFailure :: "nanos \<Rightarrow> Target \<Rightarrow> int \<times> Target" where
  "RecordFailure now t =
     (if MaxFails t \<le> 0 then (0, t)
      else
        let count = failCount t + 1;
            t1 = t\<lparr>failCount := count\<rparr>
        in if count \<ge> MaxFails t
           then let timeout = (if FailTimeout t \<le> 0 then 10 * second else FailTimeout t)
                in (count, t1\<lparr>failedUntil := now + timeout\<rparr>)
           else (count, t1))"

definition RecordSuccess :: "Target \<Rightarrow> Target" where
  "RecordSuccess t = (if MaxFails t \<le> 0 then t else t\<lparr>failCount := 0, failedUntil := 0\<rparr>)"

definition IsBackup :: "Target \<Rightarrow> bool" where
  "IsBackup t = Backup t"

definition IncrementConnections :: "Target \<Rightarrow> Target" where
  "IncrementConnections t = t\<lparr>Connections := Connections t + 1\<rparr>"

definition DecrementConnections :: "Target \<Rightarrow> Target" where
  "DecrementConnections t = t\<lparr>Connections := Connections t - 1\<rparr>"

definition ResolvedIPs :: "Target \<Rightarrow> string list" where
  "ResolvedIPs t = (case resolvedIPs t of None \<Rightarrow> [] | Some ips \<Rightarrow> ips)"

definition SetResolvedIPs :: "nanos \<Rightarrow> string list \<Rightarrow> Target \<Rightarrow> Target" where
  "SetResolvedIPs now ips t = t\<lparr>resolvedIPs := Some ips, lastResolved := now\<rparr>"

text \<open>
  \<open>initHostname\<close> calls \<open>url.Parse\<close> and \<open>net.SplitHostPort\<close>; \<open>NeedsResolve\<close> calls
  \<open>net.ParseIP\<close>. They are parameters: \<open>url_host\<close> gives the host part of a URL or
  \<open>None\<close> on a parse error, \<open>split_host\<close> the host of a host-port pair or \<open>None\<close>.
\<close>

definition initHostname ::
  "(string \<Rightarrow> string option) \<Rightarrow> (string \<Rightarrow> string option) \<Rightarrow> Target \<Rightarrow> Target" where
  "initHostname url_host split_host t =
     (case url_host (URL t) of
        None \<Rightarrow> t\<lparr>hostname := URL t\<rparr>
      | Some host \<Rightarrow>
          (case split_host host of
             Some h \<Rightarrow> t\<lparr>hostname := h\<rparr>
           | None \<Rightarrow> t\<lparr>hostname := host\<rparr>))"

definition Hostname ::
  "(string \<Rightarrow> string option) \<Rightarrow> (string \<Rightarrow> string option) \<Rightarrow> Target \<Rightarrow> string \<times> Target" where
  "Hostname url_host split_host t =
     (let t' = (if hostnameDone t then t
                else (initHostname url_host split_host t)\<lparr>hostnameDone := True\<rparr>)
      in (hostname t', t'))"

definition NeedsResolve ::
  "(string \<Rightarrow> string option) \<Rightarrow> (string \<Rightarrow> string option) \<Rightarrow> (string \<Rightarrow> bool)
    \<Rightarrow> nanos \<Rightarrow> nanos \<Rightarrow> Target \<Rightarrow> bool \<times> Target" where
  "NeedsResolve url_host split_host is_ip now ttl t =
     (let (host, t') = Hostname url_host split_host t
      in if is_ip host then (False, t')
         else if lastResolved t' = 0 then (True, t')
         else (now - lastResolved t' > ttl, t'))"

definition NewTargetFromConfig ::
  "(string \<Rightarrow> string option) \<Rightarrow> (string \<Rightarrow> string option)
    \<Rightarrow> string \<Rightarrow> int \<Rightarrow> int \<Rightarrow> int \<Rightarrow> nanos \<Rightarrow> bool \<Rightarrow> bool \<Rightarrow> string \<Rightarrow> Target" where
  "NewTargetFromConfig url_host split_host url weight maxConns maxFails failTimeout backup down proxyURI =
     (let t = \<lparr>resolvedIPs = None, URL = url, hostname = [], VirtualHashes = [],
               Weight = weight, Connections = 0, lastResolved = 0, hostnameDone = False,
               Healthy = False, MaxConns = maxConns, MaxFails = maxFails,
               FailTimeout = failTimeout, Backup = backup, Down = down, ProxyURI = proxyURI,
               failCount = 0, failedUntil = 0, EffectiveWeight = 0, SlowStart = 0,
               Stats = Some NewEWMAStats\<rparr>;
          t = initHostname url_host split_host t
      in if \<not> down then t\<lparr>Healthy := True\<rparr> else t)"

section \<open>Availability\<close>

abbreviation avail :: "nanos \<Rightarrow> Target \<Rightarrow> bool" where
  "avail now t \<equiv> fst (IsAvailable now t)"

abbreviation probe :: "nanos \<Rightarrow> Target \<Rightarrow> Target" where
  "probe now t \<equiv> snd (IsAvailable now t)"

text \<open>Asking whether a target is available only ever clears an expired failure record.\<close>

lemma probe_cases:
  "probe now t = t \<or> probe now t = t\<lparr>failCount := 0, failedUntil := 0\<rparr>"
  by (simp add: IsAvailable_def)

lemma probe_frame [frame_simps, simp]:
  "URL (probe now t) = URL t" "Backup (probe now t) = Backup t"
  "Healthy (probe now t) = Healthy t" "Down (probe now t) = Down t"
  "Weight (probe now t) = Weight t" "Connections (probe now t) = Connections t"
  "MaxConns (probe now t) = MaxConns t" "MaxFails (probe now t) = MaxFails t"
  "VirtualHashes (probe now t) = VirtualHashes t" "Stats (probe now t) = Stats t"
  "EffectiveWeight (probe now t) = EffectiveWeight t" "SlowStart (probe now t) = SlowStart t"
  "FailTimeout (probe now t) = FailTimeout t"
  by (simp_all add: IsAvailable_def)

lemma avail_probe [simp]: "avail now (probe now t) = avail now t"
  by (simp add: IsAvailable_def)

lemma probe_probe [simp]: "probe now (probe now t) = probe now t"
  by (simp add: IsAvailable_def)

lemma avail_Healthy: "avail now t \<Longrightarrow> Healthy t \<and> \<not> Down t"
  by (simp add: IsAvailable_def split: if_splits)

lemma avail_below_MaxConns: "avail now t \<Longrightarrow> 0 < MaxConns t \<Longrightarrow> Connections t < MaxConns t"
  by (auto simp: IsAvailable_def split: if_splits)

text \<open>What the health checker, the configuration and the connection limit allow;
  the failure record is the remaining condition.\<close>

definition admissible :: "Target \<Rightarrow> bool" where
  "admissible t \<longleftrightarrow> Healthy t \<and> \<not> Down t \<and> (MaxConns t \<le> 0 \<or> Connections t < MaxConns t)"

lemma avail_iff:
  "avail now t \<longleftrightarrow> admissible t \<and>
     \<not> (0 < MaxFails t \<and> MaxFails t \<le> failCount t \<and> now < failedUntil t)"
  by (auto simp: IsAvailable_def admissible_def)

section \<open>The failure circuit breaker\<close>

fun fail_all :: "nanos list \<Rightarrow> Target \<Rightarrow> Target" where
  "fail_all [] t = t"
| "fail_all (now # ns) t = fail_all ns (snd (RecordFailure now t))"

definition fail_window :: "Target \<Rightarrow> nanos" where
  "fail_window t = (if FailTimeout t \<le> 0 then 10 * second else FailTimeout t)"

lemma fail_window_pos: "0 < fail_window t"
  by (simp add: fail_window_def)

lemma RecordFailure_frame [frame_simps, simp]:
  "MaxFails (snd (RecordFailure now t)) = MaxFails t"
  "admissible (snd (RecordFailure now t)) = admissible t"
  "fail_window (snd (RecordFailure now t)) = fail_window t"
  by (simp_all add: RecordFailure_def admissible_def fail_window_def Let_def)

lemma fail_all_frame [simp]:
  "MaxFails (fail_all ns t) = MaxFails t"
  "admissible (fail_all ns t) = admissible t"
  "fail_window (fail_all ns t) = fail_window t"
  by (induction ns arbitrary: t) simp_all

lemma fail_all_append [simp]: "fail_all (ns @ ms) t = fail_all ms (fail_all ns t)"
  by (induction ns arbitrary: t) simp_all

lemma failCount_fail_all:
  "0 < MaxFails t \<Longrightarrow> failCount (fail_all ns t) = failCount t + int (length ns)"
proof (induction ns arbitrary: t)
  case (Cons n ns)
  then have "failCount (snd (RecordFailure n t)) = failCount t + 1"
    by (simp add: RecordFailure_def Let_def)
  with Cons show ?case by simp
qed simp

lemma failedUntil_fail_all:
  assumes "0 < MaxFails t" and "MaxFails t \<le> failCount t + int (length ns)" and "ns \<noteq> []"
  shows "failedUntil (fail_all ns t) = last ns + fail_window t"
proof -
  obtain ms m where ns: "ns = ms @ [m]" using assms(3) by (metis rev_exhaust)
  let ?u = "fail_all ms t"
  have "failCount ?u + 1 = failCount t + int (length ns)"
    using failCount_fail_all [OF assms(1)] by (simp add: ns)
  with assms have "failedUntil (snd (RecordFailure m ?u)) = m + fail_window ?u"
    by (simp add: RecordFailure_def Let_def fail_window_def)
  then show ?thesis by (simp add: ns)
qed

text \<open>The circuit breaker: once at least \<open>MaxFails\<close> failures have been recorded,
  an otherwise admissible target is available exactly from the end of the
  cool-down window of the last failure on, and that first probe clears the record.\<close>

theorem breaker_window:
  assumes "0 < MaxFails t" and "MaxFails t \<le> failCount t + int (length ns)" and "ns \<noteq> []"
    and "admissible t" and "0 \<le> last ns"
  shows "(avail now (fail_all ns t) \<longleftrightarrow> last ns + fail_window t \<le> now)
    \<and> (avail now (fail_all ns t) \<longrightarrow> failCount (probe now (fail_all ns t)) = 0
          \<and> failedUntil (probe now (fail_all ns t)) = 0)"
proof -
  let ?u = "fail_all ns t"
  have u: "failedUntil ?u = last ns + fail_window t" "MaxFails t \<le> failCount ?u"
    using assms by (simp_all add: failedUntil_fail_all failCount_fail_all)
  have a: "avail now ?u \<longleftrightarrow> last ns + fail_window t \<le> now"
    using assms(1,4) u by (auto simp: avail_iff)
  moreover have "failCount (probe now ?u) = 0 \<and> failedUntil (probe now ?u) = 0"
    if "avail now ?u"
    using that u assms(1,5) fail_window_pos [of t]
    by (simp add: IsAvailable_def split: if_splits)
  ultimately show ?thesis by blast
qed

definition example_target :: Target where
  "example_target = NewTargetFromConfig (\<lambda>u. Some (TrimPrefix u ''http://'')) (\<lambda>_. None)
     ''http://a'' 1 0 2 (5 * second) False False []"

theorem breaker_window_witness:
  "avail (16 * second) (fail_all [10 * second, 11 * second] example_target)
   \<and> \<not> avail (15 * second) (fail_all [10 * second, 11 * second] example_target)"
proof -
  let ?t = example_target and ?ns = "[10 * second, 11 * second]"
  have h: "0 < MaxFails ?t" "MaxFails ?t \<le> failCount ?t + int (length ?ns)" "?ns \<noteq> []"
    "admissible ?t" "0 \<le> last ?ns" and w: "fail_window ?t = 5 * second"
    by (simp_all add: example_target_def NewTargetFromConfig_def initHostname_def
        admissible_def fail_window_def Let_def)
  show ?thesis
    using breaker_window [OF h, of "16 * second"] breaker_window [OF h, of "15 * second"] w
    by simp
qed

text \<open>A success closes the breaker at once.\<close>

lemma RecordSuccess_avail: "admissible t \<Longrightarrow> avail now (RecordSuccess t)"
  by (simp add: avail_iff RecordSuccess_def admissible_def)

section \<open>Response-time averages\<close>

lemma go_div_nonneg: "0 \<le> a \<Longrightarrow> 0 < b \<Longrightarrow> go_div a b = a div b"
  by (cases "a = 0") (simp_all add: go_div_def)

lemma ewma_update_bounds:
  assumes "lo \<le> old" "old \<le> hi" "lo \<le> s" "s \<le> hi" "0 < lo"
  shows "lo \<le> ewma_update old s" and "ewma_update old s \<le> hi"
  using assms by (simp_all add: ewma_update_def go_div_nonneg defaultAlphaScale_def)

lemma ewma_update_first: "ewma_update 0 s = s"
  by (simp add: ewma_update_def)

lemma recordAtomic_bounds:
  assumes "\<forall>w \<in> set (cell # ws). w = 0 \<or> (lo \<le> w \<and> w \<le> hi)" "lo \<le> s" "s \<le> hi" "0 < lo"
  shows "lo \<le> recordAtomic cell ws s \<and> recordAtomic cell ws s \<le> hi"
  using assms
proof (induction cell ws s rule: recordAtomic.induct)
  case (1 cell s)
  then show ?case
    by (cases "cell = 0") (auto simp: ewma_update_first intro: ewma_update_bounds)
next
  case (2 cell w ws s)
  then show ?case
    by (cases "cell = 0") (auto simp: ewma_update_first intro: ewma_update_bounds)
qed

fun record_all :: "(nanos \<times> nanos) list \<Rightarrow> EWMAStats \<Rightarrow> EWMAStats" where
  "record_all [] e = e"
| "record_all ((ht, lbt) # ss) e = record_all ss (EWMA_Record ht lbt e)"

definition stats_within :: "nanos \<Rightarrow> nanos \<Rightarrow> EWMAStats \<Rightarrow> bool" where
  "stats_within lo hi e \<longleftrightarrow> lo \<le> headerTime e \<and> headerTime e \<le> hi
     \<and> lo \<le> lastByteTime e \<and> lastByteTime e \<le> hi"

lemma EWMA_Record_within:
  assumes "stats_within lo hi e \<or> (headerTime e = 0 \<and> lastByteTime e = 0)"
    and "lo \<le> ht" "ht \<le> hi" "lo \<le> lbt" "lbt \<le> hi" "0 < lo"
  shows "stats_within lo hi (EWMA_Record ht lbt e)"
  using assms recordAtomic_bounds [of "headerTime e" "[]" lo hi ht]
    recordAtomic_bounds [of "lastByteTime e" "[]" lo hi lbt]
  by (auto simp: stats_within_def EWMA_Record_def simp del: recordAtomic.simps)

lemma record_all_within:
  assumes "stats_within lo hi e" "0 < lo"
    and "\<forall>(ht, lbt) \<in> set ss. lo \<le> ht \<and> ht \<le> hi \<and> lo \<le> lbt \<and> lbt \<le> hi"
  shows "stats_within lo hi (record_all ss e)"
  using assms
proof (induction ss e rule: record_all.induct)
  case (2 ht lbt ss e)
  then show ?case using EWMA_Record_within [of lo hi e ht lbt] by simp
qed simp

text \<open>The moving averages never leave the range of the recorded response times:
  from a fresh statistics object, any non-empty series of samples within \<open>[lo, hi]\<close>
  leaves both averages within \<open>[lo, hi]\<close> and the count equal to the series' length.\<close>

theorem ewma_within_samples:
  assumes "ss \<noteq> []" and "0 < lo"
    and "\<forall>(ht, lbt) \<in> set ss. lo \<le> ht \<and> ht \<le> hi \<and> lo \<le> lbt \<and> lbt \<le> hi"
  shows "stats_within lo hi (record_all ss NewEWMAStats)
    \<and> sampleCount (record_all ss NewEWMAStats) = int (length ss)"
proof -
  have n: "sampleCount (record_all ss e) = sampleCount e + int (length ss)" for e
    by (induction ss e rule: record_all.induct) (simp_all add: EWMA_Record_def)
  obtain ht lbt rest where ss: "ss = (ht, lbt) # rest"
    using assms(1) by (cases ss) auto
  have "stats_within lo hi (EWMA_Record ht lbt NewEWMAStats)"
    using assms(2,3) ss by (intro EWMA_Record_within) (auto simp: NewEWMAStats_def)
  then have "stats_within lo hi (record_all rest (EWMA_Record ht lbt NewEWMAStats))"
    using assms(2,3) ss by (intro record_all_within) auto
  then show ?thesis by (simp add: n) (simp add: ss NewEWMAStats_def)
qed

theorem ewma_within_samples_witness:
  "stats_within 100 300 (record_all [(100, 200), (300, 300)] NewEWMAStats)"
proof -
  have h: "[(100, 200), (300, 300)] \<noteq> ([] :: (nanos \<times> nanos) list)" "(0::int) < 100"
    "\<forall>(ht, lbt) \<in> set [(100, 200), (300, 300)]. (100::int) \<le> ht \<and> ht \<le> 300 \<and> 100 \<le> lbt \<and> lbt \<le> (300::int)"
    by simp_all
  show ?thesis using ewma_within_samples [OF h] by blast
qed

end
