(* ===== verification/Balancer.thy ===== *)
theory Balancer
  imports Target
begin

text \<open>
  \<^verbatim>\<open>internal/loadbalance/balancer.go\<close>, \<^verbatim>\<open>algorithms.go\<close>, \<^verbatim>\<open>random.go\<close> and
  \<^verbatim>\<open>least_time.go\<close>: candidate filtering and the selection algorithms. Targets are addresses
  into an explicit heap, because \<open>IsAvailable\<close> writes to the targets it inspects and
  the caller holds the same pointers. The pool of filter contexts is part of the state:
  a selection takes a context, fills it and gives it back cleared. One selection reads
  the clock once (\<open>now\<close>).

  The interface \<open>Balancer\<close> is the locale \<open>balancer\<close>; algorithms whose \<open>Select\<close>
  honours the full availability contract interpret the extension \<open>strict_balancer\<close>.
\<close>

section \<open>State\<close>

type_synonym heap = "ptr \<Rightarrow> Target"

record filterContext =
  fc_available :: "ptr list"
  fc_backups :: "ptr list"
  fc_excludeSet :: "string \<Rightarrow> bool option"

record lbstate =
  heap :: heap
  fcPool :: "filterContext list"

definition newFilterContext :: filterContext where
  "newFilterContext = \<lparr>fc_available = [], fc_backups = [], fc_excludeSet = Map.empty\<rparr>"

definition acquireFilterContext :: "lbstate \<Rightarrow> filterContext \<times> lbstate" where
  "acquireFilterContext st =
     (case fcPool st of
        [] \<Rightarrow> (newFilterContext, st)
      | fc # rest \<Rightarrow> (fc, st\<lparr>fcPool := rest\<rparr>))"

definition releaseFilterContext :: "filterContext \<Rightarrow> lbstate \<Rightarrow> lbstate" where
  "releaseFilterContext fc st =
     st\<lparr>fcPool := fc\<lparr>fc_available := [], fc_backups := [], fc_excludeSet := Map.empty\<rparr> # fcPool st\<rparr>"

text \<open>Looking a missing key up in a Go \<open>map[string]bool\<close> gives \<open>false\<close>.\<close>

definition in_set :: "(string \<Rightarrow> bool option) \<Rightarrow> string \<Rightarrow> bool" where
  "in_set m u \<longleftrightarrow> m u = Some True"

section \<open>Filtering\<close>

fun filterInto_loop :: "nanos \<Rightarrow> filterContext \<Rightarrow> heap \<Rightarrow> ptr list \<Rightarrow> filterContext \<times> heap" where
  "filterInto_loop now fc h [] = (fc, h)"
| "filterInto_loop now fc h (p # ps) =
     (let (ok, t) = IsAvailable now (h p); h = h(p := t)
      in if \<not> ok then filterInto_loop now fc h ps
         else if IsBackup (h p)
         then filterInto_loop now (fc\<lparr>fc_backups := fc_backups fc @ [p]\<rparr>) h ps
         else filterInto_loop now (fc\<lparr>fc_available := fc_available fc @ [p]\<rparr>) h ps)"

definition filterInto :: "nanos \<Rightarrow> filterContext \<Rightarrow> heap \<Rightarrow> ptr list \<Rightarrow> ptr list \<times> filterContext \<times> heap" where
  "filterInto now fc h ts =
     (let (fc, h) = filterInto_loop now fc h ts
      in if length (fc_available fc) > 0 then (fc_available fc, fc, h) else (fc_backups fc, fc, h))"

fun mark_excluded :: "heap \<Rightarrow> filterContext \<Rightarrow> ptr option list \<Rightarrow> filterContext" where
  "mark_excluded h fc [] = fc"
| "mark_excluded h fc (None # es) = mark_excluded h fc es"
| "mark_excluded h fc (Some p # es) =
     mark_excluded h (fc\<lparr>fc_excludeSet := (fc_excludeSet fc)(URL (h p) \<mapsto> True)\<rparr>) es"

fun filterIntoExcluding_loop :: "nanos \<Rightarrow> filterContext \<Rightarrow> heap \<Rightarrow> ptr list \<Rightarrow> filterContext \<times> heap" where
  "filterIntoExcluding_loop now fc h [] = (fc, h)"
| "filterIntoExcluding_loop now fc h (p # ps) =
     (let (ok, t) = IsAvailable now (h p); h = h(p := t)
      in if \<not> ok \<or> in_set (fc_excludeSet fc) (URL (h p)) then filterIntoExcluding_loop now fc h ps
         else if IsBackup (h p)
         then filterIntoExcluding_loop now (fc\<lparr>fc_backups := fc_backups fc @ [p]\<rparr>) h ps
         else filterIntoExcluding_loop now (fc\<lparr>fc_available := fc_available fc @ [p]\<rparr>) h ps)"

definition filterIntoExcluding ::
  "nanos \<Rightarrow> filterContext \<Rightarrow> heap \<Rightarrow> ptr list \<Rightarrow> ptr option list \<Rightarrow> ptr list \<times> filterContext \<times> heap" where
  "filterIntoExcluding now fc h ts excluded =
     (let (fc, h) = filterIntoExcluding_loop now (mark_excluded h fc excluded) h ts
      in if length (fc_available fc) > 0 then (fc_available fc, fc, h) else (fc_backups fc, fc, h))"

text \<open>Every algorithm brackets the filtering with \<open>acquireFilterContext\<close> and the
  deferred \<open>releaseFilterContext\<close>.\<close>

definition with_filter :: "nanos \<Rightarrow> lbstate \<Rightarrow> ptr list \<Rightarrow> ptr list \<times> lbstate" where
  "with_filter now st ts =
     (let (fc, st) = acquireFilterContext st;
          (healthy, fc, h) = filterInto now fc (heap st) ts
      in (healthy, releaseFilterContext fc (st\<lparr>heap := h\<rparr>)))"

definition with_filter_excluding ::
  "nanos \<Rightarrow> lbstate \<Rightarrow> ptr list \<Rightarrow> ptr option list \<Rightarrow> ptr list \<times> lbstate" where
  "with_filter_excluding now st ts excluded =
     (let (fc, st) = acquireFilterContext st;
          (available, fc, h) = filterIntoExcluding now fc (heap st) ts excluded
      in (available, releaseFilterContext fc (st\<lparr>heap := h\<rparr>)))"

section \<open>The algorithms\<close>

record RoundRobin =
  rr_counter :: u64

definition NewRoundRobin :: RoundRobin where
  "NewRoundRobin = \<lparr>rr_counter = 0\<rparr>"

definition rr_pick :: "RoundRobin \<Rightarrow> ptr list \<Rightarrow> ptr option \<times> RoundRobin" where
  "rr_pick r healthy =
     (if length healthy = 0 then (None, r)
      else let c = rr_counter r + 1; idx = c - 1
           in (Some (healthy ! (unat idx mod length healthy)), r\<lparr>rr_counter := c\<rparr>))"

definition RoundRobin_Select ::
  "RoundRobin \<Rightarrow> nanos \<Rightarrow> lbstate \<Rightarrow> ptr list \<Rightarrow> ptr option \<times> RoundRobin \<times> lbstate" where
  "RoundRobin_Select r now st ts =
     (let (healthy, st) = with_filter now st ts; (p, r) = rr_pick r healthy in (p, r, st))"

definition RoundRobin_SelectExcluding ::
  "RoundRobin \<Rightarrow> nanos \<Rightarrow> lbstate \<Rightarrow> ptr list \<Rightarrow> ptr option list \<Rightarrow> ptr option \<times> RoundRobin \<times> lbstate" where
  "RoundRobin_SelectExcluding r now st ts excluded =
     (let (available, st) = with_filter_excluding now st ts excluded; (p, r) = rr_pick r available
      in (p, r, st))"

record WeightedRoundRobin =
  wrr_counter :: u64

definition NewWeightedRoundRobin :: WeightedRoundRobin where
  "NewWeightedRoundRobin = \<lparr>wrr_counter = 0\<rparr>"

fun wrr_total :: "heap \<Rightarrow> int \<Rightarrow> ptr list \<Rightarrow> int" where
  "wrr_total h acc [] = acc"
| "wrr_total h acc (p # ps) =
     wrr_total h (if Weight (h p) \<le> 0 then acc + 1 else acc + Weight (h p)) ps"

fun wrr_scan :: "heap \<Rightarrow> int \<Rightarrow> int \<Rightarrow> ptr list \<Rightarrow> ptr option" where
  "wrr_scan h pos currentWeight [] = None"
| "wrr_scan h pos currentWeight (p # ps) =
     (let weight = (if Weight (h p) \<le> 0 then 1 else Weight (h p));
          currentWeight = currentWeight + weight
      in if pos < currentWeight then Some p else wrr_scan h pos currentWeight ps)"

definition wrr_pick :: "heap \<Rightarrow> WeightedRoundRobin \<Rightarrow> ptr list \<Rightarrow> ptr option \<times> WeightedRoundRobin" where
  "wrr_pick h w healthy =
     (if length healthy = 0 then (None, w)
      else
        let totalWeight = wrr_total h 0 healthy
        in if totalWeight = 0 then (None, w)
           else
             let c = wrr_counter w + 1; idx = c - 1; pos = uint idx mod totalWeight;
                 w = w\<lparr>wrr_counter := c\<rparr>
             in (case wrr_scan h pos 0 healthy of
                   Some p \<Rightarrow> (Some p, w)
                 | None \<Rightarrow> (Some (healthy ! (length healthy - 1)), w)))"

definition WeightedRoundRobin_Select ::
  "WeightedRoundRobin \<Rightarrow> nanos \<Rightarrow> lbstate \<Rightarrow> ptr list \<Rightarrow> ptr option \<times> WeightedRoundRobin \<times> lbstate" where
  "WeightedRoundRobin_Select w now st ts =
     (let (healthy, st) = with_filter now st ts; (p, w) = wrr_pick (heap st) w healthy in (p, w, st))"

definition WeightedRoundRobin_SelectExcluding ::
  "WeightedRoundRobin \<Rightarrow> nanos \<Rightarrow> lbstate \<Rightarrow> ptr list \<Rightarrow> ptr option list
    \<Rightarrow> ptr option \<times> WeightedRoundRobin \<times> lbstate" where
  "WeightedRoundRobin_SelectExcluding w now st ts excluded =
     (let (available, st) = with_filter_excluding now st ts excluded;
          (p, w) = wrr_pick (heap st) w available
      in (p, w, st))"

text \<open>The running minimum of the least-connections and least-time loops: the best
  target so far with its key; a later target replaces it only when strictly smaller.\<close>

definition min_step :: "ptr \<Rightarrow> int \<Rightarrow> (ptr \<times> int) option \<Rightarrow> (ptr \<times> int) option" where
  "min_step p k best =
     (case best of
        None \<Rightarrow> Some (p, k)
      | Some (q, m) \<Rightarrow> if k < m then Some (p, k) else Some (q, m))"

fun lc_loop :: "heap \<Rightarrow> (ptr \<times> int) option \<Rightarrow> ptr list \<Rightarrow> (ptr \<times> int) option" where
  "lc_loop h best [] = best"
| "lc_loop h best (p # ps) =
     (if \<not> Healthy (h p) then lc_loop h best ps
      else lc_loop h (min_step p (Connections (h p)) best) ps)"

definition LeastConnections_Select :: "lbstate \<Rightarrow> ptr list \<Rightarrow> ptr option \<times> lbstate" where
  "LeastConnections_Select st ts = (map_option fst (lc_loop (heap st) None ts), st)"

fun lc_excl_loop ::
  "nanos \<Rightarrow> (string \<Rightarrow> bool option) \<Rightarrow> heap \<Rightarrow> (ptr \<times> int) option \<Rightarrow> (ptr \<times> int) option \<Rightarrow> ptr list
    \<Rightarrow> (ptr \<times> int) option \<times> (ptr \<times> int) option \<times> heap" where
  "lc_excl_loop now ex h sel bak [] = (sel, bak, h)"
| "lc_excl_loop now ex h sel bak (p # ps) =
     (let (ok, t) = IsAvailable now (h p); h = h(p := t)
      in if \<not> ok \<or> in_set ex (URL (h p)) then lc_excl_loop now ex h sel bak ps
         else let conns = Connections (h p)
              in if IsBackup (h p)
                 then lc_excl_loop now ex h sel (min_step p conns bak) ps
                 else lc_excl_loop now ex h (min_step p conns sel) bak ps)"

definition LeastConnections_SelectExcluding ::
  "nanos \<Rightarrow> lbstate \<Rightarrow> ptr list \<Rightarrow> ptr option list \<Rightarrow> ptr option \<times> lbstate" where
  "LeastConnections_SelectExcluding now st ts excluded =
     (let (fc, st) = acquireFilterContext st;
          fc = mark_excluded (heap st) fc excluded;
          (sel, bak, h) = lc_excl_loop now (fc_excludeSet fc) (heap st) None None ts;
          st = releaseFilterContext fc (st\<lparr>heap := h\<rparr>)
      in (case sel of Some (p, _) \<Rightarrow> (Some p, st) | None \<Rightarrow> (map_option fst bak, st)))"

definition hash_pick :: "string \<Rightarrow> ptr list \<Rightarrow> ptr option" where
  "hash_pick clientIP healthy =
     (if length healthy = 0 then None
      else Some (healthy ! (unat (FNV64a clientIP) mod length healthy)))"

definition SelectByIP :: "nanos \<Rightarrow> lbstate \<Rightarrow> ptr list \<Rightarrow> string \<Rightarrow> ptr option \<times> lbstate" where
  "SelectByIP now st ts clientIP =
     (let (healthy, st) = with_filter now st ts in (hash_pick clientIP healthy, st))"

definition SelectExcludingByIP ::
  "nanos \<Rightarrow> lbstate \<Rightarrow> ptr list \<Rightarrow> ptr option list \<Rightarrow> string \<Rightarrow> ptr option \<times> lbstate" where
  "SelectExcludingByIP now st ts excluded clientIP =
     (let (available, st) = with_filter_excluding now st ts excluded in (hash_pick clientIP available, st))"

definition IPHash_Select :: "nanos \<Rightarrow> lbstate \<Rightarrow> ptr list \<Rightarrow> ptr option \<times> lbstate" where
  "IPHash_Select now st ts = SelectByIP now st ts []"

definition IPHash_SelectExcluding ::
  "nanos \<Rightarrow> lbstate \<Rightarrow> ptr list \<Rightarrow> ptr option list \<Rightarrow> ptr option \<times> lbstate" where
  "IPHash_SelectExcluding now st ts excluded = SelectExcludingByIP now st ts excluded []"

text \<open>\<open>rand.IntN n\<close> returns a number below \<open>n\<close>: the two draws are the arguments
  \<open>ri\<close> and \<open>rj\<close>, reduced to that range.\<close>

definition p2c_pick :: "heap \<Rightarrow> nat \<Rightarrow> nat \<Rightarrow> ptr list \<Rightarrow> ptr option" where
  "p2c_pick h ri rj available =
     (if length available = 0 then None
      else if length available = 1 then Some (available ! 0)
      else
        let i = ri mod length available;
            j = rj mod (length available - 1);
            j = (if j \<ge> i then j + 1 else j);
            a = available ! i; b = available ! j
        in if Connections (h a) \<le> Connections (h b) then Some a else Some b)"

definition Random_Select ::
  "nat \<Rightarrow> nat \<Rightarrow> nanos \<Rightarrow> lbstate \<Rightarrow> ptr list \<Rightarrow> ptr option \<times> lbstate" where
  "Random_Select ri rj now st ts =
     (let (available, st) = with_filter now st ts in (p2c_pick (heap st) ri rj available, st))"

definition Random_SelectExcluding ::
  "nat \<Rightarrow> nat \<Rightarrow> nanos \<Rightarrow> lbstate \<Rightarrow> ptr list \<Rightarrow> ptr option list \<Rightarrow> ptr option \<times> lbstate" where
  "Random_SelectExcluding ri rj now st ts excluded =
     (let (available, st) = with_filter_excluding now st ts excluded
      in (p2c_pick (heap st) ri rj available, st))"

record LeastTime =
  lt_metric :: string
  lt_defaultTime :: nanos

definition NewLeastTime :: "string \<Rightarrow> nanos \<Rightarrow> LeastTime" where
  "NewLeastTime metric defaultTime =
     \<lparr>lt_metric = (if metric \<noteq> ''header'' then ''last_byte'' else metric),
      lt_defaultTime = (if defaultTime \<le> 0 then millisecond else defaultTime)\<rparr>"

definition lt_key :: "LeastTime \<Rightarrow> Target \<Rightarrow> int" where
  "lt_key l t =
     (let currentTime =
            (case Stats t of
               None \<Rightarrow> 0
             | Some e \<Rightarrow> if lt_metric l = ''header'' then headerTime e else lastByteTime e)
      in if currentTime = 0 then lt_defaultTime l else currentTime)"

fun lt_loop :: "LeastTime \<Rightarrow> heap \<Rightarrow> (ptr \<times> int) option \<Rightarrow> ptr list \<Rightarrow> (ptr \<times> int) option" where
  "lt_loop l h best [] = best"
| "lt_loop l h best (p # ps) = lt_loop l h (min_step p (lt_key l (h p)) best) ps"

definition selectFrom :: "LeastTime \<Rightarrow> heap \<Rightarrow> ptr list \<Rightarrow> ptr option" where
  "selectFrom l h available =
     (if length available = 0 then None else map_option fst (lt_loop l h None available))"

definition LeastTime_Select :: "LeastTime \<Rightarrow> nanos \<Rightarrow> lbstate \<Rightarrow> ptr list \<Rightarrow> ptr option \<times> lbstate" where
  "LeastTime_Select l now st ts =
     (let (available, st) = with_filter now st ts in (selectFrom l (heap st) available, st))"

definition LeastTime_SelectExcluding ::
  "LeastTime \<Rightarrow> nanos \<Rightarrow> lbstate \<Rightarrow> ptr list \<Rightarrow> ptr option list \<Rightarrow> ptr option \<times> lbstate" where
  "LeastTime_SelectExcluding l now st ts excluded =
     (let (available, st) = with_filter_excluding now st ts excluded
      in (selectFrom l (heap st) available, st))"

definition RecordResponseTime :: "ptr option \<Rightarrow> nanos \<Rightarrow> nanos \<Rightarrow> heap \<Rightarrow> heap" where
  "RecordResponseTime target ht lbt h =
     (case target of
        None \<Rightarrow> h
      | Some p \<Rightarrow>
          (case Stats (h p) of
             None \<Rightarrow> h
           | Some e \<Rightarrow> h(p := (h p)\<lparr>Stats := Some (EWMA_Record ht lbt e)\<rparr>)))"

definition validAlgorithms :: "string list" where
  "validAlgorithms = [''round_robin'', ''weighted_round_robin'', ''least_conn'', ''ip_hash'',
     ''consistent_hash'', ''random'', ''least_time'', ''sticky'']"

definition IsValidAlgorithm :: "string \<Rightarrow> bool" where
  "IsValidAlgorithm alg = (if alg = [] then True else List.member validAlgorithms alg)"

section \<open>The filter specification\<close>

text \<open>What filtering promises: the available targets that are not excluded, primaries
  only when there is one, in the order of the configuration.\<close>

definition candidates :: "nanos \<Rightarrow> heap \<Rightarrow> (string \<Rightarrow> bool) \<Rightarrow> ptr list \<Rightarrow> ptr list" where
  "candidates now h ex ts =
     (let ok = filter (\<lambda>p. avail now (h p) \<and> \<not> ex (URL (h p))) ts;
          prim = filter (\<lambda>p. \<not> Backup (h p)) ok
      in if prim = [] then ok else prim)"

definition excluded_urls :: "heap \<Rightarrow> ptr option list \<Rightarrow> string \<Rightarrow> bool" where
  "excluded_urls h es u \<longleftrightarrow> (\<exists>p. Some p \<in> set es \<and> URL (h p) = u)"

definition no_urls :: "string \<Rightarrow> bool" where
  "no_urls u \<longleftrightarrow> False"

definition probe_heap :: "nanos \<Rightarrow> ptr list \<Rightarrow> heap \<Rightarrow> heap" where
  "probe_heap now ts h p = (if p \<in> set ts then probe now (h p) else h p)"

definition pool_clean :: "lbstate \<Rightarrow> bool" where
  "pool_clean st \<longleftrightarrow> (\<forall>fc \<in> set (fcPool st). fc = newFilterContext)"

lemma candidates_subset:
  "p \<in> set (candidates now h ex ts) \<Longrightarrow> p \<in> set ts \<and> avail now (h p) \<and> \<not> ex (URL (h p))"
  by (auto simp: candidates_def Let_def split: if_splits)

lemma candidates_empty:
  "candidates now h ex ts = [] \<longleftrightarrow> (\<forall>p \<in> set ts. avail now (h p) \<longrightarrow> ex (URL (h p)))"
  by (auto simp: candidates_def Let_def filter_empty_conv)

lemma candidates_prefer_primary:
  "p \<in> set (candidates now h ex ts) \<Longrightarrow> Backup (h p) \<Longrightarrow> q \<in> set ts \<Longrightarrow> avail now (h q)
    \<Longrightarrow> \<not> ex (URL (h q)) \<Longrightarrow> Backup (h q)"
  by (auto simp: candidates_def Let_def filter_empty_conv split: if_splits)

lemma releaseFilterContext_eq [pool_simps]:
  "releaseFilterContext fc st = st\<lparr>fcPool := newFilterContext # fcPool st\<rparr>"
  by (simp add: releaseFilterContext_def newFilterContext_def)

lemma acquireFilterContext_clean [pool_simps]:
  "pool_clean st \<Longrightarrow> fst (acquireFilterContext st) = newFilterContext
     \<and> heap (snd (acquireFilterContext st)) = heap st \<and> pool_clean (snd (acquireFilterContext st))"
  by (cases "fcPool st") (auto simp: acquireFilterContext_def pool_clean_def)

lemma pool_clean_release [pool_simps, simp]:
  "pool_clean (releaseFilterContext fc (st\<lparr>heap := h\<rparr>)) = pool_clean st"
  "heap (releaseFilterContext fc st) = heap st"
  by (simp_all add: releaseFilterContext_eq pool_clean_def)

lemma probe_heap_Nil [simp]: "probe_heap now [] h = h"
  by (rule ext) (simp add: probe_heap_def)

lemma probe_heap_Cons [simp]:
  "probe_heap now ps (h(p := probe now (h p))) = probe_heap now (p # ps) h"
  by (rule ext) (simp add: probe_heap_def)

lemma probe_heap_frame [frame_simps, simp]:
  "URL (probe_heap now ts h p) = URL (h p)" "Backup (probe_heap now ts h p) = Backup (h p)"
  "Weight (probe_heap now ts h p) = Weight (h p)" "Healthy (probe_heap now ts h p) = Healthy (h p)"
  "Connections (probe_heap now ts h p) = Connections (h p)" "Stats (probe_heap now ts h p) = Stats (h p)"
  "avail now (probe_heap now ts h p) = avail now (h p)"
  by (simp_all add: probe_heap_def)

lemma upd_probe_frame [simp]:
  "avail now ((h(p := probe now (h p))) q) = avail now (h q)"
  "URL ((h(p := probe now (h p))) q) = URL (h q)"
  "Backup ((h(p := probe now (h p))) q) = Backup (h q)"
  "Connections ((h(p := probe now (h p))) q) = Connections (h q)"
  by simp_all

lemma filterInto_loop_spec:
  "filterInto_loop now fc h ts =
     (fc\<lparr>fc_available := fc_available fc @ filter (\<lambda>p. avail now (h p) \<and> \<not> Backup (h p)) ts,
        fc_backups := fc_backups fc @ filter (\<lambda>p. avail now (h p) \<and> Backup (h p)) ts\<rparr>,
      probe_heap now ts h)"
proof (induction ts arbitrary: fc h)
  case (Cons p ps)
  show ?case
    by (simp add: Cons.IH split_beta Let_def IsBackup_def del: fun_upd_apply)
qed simp

lemma filterIntoExcluding_loop_spec:
  "filterIntoExcluding_loop now fc h ts =
     (let ok = (\<lambda>p. avail now (h p) \<and> \<not> in_set (fc_excludeSet fc) (URL (h p))) in
      (fc\<lparr>fc_available := fc_available fc @ filter (\<lambda>p. ok p \<and> \<not> Backup (h p)) ts,
         fc_backups := fc_backups fc @ filter (\<lambda>p. ok p \<and> Backup (h p)) ts\<rparr>,
       probe_heap now ts h))"
proof (induction ts arbitrary: fc h)
  case (Cons p ps)
  show ?case
    by (simp add: Cons.IH split_beta Let_def IsBackup_def del: fun_upd_apply)
qed simp

lemma in_set_empty [simp]: "\<not> in_set (\<lambda>_. None) u"
  by (simp add: in_set_def)

lemma mark_excluded_frame [simp]:
  "fc_available (mark_excluded h fc es) = fc_available fc"
  "fc_backups (mark_excluded h fc es) = fc_backups fc"
  by (induction h fc es rule: mark_excluded.induct) simp_all

lemma mark_excluded_in_set:
  "in_set (fc_excludeSet (mark_excluded h fc es)) u
     \<longleftrightarrow> in_set (fc_excludeSet fc) u \<or> excluded_urls h es u"
  by (induction h fc es rule: mark_excluded.induct) (auto simp: in_set_def excluded_urls_def)

lemma candidates_filter:
  "candidates now h ex ts =
     (let a = filter (\<lambda>p. (avail now (h p) \<and> \<not> ex (URL (h p))) \<and> \<not> Backup (h p)) ts
      in if length a > 0 then a
         else filter (\<lambda>p. (avail now (h p) \<and> \<not> ex (URL (h p))) \<and> Backup (h p)) ts)"
  by (auto simp: candidates_def Let_def filter_empty_conv conj_ac intro!: filter_cong)

lemma with_filter_spec:
  assumes "pool_clean st"
  shows "fst (with_filter now st ts) = candidates now (heap st) no_urls ts"
    and "heap (snd (with_filter now st ts)) = probe_heap now ts (heap st)"
    and "pool_clean (snd (with_filter now st ts))"
  using acquireFilterContext_clean [OF assms]
  by (auto simp: with_filter_def filterInto_def filterInto_loop_spec split_beta Let_def
      newFilterContext_def candidates_filter no_urls_def)

lemma with_filter_excluding_spec:
  assumes "pool_clean st"
  shows "fst (with_filter_excluding now st ts es)
           = candidates now (heap st) (excluded_urls (heap st) es) ts"
    and "heap (snd (with_filter_excluding now st ts es)) = probe_heap now ts (heap st)"
    and "pool_clean (snd (with_filter_excluding now st ts es))"
  using acquireFilterContext_clean [OF assms]
  by (auto simp: with_filter_excluding_def filterIntoExcluding_def filterIntoExcluding_loop_spec
      split_beta Let_def newFilterContext_def candidates_filter mark_excluded_in_set)

lemmas filter_specs = with_filter_spec with_filter_excluding_spec

section \<open>The balancer interface\<close>

definition picks_from :: "ptr option \<Rightarrow> ptr list \<Rightarrow> bool" where
  "picks_from r xs \<longleftrightarrow> (case r of None \<Rightarrow> xs = [] | Some p \<Rightarrow> p \<in> set xs)"

text \<open>
  The contract of the Go interface \<open>Balancer\<close>. \<open>SelectExcluding\<close> picks among the
  candidates that are not excluded and returns nil exactly when there is none;
  \<open>Select\<close> returns a healthy target of the list and nil only when no target is
  available. Neither leaves anything behind but cleared failure records and clean
  filter contexts.
\<close>

locale balancer =
  fixes select :: "'b \<Rightarrow> nanos \<Rightarrow> lbstate \<Rightarrow> ptr list \<Rightarrow> ptr option \<times> 'b \<times> lbstate"
    and select_excluding ::
      "'b \<Rightarrow> nanos \<Rightarrow> lbstate \<Rightarrow> ptr list \<Rightarrow> ptr option list \<Rightarrow> ptr option \<times> 'b \<times> lbstate"
  assumes excluding_picks: "pool_clean st \<Longrightarrow>
      picks_from (fst (select_excluding b now st ts es))
        (candidates now (heap st) (excluded_urls (heap st) es) ts)"
    and excluding_heap: "pool_clean st \<Longrightarrow>
      heap (snd (snd (select_excluding b now st ts es))) = probe_heap now ts (heap st)"
    and excluding_pool: "pool_clean st \<Longrightarrow> pool_clean (snd (snd (select_excluding b now st ts es)))"
    and select_sound: "pool_clean st \<Longrightarrow> fst (select b now st ts) = Some p
      \<Longrightarrow> p \<in> set ts \<and> Healthy (heap st p)"
    and select_complete: "pool_clean st \<Longrightarrow> fst (select b now st ts) = None
      \<Longrightarrow> candidates now (heap st) no_urls ts = []"
    and select_heap: "pool_clean st \<Longrightarrow>
      heap (snd (snd (select b now st ts))) = probe_heap now ts (heap st)
      \<or> heap (snd (snd (select b now st ts))) = heap st"
    and select_pool: "pool_clean st \<Longrightarrow> pool_clean (snd (snd (select b now st ts)))"
begin

lemma excluding_SomeD:
  assumes "pool_clean st" and "fst (select_excluding b now st ts es) = Some p"
  shows "p \<in> set ts" "Healthy (heap st p)" "\<not> Down (heap st p)"
    "\<not> excluded_urls (heap st) es (URL (heap st p))"
  using excluding_picks [OF assms(1), of b now ts es] assms(2)
    candidates_subset [of p now "heap st" "excluded_urls (heap st) es" ts]
    avail_Healthy [of now "heap st p"]
  by (auto simp: picks_from_def)

lemma excluding_None_iff:
  assumes "pool_clean st"
  shows "fst (select_excluding b now st ts es) = None
    \<longleftrightarrow> candidates now (heap st) (excluded_urls (heap st) es) ts = []"
  using excluding_picks [OF assms, of b now ts es]
  by (auto simp: picks_from_def split: option.splits)

lemma excluding_primary_first:
  assumes "pool_clean st" and "fst (select_excluding b now st ts es) = Some p"
    and "Backup (heap st p)" and "q \<in> set ts" and "avail now (heap st q)"
    and "\<not> excluded_urls (heap st) es (URL (heap st q))"
  shows "Backup (heap st q)"
  using candidates_prefer_primary
      [of p now "heap st" "excluded_urls (heap st) es" ts q, OF _ assms(3-6)]
    excluding_picks [OF assms(1), of b now ts es] assms(2)
  by (simp add: picks_from_def)

end

locale strict_balancer = balancer +
  assumes select_picks: "pool_clean st \<Longrightarrow>
      picks_from (fst (select b now st ts)) (candidates now (heap st) no_urls ts)"
begin

lemma select_SomeD:
  assumes "pool_clean st" and "fst (select b now st ts) = Some p"
  shows "p \<in> set ts" "avail now (heap st p)"
  using select_picks [OF assms(1), of b now ts] assms(2)
    candidates_subset [of p now "heap st" no_urls ts]
  by (auto simp: picks_from_def)

lemma select_None_iff:
  "pool_clean st \<Longrightarrow> fst (select b now st ts) = None \<longleftrightarrow> (\<forall>p \<in> set ts. \<not> avail now (heap st p))"
  using select_picks [of st b now ts]
  by (auto simp: picks_from_def candidates_empty no_urls_def split: option.splits
      dest: candidates_subset)

lemma select_respects_limits:
  assumes "pool_clean st" and "fst (select b now st ts) = Some p"
  shows "\<not> Down (heap st p) \<and> (0 < MaxConns (heap st p) \<longrightarrow> Connections (heap st p) < MaxConns (heap st p))"
  using select_SomeD [OF assms] avail_Healthy avail_below_MaxConns by blast

lemma select_primary_first:
  assumes "pool_clean st" and "fst (select b now st ts) = Some p" and "Backup (heap st p)"
    and "q \<in> set ts" and "avail now (heap st q)"
  shows "Backup (heap st q)"
  using candidates_prefer_primary [of p now "heap st" no_urls ts q] assms
    select_picks [OF assms(1), of b now ts]
  by (simp add: picks_from_def no_urls_def)

end

section \<open>Every algorithm implements the interface\<close>

lemma picks_from_SomeI: "p \<in> set xs \<Longrightarrow> picks_from (Some p) xs"
  by (simp add: picks_from_def)

lemma rr_pick_picks: "picks_from (fst (rr_pick r xs)) xs"
  by (cases "xs = []") (auto simp: rr_pick_def picks_from_def Let_def)

lemma hash_pick_picks: "picks_from (hash_pick ip xs) xs"
  by (cases "xs = []") (auto simp: hash_pick_def picks_from_def)

lemma p2c_index:
  assumes "xs \<noteq> []" "length xs \<noteq> Suc 0"
  shows "Suc (k mod (length xs - Suc 0)) < length xs" "k mod (length xs - Suc 0) < length xs"
proof -
  have "0 < length xs - Suc 0" using assms by (cases xs) auto
  then have "k mod (length xs - Suc 0) < length xs - Suc 0" by simp
  then show "Suc (k mod (length xs - Suc 0)) < length xs" "k mod (length xs - Suc 0) < length xs"
    by auto
qed

lemma p2c_pick_picks: "picks_from (p2c_pick h ri rj xs) xs"
  by (auto simp: p2c_pick_def picks_from_def Let_def p2c_index)

lemma min_step_Some [simp]: "min_step p k best \<noteq> None"
  by (auto simp: min_step_def split: option.splits)

text \<open>Both running minima are one fold over the list of considered targets.\<close>

fun min_loop :: "(ptr \<Rightarrow> int) \<Rightarrow> (ptr \<times> int) option \<Rightarrow> ptr list \<Rightarrow> (ptr \<times> int) option" where
  "min_loop f best [] = best"
| "min_loop f best (p # ps) = min_loop f (min_step p (f p) best) ps"

lemma min_loop_None: "min_loop f best xs = None \<longleftrightarrow> best = None \<and> xs = []"
  by (induction xs arbitrary: best) auto

lemma min_loop_SomeD:
  "min_loop f best xs = Some (p, k) \<Longrightarrow>
     (p \<in> set xs \<and> k = f p \<or> best = Some (p, k)) \<and> (\<forall>q \<in> set xs. k \<le> f q)
     \<and> (\<forall>q m. best = Some (q, m) \<longrightarrow> k \<le> m)"
proof (induction xs arbitrary: best)
  case (Cons x xs)
  have "min_loop f (min_step x (f x) best) xs = Some (p, k)" using Cons.prems by simp
  from Cons.IH [OF this] show ?case
    by (auto simp: min_step_def split: option.splits if_splits)
qed simp

lemma min_loop_start:
  assumes "min_loop f None xs = Some (p, k)"
  shows "p \<in> set xs" "\<forall>q \<in> set xs. f p \<le> f q"
  using min_loop_SomeD [OF assms] by auto

lemma picks_min_loop: "picks_from (map_option fst (min_loop f None xs)) xs"
  by (cases "min_loop f None xs") (auto simp: picks_from_def min_loop_None dest: min_loop_start)

lemma lt_loop_min: "lt_loop l h best xs = min_loop (\<lambda>p. lt_key l (h p)) best xs"
  by (induction xs arbitrary: best) simp_all

lemma lc_loop_min:
  "lc_loop h best xs = min_loop (\<lambda>p. Connections (h p)) best (filter (\<lambda>p. Healthy (h p)) xs)"
  by (induction xs arbitrary: best) simp_all

lemma lc_excl_loop_min:
  "lc_excl_loop now ex h sel bak ts =
     (let ok = (\<lambda>p. avail now (h p) \<and> \<not> in_set ex (URL (h p))); f = (\<lambda>p. Connections (h p)) in
      (min_loop f sel (filter (\<lambda>p. ok p \<and> \<not> Backup (h p)) ts),
       min_loop f bak (filter (\<lambda>p. ok p \<and> Backup (h p)) ts),
       probe_heap now ts h))"
proof (induction ts arbitrary: h sel bak)
  case (Cons p ps)
  show ?case
    by (simp add: Cons.IH split_beta Let_def IsBackup_def del: fun_upd_apply)
qed simp

lemma selectFrom_min: "selectFrom l h xs = map_option fst (min_loop (\<lambda>p. lt_key l (h p)) None xs)"
  by (cases xs) (simp_all add: selectFrom_def lt_loop_min)

lemma selectFrom_picks: "picks_from (selectFrom l h xs) xs"
  by (simp add: selectFrom_min picks_min_loop)

text \<open>The two-list loop of \<open>LeastConnections.SelectExcluding\<close> is the minimum over the candidates.\<close>

lemma lc_excluding_spec:
  assumes "pool_clean st"
  shows "fst (LeastConnections_SelectExcluding now st ts es) =
      map_option fst (min_loop (\<lambda>p. Connections (heap st p)) None
        (candidates now (heap st) (excluded_urls (heap st) es) ts))"
    and "heap (snd (LeastConnections_SelectExcluding now st ts es)) = probe_heap now ts (heap st)"
    and "pool_clean (snd (LeastConnections_SelectExcluding now st ts es))"
  using acquireFilterContext_clean [OF assms]
  by (auto simp: LeastConnections_SelectExcluding_def lc_excl_loop_min split_beta Let_def
      newFilterContext_def candidates_filter mark_excluded_in_set min_loop_None filter_empty_conv
      split: option.splits)

text \<open>The weighted scan reads the list in which every target is repeated by its weight.\<close>

definition eff_weight :: "Target \<Rightarrow> int" where
  "eff_weight t = (if Weight t \<le> 0 then 1 else Weight t)"

definition wheel :: "heap \<Rightarrow> ptr list \<Rightarrow> ptr list" where
  "wheel h xs = concat (map (\<lambda>p. replicate (nat (eff_weight (h p))) p) xs)"

lemma eff_weight_pos [simp]: "0 < eff_weight t"
  by (simp add: eff_weight_def)

lemma wheel_simps [simp]:
  "wheel h [] = []" "wheel h (p # ps) = replicate (nat (eff_weight (h p))) p @ wheel h ps"
  by (simp_all add: wheel_def)

lemma set_wheel [simp]: "set (wheel h xs) = set xs"
  by (induction xs) (simp_all add: set_replicate_conv_if linorder_not_le [THEN iffD2, OF eff_weight_pos])

lemma wheel_Nil_iff [simp]: "wheel h xs = [] \<longleftrightarrow> xs = []"
  by (metis set_empty set_wheel)

lemma wrr_total_wheel: "wrr_total h acc xs = acc + int (length (wheel h xs))"
  by (induction xs arbitrary: acc) (simp_all add: eff_weight_def)

lemma wrr_scan_wheel:
  "cur \<le> pos \<Longrightarrow> pos < cur + int (length (wheel h xs))
    \<Longrightarrow> wrr_scan h pos cur xs = Some (wheel h xs ! nat (pos - cur))"
proof (induction xs arbitrary: cur)
  case (Cons p ps)
  define w where "w = eff_weight (h p)"
  have w: "0 < w" by (simp add: w_def)
  have scan: "wrr_scan h pos cur (p # ps)
      = (if pos < cur + w then Some p else wrr_scan h pos (cur + w) ps)"
    by (simp add: w_def eff_weight_def Let_def)
  show ?case
  proof (cases "pos < cur + w")
    case True
    with Cons.prems(1) w show ?thesis
      by (simp add: scan nth_append w_def [symmetric] del: wrr_scan.simps)
  next
    case False
    have "wrr_scan h pos (cur + w) ps = Some (wheel h ps ! nat (pos - (cur + w)))"
      using False Cons.prems(2) w by (intro Cons.IH) (simp_all add: w_def [symmetric])
    moreover have "nat (pos - cur) - nat w = nat (pos - (cur + w))" using w by linarith
    ultimately show ?thesis using False w
      by (simp add: scan nth_append w_def [symmetric] del: wrr_scan.simps)
  qed
qed simp

lemma wrr_pick_wheel:
  assumes "xs \<noteq> []"
  shows "wrr_pick h w xs =
    (Some (wheel h xs ! (unat (wrr_counter w) mod length (wheel h xs))),
     w\<lparr>wrr_counter := wrr_counter w + 1\<rparr>)"
proof -
  let ?n = "int (length (wheel h xs))" and ?pos = "uint (wrr_counter w) mod int (length (wheel h xs))"
  have n: "0 < ?n" using assms by simp
  have "wrr_scan h ?pos 0 xs = Some (wheel h xs ! nat ?pos)"
    using n wrr_scan_wheel [of 0 ?pos h xs] by simp
  moreover have "nat ?pos = unat (wrr_counter w) mod length (wheel h xs)"
    by (simp add: nat_mod_distrib)
  ultimately show ?thesis using assms n
    by (simp add: wrr_pick_def wrr_total_wheel Let_def)
qed

lemma wrr_pick_picks: "picks_from (fst (wrr_pick h w xs)) xs"
proof (cases "xs = []")
  case False
  have "wheel h xs ! (unat (wrr_counter w) mod length (wheel h xs)) \<in> set xs"
    using nth_mod_in_set [of "wheel h xs"] False by (simp only: set_wheel wheel_Nil_iff) simp
  then show ?thesis using False by (simp add: wrr_pick_wheel picks_from_def)
qed (simp add: wrr_pick_def picks_from_def)

lemmas pick_laws = rr_pick_picks wrr_pick_picks hash_pick_picks p2c_pick_picks selectFrom_picks

lemma picks_candidates_sound:
  "picks_from r (candidates now h no_urls ts) \<Longrightarrow> r = Some p \<Longrightarrow> p \<in> set ts \<and> Healthy (h p)"
  using candidates_subset [of p now h no_urls ts] avail_Healthy [of now "h p"]
  by (auto simp: picks_from_def)

lemma picks_candidates_complete:
  "picks_from r (candidates now h no_urls ts) \<Longrightarrow> r = None \<Longrightarrow> candidates now h no_urls ts = []"
  by (simp add: picks_from_def)

text \<open>Stateless algorithms carry \<open>unit\<close> (or their immutable configuration) as balancer state.\<close>

abbreviation stateless :: "ptr option \<times> lbstate \<Rightarrow> 'b \<Rightarrow> ptr option \<times> 'b \<times> lbstate" where
  "stateless r b \<equiv> (fst r, b, snd r)"

lemmas select_defs = RoundRobin_Select_def RoundRobin_SelectExcluding_def
  WeightedRoundRobin_Select_def WeightedRoundRobin_SelectExcluding_def
  IPHash_Select_def IPHash_SelectExcluding_def SelectByIP_def SelectExcludingByIP_def
  Random_Select_def Random_SelectExcluding_def LeastTime_Select_def LeastTime_SelectExcluding_def

lemma strict_balancerI:
  assumes ex: "\<And>st b now ts es. pool_clean st \<Longrightarrow>
      picks_from (fst (excl b now st ts es)) (candidates now (heap st) (excluded_urls (heap st) es) ts)
      \<and> heap (snd (snd (excl b now st ts es))) = probe_heap now ts (heap st)
      \<and> pool_clean (snd (snd (excl b now st ts es)))"
    and sel: "\<And>st b now ts. pool_clean st \<Longrightarrow>
      picks_from (fst (sel b now st ts)) (candidates now (heap st) no_urls ts)
      \<and> heap (snd (snd (sel b now st ts))) = probe_heap now ts (heap st)
      \<and> pool_clean (snd (snd (sel b now st ts)))"
  shows "strict_balancer sel excl"
  using assms picks_candidates_sound picks_candidates_complete
  by unfold_locales blast+

interpretation rr: strict_balancer RoundRobin_Select RoundRobin_SelectExcluding
  by (rule strict_balancerI) (simp_all add: select_defs split_beta Let_def filter_specs pick_laws)

interpretation wrr: strict_balancer WeightedRoundRobin_Select WeightedRoundRobin_SelectExcluding
  by (rule strict_balancerI) (simp_all add: select_defs split_beta Let_def filter_specs pick_laws)

interpretation iphash: strict_balancer
  "\<lambda>ip now st ts. stateless (SelectByIP now st ts ip) ip"
  "\<lambda>ip now st ts es. stateless (SelectExcludingByIP now st ts es ip) ip"
  by (rule strict_balancerI) (simp_all add: select_defs split_beta Let_def filter_specs pick_laws)

interpretation random: strict_balancer
  "\<lambda>(ri, rj) now st ts. stateless (Random_Select ri rj now st ts) (ri, rj)"
  "\<lambda>(ri, rj) now st ts es. stateless (Random_SelectExcluding ri rj now st ts es) (ri, rj)"
  by (rule strict_balancerI) (simp_all add: select_defs split_beta Let_def filter_specs pick_laws)

interpretation ltime: strict_balancer
  "\<lambda>l now st ts. stateless (LeastTime_Select l now st ts) l"
  "\<lambda>l now st ts es. stateless (LeastTime_SelectExcluding l now st ts es) l"
  by (rule strict_balancerI) (simp_all add: select_defs split_beta Let_def filter_specs pick_laws)

lemma lc_select_sound:
  "fst (LeastConnections_Select st ts) = Some p \<Longrightarrow> p \<in> set ts \<and> Healthy (heap st p)"
  by (auto simp: LeastConnections_Select_def lc_loop_min dest: min_loop_start)

lemma lc_select_complete:
  "fst (LeastConnections_Select st ts) = None \<Longrightarrow> candidates now (heap st) no_urls ts = []"
  by (auto simp: LeastConnections_Select_def lc_loop_min min_loop_None filter_empty_conv
      candidates_empty dest: avail_Healthy)

interpretation lc: balancer
  "\<lambda>(b::unit) now st ts. stateless (LeastConnections_Select st ts) b"
  "\<lambda>b now st ts es. stateless (LeastConnections_SelectExcluding now st ts es) b"
  using lc_select_sound lc_select_complete
  by unfold_locales (simp_all add: lc_excluding_spec picks_min_loop LeastConnections_Select_def)

section \<open>Fairness of the cyclic algorithms\<close>

fun run_select ::
  "('b \<Rightarrow> nanos \<Rightarrow> lbstate \<Rightarrow> ptr list \<Rightarrow> ptr option \<times> 'b \<times> lbstate)
    \<Rightarrow> 'b \<Rightarrow> nanos list \<Rightarrow> lbstate \<Rightarrow> ptr list \<Rightarrow> ptr option list" where
  "run_select sel b [] st ts = []"
| "run_select sel b (now # ns) st ts =
     (let (p, b, st) = sel b now st ts in p # run_select sel b ns st ts)"

text \<open>A probe changes no later answer, so along a run whose instants do not go back the
  candidates can be computed on the first heap.\<close>

lemma avail_after_probe: "now \<le> now' \<Longrightarrow> avail now' (probe now t) = avail now' t"
  by (auto simp: avail_iff IsAvailable_def admissible_def)

lemma candidates_after_probe:
  "now \<le> now' \<Longrightarrow> candidates now' (probe_heap now ts h) ex ts' = candidates now' h ex ts'"
proof -
  assume "now \<le> now'"
  then have "avail now' (probe_heap now ts h p) = avail now' (h p)" for p
    by (simp add: probe_heap_def avail_after_probe)
  then show ?thesis by (simp add: candidates_def)
qed

text \<open>A selector with a counter that reads one cell of a wheel made from the candidates.\<close>

locale cyclic_selector =
  fixes sel :: "'b \<Rightarrow> nanos \<Rightarrow> lbstate \<Rightarrow> ptr list \<Rightarrow> ptr option \<times> 'b \<times> lbstate"
    and ctr :: "'b \<Rightarrow> u64" and cyc :: "heap \<Rightarrow> ptr list \<Rightarrow> ptr list"
  assumes cyc_pick: "pool_clean st \<Longrightarrow> candidates now (heap st) no_urls ts = hs \<Longrightarrow> hs \<noteq> [] \<Longrightarrow>
      fst (sel b now st ts) = Some (cyc (heap st) hs ! (unat (ctr b) mod length (cyc (heap st) hs)))"
    and cyc_ctr: "pool_clean st \<Longrightarrow> candidates now (heap st) no_urls ts \<noteq> [] \<Longrightarrow>
      ctr (fst (snd (sel b now st ts))) = ctr b + 1"
    and cyc_heap: "pool_clean st \<Longrightarrow> heap (snd (snd (sel b now st ts))) = probe_heap now ts (heap st)"
    and cyc_pool: "pool_clean st \<Longrightarrow> pool_clean (snd (snd (sel b now st ts)))"
    and cyc_frame: "cyc (probe_heap now ts h) hs = cyc h hs"
begin

lemma run_select_nth:
  assumes "pool_clean st" and "sorted ns"
    and "\<forall>now \<in> set ns. candidates now (heap st) no_urls ts = hs" and "hs \<noteq> []"
    and "unat (ctr b) + length ns < 2 ^ 64"
  shows "run_select sel b ns st ts =
    map (\<lambda>i. Some (cyc (heap st) hs ! ((unat (ctr b) + i) mod length (cyc (heap st) hs)))) [0..<length ns]"
  using assms
proof (induction ns arbitrary: b st)
  case (Cons now ns)
  let ?r = "sel b now st ts"
  let ?st = "snd (snd ?r)" and ?b = "fst (snd ?r)"
  have now: "candidates now (heap st) no_urls ts = hs" using Cons.prems(3) by simp
  have c: "unat (ctr ?b) = unat (ctr b) + 1"
    using cyc_ctr [of st now ts b] Cons.prems(1,4,5) now unat_add_no_wrap [of "ctr b" 1] by simp
  have "run_select sel ?b ns ?st ts =
      map (\<lambda>i. Some (cyc (heap ?st) hs ! ((unat (ctr ?b) + i) mod length (cyc (heap ?st) hs)))) [0..<length ns]"
  proof (rule Cons.IH)
    show "\<forall>m \<in> set ns. candidates m (heap ?st) no_urls ts = hs"
      using Cons.prems(1-3) by (simp add: cyc_heap candidates_after_probe)
  qed (use Cons.prems c in \<open>simp_all add: cyc_pool\<close>)
  then have tail: "run_select sel ?b ns ?st ts =
      map (\<lambda>i. Some (cyc (heap st) hs ! ((unat (ctr b) + i) mod length (cyc (heap st) hs)))) [Suc 0..<Suc (length ns)]"
    using Cons.prems(1)
    by (simp add: c cyc_heap cyc_frame map_Suc_upt [symmetric] comp_def del: upt_Suc)
  show ?case
    using tail cyc_pick [OF Cons.prems(1) now Cons.prems(4), of b]
    by (simp add: split_beta Let_def upt_conv_Cons del: upt_Suc)
qed simp

lemma one_turn:
  assumes "pool_clean st" and "sorted ns"
    and "\<forall>now \<in> set ns. candidates now (heap st) no_urls ts = hs" and "hs \<noteq> []"
    and "unat (ctr b) + length ns < 2 ^ 64" and "length ns = length (cyc (heap st) hs)"
  shows "run_select sel b ns st ts = map Some (rotate (unat (ctr b)) (cyc (heap st) hs))"
  using run_select_nth [OF assms(1-5)] map_nth_mod_rotate [of "cyc (heap st) hs" "unat (ctr b)"] assms(6)
  by (simp flip: map_nth_mod_rotate)

end

interpretation rrc: cyclic_selector RoundRobin_Select rr_counter "\<lambda>h hs. hs"
  by unfold_locales (simp_all add: RoundRobin_Select_def split_beta Let_def filter_specs rr_pick_def)

lemma eff_weight_probe_heap [simp]: "eff_weight (probe_heap now ts h p) = eff_weight (h p)"
  by (simp add: eff_weight_def)

lemma wheel_probe_heap [simp]: "wheel (probe_heap now ts h) hs = wheel h hs"
  by (simp add: wheel_def)

interpretation wrrc: cyclic_selector WeightedRoundRobin_Select wrr_counter wheel
  by unfold_locales
    (auto simp: WeightedRoundRobin_Select_def split_beta Let_def filter_specs wrr_pick_wheel)

text \<open>C1. Round robin is fair: as long as the set of candidates stays the same, any
  \<open>n\<close> consecutive selections over \<open>n\<close> candidates return a rotation of them, each
  candidate exactly once (up to the wrap-around of the 64-bit counter).\<close>

theorem round_robin_fair:
  assumes "pool_clean st" and "sorted ns"
    and "\<forall>now \<in> set ns. candidates now (heap st) no_urls ts = hs" and "hs \<noteq> []"
    and "unat (rr_counter r) + length ns < 2 ^ 64" and "length ns = length hs"
  shows "run_select RoundRobin_Select r ns st ts = map Some (rotate (unat (rr_counter r)) hs)"
  using rrc.one_turn [OF assms(1-5)] assms(6) by simp

text \<open>C10. Weighted round robin is proportional: over one turn (as many selections as the
  weights add up to), every candidate occurs exactly as often as its weight says.\<close>

theorem weighted_round_robin_proportional:
  assumes "pool_clean st" and "sorted ns"
    and "\<forall>now \<in> set ns. candidates now (heap st) no_urls ts = hs" and "distinct hs" and "p \<in> set hs"
    and "unat (wrr_counter w) + length ns < 2 ^ 64"
    and "int (length ns) = wrr_total (heap st) 0 hs"
  shows "int (count_list (run_select WeightedRoundRobin_Select w ns st ts) (Some p))
    = (if Weight (heap st p) \<le> 0 then 1 else Weight (heap st p))"
proof -
  have "length ns = length (wheel (heap st) hs)" using assms(7) by (simp add: wrr_total_wheel)
  moreover have "hs \<noteq> []" using assms(5) by auto
  ultimately have run: "run_select WeightedRoundRobin_Select w ns st ts
      = map Some (rotate (unat (wrr_counter w)) (wheel (heap st) hs))"
    using wrrc.one_turn [OF assms(1-3) _ assms(6)] by blast
  have "count_list (map Some xs) (Some p) = count_list xs p" for xs
    by (induction xs) auto
  moreover have "count_list (rotate k xs) p = count_list xs p" for k xs
    by (simp add: rotate_drop_take) (metis append_take_drop_id count_list_append add.commute)
  moreover have "count_list (wheel h hs) p = nat (eff_weight (h p))" for h
    using assms(4,5)
  proof (induction hs)
    case (Cons x xs)
    have "count_list (replicate n x) p = (if p = x then n else 0)" for n
      by (induction n) auto
    moreover have "p \<notin> set xs \<Longrightarrow> count_list (wheel h xs) p = 0"
      by (simp add: count_list_0_iff)
    ultimately show ?case using Cons by auto
  qed simp
  ultimately show ?thesis by (simp add: run eff_weight_def)
qed

section \<open>A concrete upstream\<close>

text \<open>Three targets: two primaries of weights 2 and 1 and a backup.\<close>

definition mk_target :: "string \<Rightarrow> int \<Rightarrow> bool \<Rightarrow> Target" where
  "mk_target url weight backup =
     NewTargetFromConfig (\<lambda>u. Some u) (\<lambda>_. None) url weight 0 0 0 backup False []"

definition example_heap :: heap where
  "example_heap p = (if p = 10 then mk_target ''http://a'' 2 False
     else if p = 20 then mk_target ''http://b'' 1 False else mk_target ''http://c'' 1 True)"

definition example_state :: lbstate where
  "example_state = \<lparr>heap = example_heap, fcPool = []\<rparr>"

lemma pool_clean_example [simp]: "pool_clean example_state"
  by (simp add: pool_clean_def example_state_def)

lemma heap_example [simp]: "heap example_state = example_heap"
  by (simp add: example_state_def)

lemma mk_target_simps [simp]:
  "URL (mk_target u w b) = u" "Weight (mk_target u w b) = w" "Backup (mk_target u w b) = b"
  "Healthy (mk_target u w b)" "Connections (mk_target u w b) = 0" "avail now (mk_target u w b)"
  "failCount (mk_target u w b) = 0" "EffectiveWeight (mk_target u w b) = 0" "MaxFails (mk_target u w b) = 0"
  "Stats (mk_target u w b) = Some NewEWMAStats" "VirtualHashes (mk_target u w b) = []"
  by (simp_all add: mk_target_def NewTargetFromConfig_def initHostname_def IsAvailable_def Let_def)

lemma example_candidates [simp]: "candidates now example_heap no_urls [10, 20, 30] = [10, 20]"
  by (simp add: candidates_def example_heap_def no_urls_def)

theorem round_robin_fair_witness:
  "run_select RoundRobin_Select NewRoundRobin [5, 6] example_state [10, 20, 30] = [Some 10, Some 20]"
proof -
  have h: "pool_clean example_state" "sorted [5, 6::int]"
    "\<forall>now \<in> set [5, 6]. candidates now (heap example_state) no_urls [10, 20, 30] = [10, 20]"
    "[10, 20] \<noteq> ([] :: nat list)" "unat (rr_counter NewRoundRobin) + length [5, 6::int] < 2 ^ 64"
    "length [5, 6::int] = length [10, 20::nat]"
    by (simp_all add: NewRoundRobin_def)
  show ?thesis using round_robin_fair [OF h] by (simp add: NewRoundRobin_def)
qed

theorem weighted_round_robin_proportional_witness:
  "int (count_list (run_select WeightedRoundRobin_Select NewWeightedRoundRobin [5, 6, 7]
     example_state [10, 20, 30]) (Some 10)) = 2"
proof -
  have h: "pool_clean example_state" "sorted [5, 6, 7::int]"
    "\<forall>now \<in> set [5, 6, 7]. candidates now (heap example_state) no_urls [10, 20, 30] = [10, 20]"
    "distinct [10, 20::nat]" "10 \<in> set [10, 20::nat]"
    "unat (wrr_counter NewWeightedRoundRobin) + length [5, 6, 7::int] < 2 ^ 64"
    "int (length [5, 6, 7::int]) = wrr_total (heap example_state) 0 [10, 20]"
    by (simp_all add: NewWeightedRoundRobin_def example_heap_def)
  show ?thesis using weighted_round_robin_proportional [OF h] by (simp add: example_heap_def)
qed

section \<open>Minimum selection\<close>

text \<open>Power of two choices draws two distinct candidates and never returns the one with
  more connections.\<close>

theorem random_two_choices:
  assumes "pool_clean st" and "candidates now (heap st) no_urls ts = hs" and "1 < length hs"
  shows "\<exists>i j p. i < length hs \<and> j < length hs \<and> i \<noteq> j \<and> i = ri mod length hs
    \<and> fst (Random_Select ri rj now st ts) = Some p \<and> (p = hs ! i \<or> p = hs ! j)
    \<and> Connections (heap st p) = min (Connections (heap st (hs ! i))) (Connections (heap st (hs ! j)))"
proof -
  let ?i = "ri mod length hs" and ?k = "rj mod (length hs - Suc 0)"
  let ?j = "if ?k \<ge> ?i then ?k + 1 else ?k"
  have ne: "hs \<noteq> []" "length hs \<noteq> Suc 0" using assms(3) by auto
  have idx: "?i < length hs" "?j < length hs" "?i \<noteq> ?j"
    using ne p2c_index [OF ne, of rj] by auto
  have r: "fst (Random_Select ri rj now st ts) =
      (if Connections (heap st (hs ! ?i)) \<le> Connections (heap st (hs ! ?j))
       then Some (hs ! ?i) else Some (hs ! ?j))"
    using assms ne
    by (simp add: Random_Select_def split_beta Let_def filter_specs p2c_pick_def)
  show ?thesis
  proof (cases "Connections (heap st (hs ! ?i)) \<le> Connections (heap st (hs ! ?j))")
    case True
    then show ?thesis using idx r by (intro exI [of _ ?i] exI [of _ ?j] exI [of _ "hs ! ?i"]) simp
  next
    case False
    then show ?thesis using idx r by (intro exI [of _ ?i] exI [of _ ?j] exI [of _ "hs ! ?j"]) simp
  qed
qed

theorem random_two_choices_witness:
  "\<exists>i j p. i < length [10, 20::nat] \<and> j < length [10, 20::nat] \<and> i \<noteq> j
     \<and> fst (Random_Select 7 4 9 example_state [10, 20, 30]) = Some p
     \<and> (p = [10, 20] ! i \<or> p = [10, 20] ! j)"
proof -
  have h: "pool_clean example_state" "candidates 9 (heap example_state) no_urls [10, 20, 30] = [10, 20]"
    "1 < length [10, 20::nat]" by simp_all
  show ?thesis using random_two_choices [OF h, of 7 4] by blast
qed

text \<open>Least connections, on failover, returns a candidate with the fewest connections,
  and nil only when there is no candidate.\<close>

theorem least_connections_minimal:
  assumes "pool_clean st"
  shows "case fst (LeastConnections_SelectExcluding now st ts es) of
      None \<Rightarrow> candidates now (heap st) (excluded_urls (heap st) es) ts = []
    | Some p \<Rightarrow> p \<in> set (candidates now (heap st) (excluded_urls (heap st) es) ts)
        \<and> (\<forall>q \<in> set (candidates now (heap st) (excluded_urls (heap st) es) ts).
              Connections (heap st p) \<le> Connections (heap st q))"
proof (cases "min_loop (\<lambda>p. Connections (heap st p)) None
    (candidates now (heap st) (excluded_urls (heap st) es) ts)")
  case None
  then show ?thesis by (simp add: lc_excluding_spec [OF assms] min_loop_None)
next
  case (Some pk)
  obtain p k where pk: "pk = (p, k)" by (cases pk)
  show ?thesis
    using min_loop_start [OF Some [unfolded pk]] Some pk
    by (simp add: lc_excluding_spec [OF assms])
qed

theorem least_connections_minimal_witness:
  "fst (LeastConnections_SelectExcluding 9 example_state [10, 20, 30] [Some 10]) = Some 20"
proof -
  have c: "candidates 9 example_heap (excluded_urls example_heap [Some 10]) [10, 20, 30] = [20]"
    by (simp add: candidates_def example_heap_def excluded_urls_def)
  show ?thesis
    using least_connections_minimal [OF pool_clean_example, of 9 "[Some 10]" "[10, 20, 30]"] c
    by (simp split: option.splits)
qed

end
