(* ===== verification/ConsistentHash.thy ===== *)
theory ConsistentHash
  imports Balancer
begin

text \<open>
  \<^verbatim>\<open>internal/loadbalance/consistent_hash.go\<close>: the hash ring with virtual nodes. The map
  \<open>circle\<close> and the slice \<open>sortedHashes\<close> are fields; a rebuild writes the
  precomputed hashes back to the targets in the heap. Dereferencing a pointer the map
  does not hold is the panic \<open>NilDereference\<close>; the ring invariant excludes it.
\<close>

section \<open>The ring\<close>

record ConsistentHash =
  circle :: "u64 \<Rightarrow> ptr option"
  ch_hashKey :: string
  sortedHashes :: "u64 list"
  virtualNodes :: int
  rebuilt :: bool

definition NewConsistentHash :: "int \<Rightarrow> string \<Rightarrow> ConsistentHash" where
  "NewConsistentHash vn hashKey =
     (let vn = (if vn \<le> 0 then 150 else vn)
      in \<lparr>circle = Map.empty, ch_hashKey = hashKey, sortedHashes = [], virtualNodes = vn, rebuilt = False\<rparr>)"

definition hashKeyString :: "string \<Rightarrow> u64" where
  "hashKeyString key = FNV64a key"

definition virtual_hashes :: "int \<Rightarrow> string \<Rightarrow> u64 list" where
  "virtual_hashes n url = map (\<lambda>i. hashKeyString (url @ ''#'' @ show_nat i)) [0..<nat n]"

definition ensure_hashes :: "int \<Rightarrow> Target \<Rightarrow> Target" where
  "ensure_hashes n t =
     (if length (VirtualHashes t) = 0 then t\<lparr>VirtualHashes := virtual_hashes n (URL t)\<rparr> else t)"

fun add_hashes :: "ptr \<Rightarrow> (u64 \<Rightarrow> ptr option) \<Rightarrow> u64 list \<Rightarrow> u64 list \<Rightarrow> (u64 \<Rightarrow> ptr option) \<times> u64 list" where
  "add_hashes p circ hs [] = (circ, hs)"
| "add_hashes p circ hs (v # vs) = add_hashes p (circ(v \<mapsto> p)) (hs @ [v]) vs"

fun rebuild_loop ::
  "int \<Rightarrow> heap \<Rightarrow> (u64 \<Rightarrow> ptr option) \<Rightarrow> u64 list \<Rightarrow> ptr list \<Rightarrow> heap \<times> (u64 \<Rightarrow> ptr option) \<times> u64 list" where
  "rebuild_loop n h circ hs [] = (h, circ, hs)"
| "rebuild_loop n h circ hs (p # ps) =
     (if \<not> Healthy (h p) then rebuild_loop n h circ hs ps
      else
        let h = h(p := ensure_hashes n (h p));
            (circ, hs) = add_hashes p circ hs (VirtualHashes (h p))
        in rebuild_loop n h circ hs ps)"

definition rebuildCircle :: "ConsistentHash \<Rightarrow> heap \<Rightarrow> ptr list \<Rightarrow> ConsistentHash \<times> heap" where
  "rebuildCircle c h ts =
     (let (h, circ, hs) = rebuild_loop (virtualNodes c) h Map.empty [] ts
      in (c\<lparr>circle := circ, sortedHashes := sort hs, rebuilt := True\<rparr>, h))"

definition Rebuild :: "ConsistentHash \<Rightarrow> heap \<Rightarrow> ptr list \<Rightarrow> ConsistentHash \<times> heap" where
  "Rebuild c h ts = rebuildCircle (c\<lparr>rebuilt := False\<rparr>) h ts"

definition ensureRebuilt :: "ConsistentHash \<Rightarrow> heap \<Rightarrow> ptr list \<Rightarrow> ConsistentHash \<times> heap" where
  "ensureRebuilt c h ts = (if rebuilt c then (c, h) else rebuildCircle c h ts)"

definition SelectByKey ::
  "ConsistentHash \<Rightarrow> heap \<Rightarrow> ptr list \<Rightarrow> string \<Rightarrow> ptr option \<times> ConsistentHash \<times> heap" where
  "SelectByKey c h ts key =
     (let (c, h) = ensureRebuilt c h ts;
          n = length (sortedHashes c)
      in if n = 0 then (None, c, h)
         else
           let hash = FNV64a key;
               idx = sort_search n (\<lambda>i. sortedHashes c ! i \<ge> hash);
               idx = (if idx \<ge> n then 0 else idx)
           in (circle c (sortedHashes c ! idx), c, h))"

definition CH_Select :: "ConsistentHash \<Rightarrow> heap \<Rightarrow> ptr list \<Rightarrow> ptr option \<times> ConsistentHash \<times> heap" where
  "CH_Select c h ts = SelectByKey c h ts []"

fun mark_healthy :: "heap \<Rightarrow> (string \<Rightarrow> bool option) \<Rightarrow> ptr list \<Rightarrow> (string \<Rightarrow> bool option)" where
  "mark_healthy h m [] = m"
| "mark_healthy h m (p # ps) =
     mark_healthy h (if Healthy (h p) then m(URL (h p) \<mapsto> True) else m) ps"

fun unmark_excluded :: "heap \<Rightarrow> (string \<Rightarrow> bool option) \<Rightarrow> ptr option list \<Rightarrow> (string \<Rightarrow> bool option)" where
  "unmark_excluded h m [] = m"
| "unmark_excluded h m (None # es) = unmark_excluded h m es"
| "unmark_excluded h m (Some p # es) = unmark_excluded h (m(URL (h p) \<mapsto> False)) es"

text \<open>The clockwise walk: \<open>fuel\<close> counts the remaining iterations of the Go loop
  \<open>for i := 0; i < len; i++\<close>.\<close>

fun ring_walk ::
  "ConsistentHash \<Rightarrow> heap \<Rightarrow> (string \<Rightarrow> bool option) \<Rightarrow> nat \<Rightarrow> nat \<Rightarrow> nat \<Rightarrow> go_panic + ptr option" where
  "ring_walk c h m idx i 0 = Inr None"
| "ring_walk c h m idx i (Suc k) =
     (case circle c (sortedHashes c ! ((idx + i) mod length (sortedHashes c))) of
        None \<Rightarrow> Inl NilDereference
      | Some p \<Rightarrow> if in_set m (URL (h p)) then Inr (Some p) else ring_walk c h m idx (i + 1) k)"

definition SelectExcludingByKey ::
  "ConsistentHash \<Rightarrow> lbstate \<Rightarrow> ptr list \<Rightarrow> ptr option list \<Rightarrow> string
    \<Rightarrow> (go_panic + ptr option) \<times> ConsistentHash \<times> lbstate" where
  "SelectExcludingByKey c st ts excluded key =
     (let (c, h) = ensureRebuilt c (heap st) ts;
          (fc, st) = acquireFilterContext (st\<lparr>heap := h\<rparr>);
          targetSet = unmark_excluded h (mark_healthy h (fc_excludeSet fc) ts) excluded;
          st = releaseFilterContext (fc\<lparr>fc_excludeSet := targetSet\<rparr>) st;
          n = length (sortedHashes c)
      in if n = 0 then (Inr None, c, st)
         else
           let hash = hashKeyString key;
               idx = sort_search n (\<lambda>i. sortedHashes c ! i \<ge> hash)
           in (ring_walk c h targetSet idx 0 n, c, st))"

definition CH_SelectExcluding ::
  "ConsistentHash \<Rightarrow> lbstate \<Rightarrow> ptr list \<Rightarrow> ptr option list
    \<Rightarrow> (go_panic + ptr option) \<times> ConsistentHash \<times> lbstate" where
  "CH_SelectExcluding c st ts excluded = SelectExcludingByKey c st ts excluded []"

fun PrecomputeHashes_loop :: "int \<Rightarrow> heap \<Rightarrow> ptr list \<Rightarrow> heap" where
  "PrecomputeHashes_loop n h [] = h"
| "PrecomputeHashes_loop n h (p # ps) =
     (if int (length (VirtualHashes (h p))) = n then PrecomputeHashes_loop n h ps
      else PrecomputeHashes_loop n (h(p := (h p)\<lparr>VirtualHashes := virtual_hashes n (URL (h p))\<rparr>)) ps)"

definition PrecomputeHashes :: "heap \<Rightarrow> ptr list \<Rightarrow> int \<Rightarrow> heap" where
  "PrecomputeHashes h ts n = PrecomputeHashes_loop (if n \<le> 0 then 150 else n) h ts"

section \<open>What a rebuild makes\<close>

definition vhashes :: "int \<Rightarrow> Target \<Rightarrow> u64 list" where
  "vhashes n t = VirtualHashes (ensure_hashes n t)"

definition entries :: "int \<Rightarrow> heap \<Rightarrow> ptr list \<Rightarrow> (u64 \<times> ptr) list" where
  "entries n h ts = concat (map (\<lambda>p. map (\<lambda>v. (v, p)) (vhashes n (h p))) (filter (\<lambda>p. Healthy (h p)) ts))"

definition hashed_heap :: "int \<Rightarrow> ptr list \<Rightarrow> heap \<Rightarrow> heap" where
  "hashed_heap n ts h p = (if p \<in> set ts \<and> Healthy (h p) then ensure_hashes n (h p) else h p)"

lemma ensure_hashes_idem [simp]: "ensure_hashes n (ensure_hashes n t) = ensure_hashes n t"
  by (simp add: ensure_hashes_def)

lemma ensure_hashes_frame [frame_simps, simp]:
  "URL (ensure_hashes n t) = URL t" "Healthy (ensure_hashes n t) = Healthy t"
  "vhashes n (ensure_hashes n t) = vhashes n t"
  by (simp_all add: vhashes_def ensure_hashes_def)

lemma hashed_heap_frame [frame_simps, simp]:
  "URL (hashed_heap n ts h p) = URL (h p)" "Healthy (hashed_heap n ts h p) = Healthy (h p)"
  by (simp_all add: hashed_heap_def)

lemma add_hashes_spec:
  "add_hashes p circ hs vs = (circ ++ map_of (rev (map (\<lambda>v. (v, p)) vs)), hs @ vs)"
proof (induction vs arbitrary: circ hs)
  case (Cons v vs)
  show ?case
    by (simp add: Cons.IH map_add_def fun_eq_iff split: option.splits)
qed simp

lemma entries_upd:
  "entries n (h(p := ensure_hashes n (h p))) ps = entries n h ps"
  by (auto simp: entries_def intro!: arg_cong [where f = concat] map_cong filter_cong)

lemma hashed_heap_upd:
  "Healthy (h p) \<Longrightarrow> hashed_heap n ps (h(p := ensure_hashes n (h p))) = hashed_heap n (p # ps) h"
  by (rule ext) (auto simp: hashed_heap_def)

lemma rebuild_loop_spec:
  "rebuild_loop n h circ hs ts =
     (hashed_heap n ts h, circ ++ map_of (rev (entries n h ts)), hs @ map fst (entries n h ts))"
proof (induction ts arbitrary: h circ hs)
  case Nil
  show ?case by (simp add: entries_def hashed_heap_def [abs_def])
next
  case (Cons p ps)
  show ?case
  proof (cases "Healthy (h p)")
    case False
    moreover have "hashed_heap n ps h = hashed_heap n (p # ps) h"
      using False by (auto simp: hashed_heap_def fun_eq_iff)
    ultimately show ?thesis by (simp add: Cons.IH entries_def)
  next
    case True
    have e: "entries n h (p # ps) = map (\<lambda>v. (v, p)) (vhashes n (h p)) @ entries n h ps"
      using True by (simp add: entries_def)
    show ?thesis
      using True
      by (simp add: e Cons.IH add_hashes_spec vhashes_def [symmetric] entries_upd hashed_heap_upd
          comp_def)
  qed
qed

lemma rebuildCircle_spec:
  "rebuildCircle c h ts =
     (c\<lparr>circle := map_of (rev (entries (virtualNodes c) h ts)),
        sortedHashes := sort (map fst (entries (virtualNodes c) h ts)), rebuilt := True\<rparr>,
      hashed_heap (virtualNodes c) ts h)"
  by (simp add: rebuildCircle_def rebuild_loop_spec)

section \<open>The ring invariant\<close>

definition ring_ok :: "ConsistentHash \<Rightarrow> bool" where
  "ring_ok c \<longleftrightarrow> sorted (sortedHashes c) \<and> set (sortedHashes c) = dom (circle c)"

lemma ring_ok_rebuild [simp]: "ring_ok (fst (rebuildCircle c h ts))"
  by (simp add: rebuildCircle_spec ring_ok_def dom_map_of_conv_image_fst)

lemma ring_ok_ensure: "ring_ok c \<Longrightarrow> ring_ok (fst (ensureRebuilt c h ts))"
  by (simp add: ensureRebuilt_def)

lemma rebuilt_ensure [simp]: "rebuilt (fst (ensureRebuilt c h ts))"
  by (simp add: ensureRebuilt_def rebuildCircle_spec)

text \<open>The owner of a point is the first ring position at or after it, else the first of all.\<close>

definition ring_succ :: "u64 set \<Rightarrow> u64 \<Rightarrow> u64" where
  "ring_succ S k = (if \<exists>s \<in> S. k \<le> s then Min {s \<in> S. k \<le> s} else Min S)"

lemma upward_sorted: "sorted xs \<Longrightarrow> upward (length xs) (\<lambda>i. k \<le> xs ! i)"
  unfolding upward_def by (meson order_trans sorted_nth_mono)

lemma ring_index:
  fixes k :: u64
  assumes "sorted xs" and "xs \<noteq> []"
  defines "i \<equiv> sort_search (length xs) (\<lambda>i. xs ! i \<ge> k)"
  shows "xs ! (if i \<ge> length xs then 0 else i) = ring_succ (set xs) k"
proof -
  note up = upward_sorted [OF assms(1), of k]
  have below: "j < i \<Longrightarrow> \<not> k \<le> xs ! j" for j
    using sort_search_below [OF up] by (simp add: i_def)
  show ?thesis
  proof (cases "i < length xs")
    case True
    have ge: "k \<le> xs ! i" using sort_search_above [OF up, of i] True by (simp add: i_def)
    have "Min {s \<in> set xs. k \<le> s} = xs ! i"
    proof (rule Min_eqI)
      fix y assume "y \<in> {s \<in> set xs. k \<le> s}"
      then obtain j where j: "j < length xs" "y = xs ! j" "k \<le> xs ! j"
        by (auto simp: in_set_conv_nth)
      with below have "i \<le> j" by (meson linorder_not_le)
      with assms(1) j show "xs ! i \<le> y" by (simp add: sorted_nth_mono)
    qed (use ge True in auto)
    moreover have "\<exists>s \<in> set xs. k \<le> s" using ge True nth_mem by blast
    ultimately show ?thesis using True by (simp add: ring_succ_def)
  next
    case False
    have none: "\<not> (\<exists>s \<in> set xs. k \<le> s)"
    proof
      assume "\<exists>s \<in> set xs. k \<le> s"
      then obtain j where "j < length xs" "k \<le> xs ! j" by (auto simp: in_set_conv_nth)
      with below [of j] False show False by linarith
    qed
    have "Min (set xs) = xs ! 0"
      using assms(1,2) by (intro Min_eqI) (auto simp: in_set_conv_nth sorted_nth_mono)
    then show ?thesis using none False by (simp add: ring_succ_def)
  qed
qed

lemma ring_succ_in: "finite S \<Longrightarrow> S \<noteq> {} \<Longrightarrow> ring_succ S k \<in> S"
proof (cases "\<exists>s \<in> S. k \<le> s")
  case True
  assume "finite S"
  with True have "Min {s \<in> S. k \<le> s} \<in> {s \<in> S. k \<le> s}" by (intro Min_in) auto
  then show ?thesis using True by (simp add: ring_succ_def)
qed (simp add: ring_succ_def)

text \<open>Taking points away moves no key whose owning point stays.\<close>

lemma ring_succ_stable:
  assumes "finite S" and "S' \<subseteq> S" and "ring_succ S k \<in> S'"
  shows "ring_succ S' k = ring_succ S k"
proof (cases "\<exists>s \<in> S. k \<le> s")
  case True
  let ?m = "ring_succ S k"
  have fin: "finite {s \<in> S. k \<le> s}" using assms(1) by simp
  have m: "?m = Min {s \<in> S. k \<le> s}" using True by (simp add: ring_succ_def)
  have "?m \<in> {s \<in> S. k \<le> s}" unfolding m using True by (intro Min_in [OF fin]) auto
  then have mk: "k \<le> ?m" by simp
  have "Min {s \<in> S'. k \<le> s} = ?m"
  proof (rule Min_eqI)
    fix y assume "y \<in> {s \<in> S'. k \<le> s}"
    then show "?m \<le> y" unfolding m using assms(2) by (intro Min_le [OF fin]) auto
  qed (use assms mk in \<open>auto intro: finite_subset\<close>)
  moreover have "\<exists>s \<in> S'. k \<le> s" using assms(3) mk by blast
  ultimately show ?thesis by (simp add: ring_succ_def)
next
  case False
  have m: "ring_succ S k = Min S" using False by (simp add: ring_succ_def)
  have "Min S' = Min S"
    using assms unfolding m by (intro Min_eqI) (auto intro: finite_subset)
  moreover have "\<not> (\<exists>s \<in> S'. k \<le> s)" using False assms(2) by blast
  ultimately show ?thesis using m by (simp add: ring_succ_def)
qed

lemma SelectByKey_owner:
  assumes "ring_ok (fst (ensureRebuilt c h ts))"
  shows "fst (SelectByKey c h ts key) =
    (let c' = fst (ensureRebuilt c h ts)
     in if sortedHashes c' = [] then None
        else circle c' (ring_succ (set (sortedHashes c')) (FNV64a key)))"
proof -
  let ?c = "fst (ensureRebuilt c h ts)"
  have "sorted (sortedHashes ?c)" using assms by (simp add: ring_ok_def)
  note idx = ring_index [OF this, of "FNV64a key"]
  show ?thesis
  proof (cases "sortedHashes ?c = []")
    case False
    then show ?thesis using idx [OF False, symmetric]
      by (simp add: SelectByKey_def split_beta Let_def)
  qed (simp add: SelectByKey_def split_beta Let_def)
qed

section \<open>Selection on the ring\<close>

lemma entries_member: "(v, p) \<in> set (entries n h ts) \<longleftrightarrow> p \<in> set ts \<and> Healthy (h p) \<and> v \<in> set (vhashes n (h p))"
  by (auto simp: entries_def)

lemma vhashes_nonempty: "0 < n \<Longrightarrow> vhashes n t \<noteq> []"
  by (simp add: vhashes_def ensure_hashes_def virtual_hashes_def)

lemma entries_empty: "0 < n \<Longrightarrow> entries n h ts = [] \<longleftrightarrow> (\<forall>p \<in> set ts. \<not> Healthy (h p))"
  using vhashes_nonempty [of n] by (auto simp: entries_def filter_empty_conv)

lemma map_of_rev_entries: "map_of (rev (entries n h ts)) v = Some p \<Longrightarrow> (v, p) \<in> set (entries n h ts)"
  using map_of_SomeD by fastforce

text \<open>On a ring that was not built yet, selection builds it from the targets at hand.\<close>

lemma sort_Nil_iff [simp]: "sort xs = [] \<longleftrightarrow> xs = []"
  by (metis length_0_conv length_sort)

lemma SelectByKey_fresh:
  assumes "\<not> rebuilt c"
  shows "fst (SelectByKey c h ts key) =
    (if entries (virtualNodes c) h ts = [] then None
     else map_of (rev (entries (virtualNodes c) h ts))
       (ring_succ (fst ` set (entries (virtualNodes c) h ts)) (FNV64a key)))"
  using assms
  by (subst SelectByKey_owner) (simp_all add: ensureRebuilt_def rebuildCircle_spec ring_ok_def
      dom_map_of_conv_image_fst Let_def)

lemma ring_owner_defined:
  assumes "es \<noteq> []"
  shows "\<exists>p. map_of (rev es) (ring_succ (fst ` set es) k) = Some (p :: ptr)"
proof -
  have "ring_succ (fst ` set es) k \<in> fst ` set es" using assms by (intro ring_succ_in) auto
  then show ?thesis
    by (metis dom_map_of_conv_image_fst domD set_rev)
qed

text \<open>The first selection on a ring returns a healthy target of the list, and nil exactly
  when no target is healthy.\<close>

theorem ring_first_selection:
  assumes "\<not> rebuilt c" and "0 < virtualNodes c"
  shows "case fst (SelectByKey c h ts key) of
      None \<Rightarrow> \<forall>p \<in> set ts. \<not> Healthy (h p)
    | Some p \<Rightarrow> p \<in> set ts \<and> Healthy (h p)"
proof (cases "entries (virtualNodes c) h ts = []")
  case True
  then show ?thesis using assms by (simp add: SelectByKey_fresh entries_empty)
next
  case False
  then obtain p where "fst (SelectByKey c h ts key) = Some p"
    "(ring_succ (fst ` set (entries (virtualNodes c) h ts)) (FNV64a key), p) \<in> set (entries (virtualNodes c) h ts)"
    using ring_owner_defined [OF False, of "FNV64a key"] assms(1) map_of_rev_entries
    by (auto simp: SelectByKey_fresh)
  then show ?thesis by (simp add: entries_member)
qed

theorem ring_first_selection_witness:
  "case fst (SelectByKey (NewConsistentHash 2 ''ip'') example_heap [10, 20] ''10.0.0.7'') of
      None \<Rightarrow> \<forall>p \<in> set [10, 20]. \<not> Healthy (example_heap p)
    | Some p \<Rightarrow> p \<in> set [10, 20] \<and> Healthy (example_heap p)"
proof -
  have h: "\<not> rebuilt (NewConsistentHash 2 ''ip'')" "0 < virtualNodes (NewConsistentHash 2 ''ip'')"
    by (simp_all add: NewConsistentHash_def)
  show ?thesis by (rule ring_first_selection [OF h])
qed

lemma map_of_filter_snd:
  "map_of es k = Some y \<Longrightarrow> P y \<Longrightarrow> map_of (filter (\<lambda>e. P (snd e)) es) k = Some y"
  by (induction es) (auto split: if_splits)

lemma entries_remove:
  "entries n h (filter (\<lambda>q. q \<noteq> x) ts) = filter (\<lambda>e. snd e \<noteq> x) (entries n h ts)"
proof (induction ts)
  case (Cons p ps)
  have "filter (\<lambda>e. snd e \<noteq> x) (map (\<lambda>v. (v, p)) vs) = (if p = x then [] else map (\<lambda>v. (v, p)) vs)" for vs
    by (induction vs) auto
  with Cons show ?case by (auto simp: entries_def)
qed (simp add: entries_def)

text \<open>C20. Consistent hashing: taking a target out of the upstream moves no key that another
  target owned (read the other way round: adding a target only takes keys, it never
  shuffles keys between the others). This holds even when virtual nodes collide.\<close>

theorem ring_minimal_disruption:
  assumes "\<not> rebuilt c" and "fst (SelectByKey c h ts key) = Some y" and "y \<noteq> x"
  shows "fst (SelectByKey c h (filter (\<lambda>q. q \<noteq> x) ts) key) = Some y"
proof -
  let ?es = "entries (virtualNodes c) h ts"
  let ?fs = "filter (\<lambda>e. snd e \<noteq> x) ?es"
  define k where "k = ring_succ (fst ` set ?es) (FNV64a key)"
  have own: "?es \<noteq> []" "map_of (rev ?es) k = Some y"
    using assms(1,2) by (auto simp: SelectByKey_fresh k_def split: if_splits)
  then have k: "k \<in> fst ` set ?fs"
    using map_of_rev_entries [OF own(2)] assms(3) by force
  then have "ring_succ (fst ` set ?fs) (FNV64a key) = k"
    unfolding k_def using k [unfolded k_def] by (intro ring_succ_stable) auto
  moreover have "map_of (rev ?fs) k = Some y"
    using map_of_filter_snd [OF own(2), of "\<lambda>p. p \<noteq> x"] assms(3) by (simp add: rev_filter)
  moreover have "?fs \<noteq> []" using k by (metis image_empty empty_iff list.set(1))
  ultimately show ?thesis using assms(1) by (simp add: SelectByKey_fresh entries_remove)
qed

definition tiny_heap :: heap where
  "tiny_heap p = (mk_target ''http://a'' 1 False)\<lparr>VirtualHashes := [if p = 10 then 0 else 18446744073709551615]\<rparr>"

lemma tiny_owner: "fst (SelectByKey (NewConsistentHash 1 ''ip'') tiny_heap [10, 20] key) = Some 20
    \<or> FNV64a key = 0"
proof -
  have e: "entries 1 tiny_heap [10, 20] = [(0, 10), (18446744073709551615, 20)]"
    by (simp add: entries_def tiny_heap_def vhashes_def ensure_hashes_def)
  have "ring_succ {0, 18446744073709551615} k = 18446744073709551615" if "k \<noteq> 0" for k :: u64
  proof -
    have "k \<le> - 1" by (rule word_n1_ge)
    moreover have "(- 1 :: u64) = 18446744073709551615" by simp
    ultimately have m: "k \<le> 18446744073709551615" by (simp only:)
    then have "{s \<in> {0, 18446744073709551615}. k \<le> s} = {18446744073709551615 :: u64}"
      using that by (auto simp: word_le_0_iff)
    then show ?thesis using m by (auto simp: ring_succ_def)
  qed
  then show ?thesis
    by (cases "FNV64a key = 0") (simp_all add: SelectByKey_fresh NewConsistentHash_def e)
qed

theorem ring_minimal_disruption_witness:
  "fst (SelectByKey (NewConsistentHash 1 ''ip'') tiny_heap (filter (\<lambda>q. q \<noteq> 10) [10, 20]) ''a'') = Some 20"
proof -
  have n0: "FNV64a ''a'' \<noteq> 0" by (simp add: FNV64a_def fnv_step_def fnv_offset_def fnv_prime_def)
  have h: "\<not> rebuilt (NewConsistentHash 1 ''ip'')"
    "fst (SelectByKey (NewConsistentHash 1 ''ip'') tiny_heap [10, 20] ''a'') = Some 20" "20 \<noteq> (10::nat)"
    using tiny_owner [of "''a''"] n0 by (simp_all add: NewConsistentHash_def)
  show ?thesis by (rule ring_minimal_disruption [OF h])
qed

text \<open>Once built, the ring answers from the past: no later change of the targets' health or
  of the list reaches \<open>SelectByKey\<close>, which keeps returning a target that has become
  unhealthy until somebody calls \<open>Rebuild\<close>.\<close>

theorem ring_stale_after_build:
  assumes "fst (SelectByKey c h ts key) = Some p"
  shows "fst (SelectByKey (fst (snd (SelectByKey c h ts key)))
      ((snd (snd (SelectByKey c h ts key)))(p := (h p)\<lparr>Healthy := False\<rparr>)) ts' key) = Some p"
proof -
  have c: "fst (snd (SelectByKey c h ts key)) = fst (ensureRebuilt c h ts)"
    by (simp add: SelectByKey_def split_beta Let_def)
  have "fst (SelectByKey c' h' ts' key) = fst (SelectByKey c h ts key)"
    if "c' = fst (ensureRebuilt c h ts)" for c' h' ts'
    by (simp add: SelectByKey_def split_beta Let_def that ensureRebuilt_def [of "fst (ensureRebuilt c h ts)"])
  then show ?thesis using assms c by simp
qed

theorem ring_stale_after_build_witness:
  "fst (SelectByKey (fst (snd (SelectByKey (NewConsistentHash 1 ''ip'') tiny_heap [10, 20] ''a'')))
      ((snd (snd (SelectByKey (NewConsistentHash 1 ''ip'') tiny_heap [10, 20] ''a'')))
        (20 := (tiny_heap 20)\<lparr>Healthy := False\<rparr>)) [10, 20] ''a'') = Some 20"
proof -
  have n0: "FNV64a ''a'' \<noteq> 0" by (simp add: FNV64a_def fnv_step_def fnv_offset_def fnv_prime_def)
  have h: "fst (SelectByKey (NewConsistentHash 1 ''ip'') tiny_heap [10, 20] ''a'') = Some 20"
    using tiny_owner [of "''a''"] n0 by simp
  show ?thesis by (rule ring_stale_after_build [OF h])
qed

section \<open>Failover on the ring\<close>

lemma in_set_upd: "in_set (m(a \<mapsto> b)) u \<longleftrightarrow> (if u = a then b else in_set m u)"
  by (simp add: in_set_def)

lemma mark_healthy_in_set:
  "in_set (mark_healthy h m ts) u \<longleftrightarrow> in_set m u \<or> (\<exists>p \<in> set ts. Healthy (h p) \<and> URL (h p) = u)"
  by (induction h m ts rule: mark_healthy.induct) (auto simp: in_set_upd simp del: fun_upd_apply)

lemma unmark_excluded_in_set:
  "in_set (unmark_excluded h m es) u \<longleftrightarrow> in_set m u \<and> \<not> excluded_urls h es u"
  by (induction h m es rule: unmark_excluded.induct)
    (auto simp: in_set_upd excluded_urls_def simp del: fun_upd_apply)

lemma ring_walk_spec:
  assumes "\<forall>v \<in> set (sortedHashes c). circle c v \<noteq> None" and "sortedHashes c \<noteq> []"
  shows "\<exists>r. ring_walk c h m idx i k = Inr r \<and>
    (case r of
       Some p \<Rightarrow> in_set m (URL (h p)) \<and> p \<in> ran (circle c)
     | None \<Rightarrow> \<forall>j < k. \<forall>p. circle c (sortedHashes c ! ((idx + i + j) mod length (sortedHashes c))) = Some p
           \<longrightarrow> \<not> in_set m (URL (h p)))"
proof (induction k arbitrary: i)
  case (Suc k)
  obtain p where p: "circle c (sortedHashes c ! ((idx + i) mod length (sortedHashes c))) = Some p"
    using assms by (meson nth_mod_in_set not_None_eq)
  show ?case
  proof (cases "in_set m (URL (h p))")
    case True
    with p show ?thesis by (auto simp: ran_def)
  next
    case False
    obtain r where r: "ring_walk c h m idx (i + 1) k = Inr r"
      "case r of Some p \<Rightarrow> in_set m (URL (h p)) \<and> p \<in> ran (circle c)
       | None \<Rightarrow> \<forall>j < k. \<forall>p. circle c (sortedHashes c ! ((idx + (i + 1) + j) mod length (sortedHashes c))) = Some p
           \<longrightarrow> \<not> in_set m (URL (h p))"
      using Suc.IH [of "i + 1"] by blast
    have "\<forall>j < Suc k. \<forall>q. circle c (sortedHashes c ! ((idx + i + j) mod length (sortedHashes c))) = Some q
           \<longrightarrow> \<not> in_set m (URL (h q))" if "r = None"
    proof (intro allI impI)
      fix j q assume "j < Suc k"
        "circle c (sortedHashes c ! ((idx + i + j) mod length (sortedHashes c))) = Some q"
      then show "\<not> in_set m (URL (h q))"
        using r(2) that p False by (cases j) auto
    qed
    with r p False show ?thesis by (auto split: option.splits)
  qed
qed simp

lemma mod_shift_surj: "(q :: nat) < n \<Longrightarrow> \<exists>j < n. (idx + j) mod n = q"
proof -
  assume q: "q < n"
  let ?j = "(q + (n - idx mod n)) mod n"
  have "(idx + ?j) mod n = (idx mod n + (q + (n - idx mod n))) mod n"
    by (simp add: mod_simps)
  also have "idx mod n + (q + (n - idx mod n)) = q + n"
    using q mod_less_divisor [of n idx] by linarith
  also have "(q + n) mod n = q" using q by simp
  finally show ?thesis using q by (intro exI [of _ ?j]) simp
qed

lemma SelectExcludingByKey_total:
  assumes "pool_clean st" and "ring_ok c"
  shows "\<exists>r c' st'. SelectExcludingByKey c st ts es key = (Inr r, c', st') \<and> pool_clean st' \<and> ring_ok c'
    \<and> heap st' = snd (ensureRebuilt c (heap st) ts) \<and>
    (case r of
       Some p \<Rightarrow> p \<in> ran (circle c') \<and> \<not> excluded_urls (heap st') es (URL (heap st' p))
         \<and> (\<exists>q \<in> set ts. Healthy (heap st' q) \<and> URL (heap st' q) = URL (heap st' p))
     | None \<Rightarrow> \<forall>p \<in> ran (circle c'). excluded_urls (heap st') es (URL (heap st' p))
         \<or> (\<forall>q \<in> set ts. Healthy (heap st' q) \<longrightarrow> URL (heap st' q) \<noteq> URL (heap st' p)))"
proof -
  obtain c' h where ch: "ensureRebuilt c (heap st) ts = (c', h)" by (cases "ensureRebuilt c (heap st) ts")
  have ok: "ring_ok c'" using ring_ok_ensure [OF assms(2), of "heap st" ts] ch by simp
  obtain fc st1 where fc: "acquireFilterContext (st\<lparr>heap := h\<rparr>) = (fc, st1)"
    by (cases "acquireFilterContext (st\<lparr>heap := h\<rparr>)")
  have "pool_clean (st\<lparr>heap := h\<rparr>)" using assms(1) by (simp add: pool_clean_def)
  from acquireFilterContext_clean [OF this]
  have fc': "fc = newFilterContext" "heap st1 = h" "pool_clean st1" by (simp_all add: fc)
  define m where "m = unmark_excluded h (mark_healthy h (fc_excludeSet fc) ts) es"
  have m: "in_set m u \<longleftrightarrow> (\<exists>q \<in> set ts. Healthy (h q) \<and> URL (h q) = u) \<and> \<not> excluded_urls h es u" for u
    by (simp add: m_def unmark_excluded_in_set mark_healthy_in_set fc' newFilterContext_def)
  let ?n = "length (sortedHashes c')"
  let ?st = "releaseFilterContext (fc\<lparr>fc_excludeSet := m\<rparr>) st1"
  have st: "heap ?st = h" "pool_clean ?st"
    using fc' by (simp_all add: releaseFilterContext_eq pool_clean_def)
  show ?thesis
  proof (cases "sortedHashes c' = []")
    case True
    then have "ran (circle c') = {}" using ok by (auto simp: ring_ok_def ran_def)
    then show ?thesis using True ok st
      by (simp add: SelectExcludingByKey_def ch fc m_def [symmetric] Let_def)
  next
    case False
    let ?idx = "sort_search ?n (\<lambda>i. sortedHashes c' ! i \<ge> hashKeyString key)"
    have dom: "\<forall>v \<in> set (sortedHashes c'). circle c' v \<noteq> None" using ok by (auto simp: ring_ok_def)
    obtain r where r: "ring_walk c' h m ?idx 0 ?n = Inr r"
      "case r of Some p \<Rightarrow> in_set m (URL (h p)) \<and> p \<in> ran (circle c')
       | None \<Rightarrow> \<forall>j < ?n. \<forall>p. circle c' (sortedHashes c' ! ((?idx + 0 + j) mod ?n)) = Some p \<longrightarrow> \<not> in_set m (URL (h p))"
      using ring_walk_spec [OF dom False, of h m ?idx 0 ?n] by blast
    have sel: "SelectExcludingByKey c st ts es key = (Inr r, c', ?st)"
      using False r(1) by (simp add: SelectExcludingByKey_def ch fc m_def [symmetric] Let_def)
    have "\<not> in_set m (URL (h p))" if none: "r = None" and ran: "p \<in> ran (circle c')" for p
    proof -
      obtain v where v: "circle c' v = Some p" using ran by (auto simp: ran_def)
      then have "v \<in> set (sortedHashes c')" using ok by (auto simp: ring_ok_def)
      then obtain q where q: "q < ?n" "sortedHashes c' ! q = v" by (auto simp: in_set_conv_nth)
      obtain j where "j < ?n" "(?idx + j) mod ?n = q" using mod_shift_surj [OF q(1)] by blast
      with r(2) q v none show ?thesis by auto
    qed
    then show ?thesis using r(2) ok st
      by (intro exI [of _ r] exI [of _ c'] exI [of _ ?st])
        (auto simp: sel m ch split: option.splits)
  qed
qed

text \<open>Failover on the ring is total and safe: the walk never dereferences a missing node;
  what it returns sits on the ring, has the URL of a healthy listed target and is not
  excluded; it gives up only when no target on the ring qualifies.\<close>

theorem ring_failover_contract:
  assumes "pool_clean st" and "ring_ok c"
  shows "\<exists>r c' st'. SelectExcludingByKey c st ts es key = (Inr r, c', st') \<and> pool_clean st' \<and> ring_ok c' \<and>
    (case r of
       Some p \<Rightarrow> p \<in> ran (circle c') \<and> \<not> excluded_urls (heap st') es (URL (heap st' p))
         \<and> (\<exists>q \<in> set ts. Healthy (heap st' q) \<and> URL (heap st' q) = URL (heap st' p))
     | None \<Rightarrow> \<forall>p \<in> ran (circle c'). excluded_urls (heap st') es (URL (heap st' p))
         \<or> (\<forall>q \<in> set ts. Healthy (heap st' q) \<longrightarrow> URL (heap st' q) \<noteq> URL (heap st' p)))"
  using SelectExcludingByKey_total [OF assms, of ts es key] by blast

theorem ring_failover_contract_witness:
  "\<exists>r c' st'. SelectExcludingByKey (NewConsistentHash 2 ''ip'') example_state [10, 20] [Some 10] ''k'' = (Inr r, c', st')"
proof -
  have h: "pool_clean example_state" "ring_ok (NewConsistentHash 2 ''ip'')"
    by (simp_all add: ring_ok_def NewConsistentHash_def)
  show ?thesis using ring_failover_contract [OF h, of "[10, 20]" "[Some 10]" "''k''"] by blast
qed

end
