(* ===== verification/GoStrings.thy ===== *)
theory GoStrings
  imports Prelude
begin

text \<open>
  The functions of Go's \<open>strings\<close> and \<open>strconv\<close> packages that the program calls on
  configuration values, addresses and cookies. A string is its sequence of bytes; white
  space and letter case are the ASCII ones (the inputs are configuration syntax, header
  names and addresses). \<open>Atoi\<close> reports an error as \<open>None\<close>.
\<close>

section \<open>Regular expressions\<close>

text \<open>Go's \<open>regexp\<close> package is a parameter of the definitions that use it: whether a pattern
  compiles, whether it matches a text, its submatches and its group names.\<close>

record rx =
  re_compile :: "string \<Rightarrow> bool"
  re_match :: "string \<Rightarrow> string \<Rightarrow> bool"
  re_submatch :: "string \<Rightarrow> string \<Rightarrow> string list option"
  re_names :: "string \<Rightarrow> string list"

section \<open>Searching and cutting\<close>

fun IndexByte :: "string \<Rightarrow> char \<Rightarrow> nat option" where
  "IndexByte [] c = None"
| "IndexByte (x # xs) c = (if x = c then Some 0 else map_option Suc (IndexByte xs c))"

fun LastIndexByte :: "string \<Rightarrow> char \<Rightarrow> nat option" where
  "LastIndexByte [] c = None"
| "LastIndexByte (x # xs) c =
     (case LastIndexByte xs c of Some i \<Rightarrow> Some (Suc i) | None \<Rightarrow> (if x = c then Some 0 else None))"

fun StrIndex :: "string \<Rightarrow> string \<Rightarrow> nat option" where
  "StrIndex [] sub = (if sub = [] then Some 0 else None)"
| "StrIndex (x # xs) sub =
     (if HasPrefix (x # xs) sub then Some 0 else map_option Suc (StrIndex xs sub))"

definition Contains :: "string \<Rightarrow> string \<Rightarrow> bool" where
  "Contains s sub \<longleftrightarrow> StrIndex s sub \<noteq> None"

definition HasSuffix :: "string \<Rightarrow> string \<Rightarrow> bool" where
  "HasSuffix s suf \<longleftrightarrow> length suf \<le> length s \<and> drop (length s - length suf) s = suf"

definition TrimSuffix :: "string \<Rightarrow> string \<Rightarrow> string" where
  "TrimSuffix s suf = (if HasSuffix s suf then take (length s - length suf) s else s)"

text \<open>\<open>strings.Split\<close> with a one-byte separator: the parts between the separators, at least one.\<close>

fun Split :: "string \<Rightarrow> char \<Rightarrow> string list" where
  "Split [] c = [[]]"
| "Split (x # xs) c =
     (if x = c then [] # Split xs c
      else case Split xs c of [] \<Rightarrow> [[x]] | p # ps \<Rightarrow> (x # p) # ps)"

definition is_space :: "char \<Rightarrow> bool" where
  "is_space c \<longleftrightarrow> c \<in> {CHR '' '', CHR 0x09, CHR 0x0A, CHR 0x0B, CHR 0x0C, CHR 0x0D}"

text \<open>The white space beyond ASCII, in UTF-8.\<close>

definition utf8_spaces :: "string list" where
  "utf8_spaces =
     [[CHR 0xC2, CHR 0x85], [CHR 0xC2, CHR 0xA0], [CHR 0xE1, CHR 0x9A, CHR 0x80], [CHR 0xE2, CHR 0x80, CHR 0x80],
      [CHR 0xE2, CHR 0x80, CHR 0x81], [CHR 0xE2, CHR 0x80, CHR 0x82], [CHR 0xE2, CHR 0x80, CHR 0x83], [CHR 0xE2, CHR 0x80, CHR 0x84],
      [CHR 0xE2, CHR 0x80, CHR 0x85], [CHR 0xE2, CHR 0x80, CHR 0x86], [CHR 0xE2, CHR 0x80, CHR 0x87], [CHR 0xE2, CHR 0x80, CHR 0x88],
      [CHR 0xE2, CHR 0x80, CHR 0x89], [CHR 0xE2, CHR 0x80, CHR 0x8A], [CHR 0xE2, CHR 0x80, CHR 0xA8], [CHR 0xE2, CHR 0x80, CHR 0xA9],
      [CHR 0xE2, CHR 0x80, CHR 0xAF], [CHR 0xE2, CHR 0x81, CHR 0x9F], [CHR 0xE3, CHR 0x80, CHR 0x80]]"

function trim_left :: "string list \<Rightarrow> string \<Rightarrow> string" where
  "trim_left us s =
     (case s of
        [] \<Rightarrow> []
      | c # t \<Rightarrow>
          if is_space c then trim_left us t
          else if (of_char c :: nat) < 128 then s
          else case List.find (HasPrefix s) us of
                 None \<Rightarrow> s
               | Some u \<Rightarrow> trim_left us (drop (length u - 1) t))"
  by pat_completeness auto
termination
  by (relation "measure (\<lambda>(us, s). length s)") (auto simp: le_imp_less_Suc)

declare trim_left.simps [simp del]

definition TrimSpace :: "string \<Rightarrow> string" where
  "TrimSpace s = rev (trim_left (map rev utf8_spaces) (rev (trim_left utf8_spaces s)))"

definition lower_char :: "char \<Rightarrow> char" where
  "lower_char c = (if 65 \<le> (of_char c :: nat) \<and> (of_char c :: nat) \<le> 90 then char_of ((of_char c :: nat) + 32) else c)"

definition ToLower :: "string \<Rightarrow> string" where
  "ToLower s = map lower_char s"

lemma Split_nonempty [simp]: "Split s c \<noteq> []"
  by (induction s) (auto split: list.splits)

lemma Split_no_sep: "c \<notin> set s \<Longrightarrow> Split s c = [s]"
  by (induction s) auto

lemma Split_append_sep: "c \<notin> set a \<Longrightarrow> Split (a @ c # b) c = a # Split b c"
  by (induction a) (auto split: list.splits)

lemma IndexByte_None: "IndexByte s c = None \<longleftrightarrow> c \<notin> set s"
  by (induction s) auto

lemma IndexByte_append: "c \<notin> set a \<Longrightarrow> IndexByte (a @ c # b) c = Some (length a)"
  by (induction a) auto

lemma IndexByte_Some: "IndexByte s c = Some i \<Longrightarrow> i < length s \<and> s ! i = c"
  by (induction s arbitrary: i) (auto split: if_splits)

lemma LastIndexByte_None: "LastIndexByte s c = None \<longleftrightarrow> c \<notin> set s"
  by (induction s) (auto split: option.splits)

lemma LastIndexByte_append: "c \<notin> set b \<Longrightarrow> LastIndexByte (a @ c # b) c = Some (length a)"
  by (induction a) (simp_all add: LastIndexByte_None [THEN iffD2])

lemma StrIndex_Some: "StrIndex s sub = Some i \<Longrightarrow> HasPrefix (drop i s) sub"
  by (induction s arbitrary: i) (auto split: if_splits)

lemma HasSuffix_append [simp]: "HasSuffix (a @ b) b"
  by (simp add: HasSuffix_def)

lemma TrimSuffix_append [simp]: "TrimSuffix (a @ b) b = a"
  by (simp add: TrimSuffix_def)

lemma dropWhile_id: "xs = [] \<or> \<not> P (hd xs) \<Longrightarrow> dropWhile P xs = xs"
  by (cases xs) auto

text \<open>A character that trimming may remove.\<close>

definition trims :: "char \<Rightarrow> bool" where
  "trims c \<longleftrightarrow> is_space c \<or> 128 \<le> (of_char c :: nat)"

lemma trim_left_id: "s = [] \<or> \<not> trims (hd s) \<Longrightarrow> trim_left us s = s"
  by (cases s) (simp_all add: trim_left.simps trims_def)

lemma TrimSpace_id: "s = [] \<or> \<not> trims (hd s) \<and> \<not> trims (last s) \<Longrightarrow> TrimSpace s = s"
  by (cases "s = []") (simp_all add: TrimSpace_def trim_left_id hd_rev)

lemma trim_left_removes:
  assumes "\<forall>u \<in> set us. \<forall>c \<in> set u. 128 \<le> (of_char c :: nat)"
  shows "\<exists>p. s = p @ trim_left us s \<and> (\<forall>c \<in> set p. trims c)"
  using assms
proof (induction us s rule: trim_left.induct)
  case (1 us s)
  show ?case
  proof (cases s)
    case (Cons c t)
    consider (space) "is_space c" | (other) "\<not> is_space c" "(of_char c :: nat) < 128 \<or> List.find (HasPrefix s) us = None"
      | (utf8) u where "\<not> is_space c" "\<not> (of_char c :: nat) < 128" "List.find (HasPrefix s) us = Some u" by auto
    then show ?thesis
    proof cases
      case space
      then obtain p where "t = p @ trim_left us t" "\<forall>c \<in> set p. trims c" using 1 Cons by blast
      then show ?thesis using space Cons by (intro exI [of _ "c # p"]) (simp add: trim_left.simps trims_def)
    next
      case other
      then have "trim_left us s = s" using Cons by (subst trim_left.simps) auto
      then show ?thesis by simp
    next
      case (utf8 u)
      then have u: "u \<in> set us" "HasPrefix s u" by (auto simp: find_Some_iff in_set_conv_nth)
      obtain p where p: "drop (length u - 1) t = p @ trim_left us (drop (length u - 1) t)" "\<forall>c \<in> set p. trims c"
        using 1(2) [OF Cons utf8(1,2,3)] 1(3) by blast
      have l: "trim_left us s = trim_left us (drop (length u - 1) t)"
        using utf8 Cons by (subst trim_left.simps) auto
      have "s = c # take (length u - 1) t @ p @ trim_left us s" using p(1) l Cons by (metis append_take_drop_id)
      moreover have "trims d" if "d \<in> set (c # take (length u - 1) t)" for d
      proof (cases "d = c")
        case True
        then show ?thesis using utf8(2) by (simp add: trims_def)
      next
        case False
        then have "d \<in> set (take (length u - 1) t)" using that by simp
        then have "d \<in> set (take (length u) s)" using Cons by (cases u) auto
        then have "d \<in> set u" using u(2) by (simp add: HasPrefix_def)
        then show ?thesis using 1(3) u(1) by (simp add: trims_def)
      qed
      ultimately show ?thesis using p(2) by (intro exI [of _ "c # take (length u - 1) t @ p"]) auto
    qed
  qed (simp add: trim_left.simps)
qed

lemma TrimSpace_removes: "TrimSpace s = [] \<Longrightarrow> c \<in> set s \<Longrightarrow> trims c"
proof -
  assume e: "TrimSpace s = []" and c: "c \<in> set s"
  have b: "\<forall>u \<in> set utf8_spaces. \<forall>c \<in> set u. 128 \<le> (of_char c :: nat)" by (simp add: utf8_spaces_def)
  then have b': "\<forall>u \<in> set (map rev utf8_spaces). \<forall>c \<in> set u. 128 \<le> (of_char c :: nat)" by simp
  obtain p where p: "s = p @ trim_left utf8_spaces s" "\<forall>c \<in> set p. trims c" using trim_left_removes [OF b] by blast
  obtain q where "rev (trim_left utf8_spaces s) = q @ []" "\<forall>c \<in> set q. trims c"
    using trim_left_removes [OF b', of "rev (trim_left utf8_spaces s)"] e by (auto simp: TrimSpace_def)
  then have "\<forall>c \<in> set (trim_left utf8_spaces s). trims c" by (metis append_Nil2 set_rev)
  then show "trims c" using p c by (metis Un_iff set_append)
qed

lemma set_trim_left: "set (trim_left us s) \<subseteq> set s"
proof (induction us s rule: trim_left.induct)
  case (1 us s)
  show ?case
  proof (cases s)
    case (Cons c t)
    have "set (trim_left us (drop n t)) \<subseteq> set s" if "set (trim_left us (drop n t)) \<subseteq> set (drop n t)" for n
      using that set_drop_subset [of n t] Cons by auto
    then show ?thesis using 1 Cons by (subst trim_left.simps) (auto split: option.split)
  qed (simp add: trim_left.simps)
qed

lemma set_TrimSpace: "set (TrimSpace s) \<subseteq> set s"
  using set_trim_left [of utf8_spaces s] set_trim_left [of "map rev utf8_spaces" "rev (trim_left utf8_spaces s)"]
  by (auto simp: TrimSpace_def)

lemma lower_char_idem [simp]: "lower_char (lower_char c) = lower_char c"
  by (auto simp: lower_char_def of_char_of)

lemma ToLower_idem [simp]: "ToLower (ToLower s) = ToLower s"
  by (simp add: ToLower_def comp_def)

section \<open>Numbers: \<open>strconv.Atoi\<close>\<close>

definition is_digit :: "char \<Rightarrow> bool" where
  "is_digit c \<longleftrightarrow> 48 \<le> (of_char c :: nat) \<and> (of_char c :: nat) \<le> 57"

definition digit_val :: "char \<Rightarrow> nat" where
  "digit_val c = of_char c - 48"

definition digits_val :: "string \<Rightarrow> nat" where
  "digits_val s = foldl (\<lambda>acc c. acc * 10 + digit_val c) 0 s"

definition parse_digits :: "string \<Rightarrow> nat option" where
  "parse_digits s = (if s \<noteq> [] \<and> list_all is_digit s then Some (digits_val s) else None)"

definition in_int64 :: "int \<Rightarrow> bool" where
  "in_int64 i \<longleftrightarrow> - (2 ^ 63) \<le> i \<and> i < 2 ^ 63"

definition Atoi :: "string \<Rightarrow> int option" where
  "Atoi s =
     (let v = (case s of
          [] \<Rightarrow> None
        | c # cs \<Rightarrow>
            if c = CHR ''-'' then map_option (\<lambda>n. - int n) (parse_digits cs)
            else if c = CHR ''+'' then map_option int (parse_digits cs)
            else map_option int (parse_digits s))
      in case v of Some i \<Rightarrow> (if in_int64 i then Some i else None) | None \<Rightarrow> None)"

lemma digit_char_facts [simp]:
  assumes "d < 10"
  shows "is_digit (digit_char d)" and "digit_val (digit_char d) = d"
  using assms by (simp_all add: is_digit_def digit_val_def digit_char_def of_char_of)

lemma digits_val_snoc: "digits_val (s @ [c]) = digits_val s * 10 + digit_val c"
  by (simp add: digits_val_def)

lemma show_nat_digits: "show_nat n \<noteq> [] \<and> list_all is_digit (show_nat n) \<and> digits_val (show_nat n) = n"
proof (induction n rule: show_nat.induct)
  case (1 n)
  show ?case
  proof (cases "n < 10")
    case True
    then show ?thesis by (subst show_nat.simps) (simp add: digits_val_def show_nat.simps)
  next
    case False
    have step: "show_nat n = show_nat (n div 10) @ [digit_char (n mod 10)]"
      using False by (subst show_nat.simps) simp
    show ?thesis
      unfolding step using 1 False by (simp add: digits_val_snoc)
  qed
qed

lemma parse_show_nat [simp]: "parse_digits (show_nat n) = Some n"
  using show_nat_digits [of n] by (simp add: parse_digits_def)

lemma is_digit_not_sign: "is_digit c \<Longrightarrow> c \<noteq> CHR ''-'' \<and> c \<noteq> CHR ''+'' \<and> c \<noteq> CHR '','' \<and> c \<noteq> CHR ''.'' \<and> c \<noteq> CHR '':''"
  by (auto simp: is_digit_def)

lemma is_digit_not_space: "is_digit c \<Longrightarrow> \<not> is_space c"
  by (auto simp: is_digit_def is_space_def)

lemma is_digit_not_trims: "is_digit c \<Longrightarrow> \<not> trims c"
  using is_digit_not_space [of c] by (auto simp: trims_def is_digit_def)

lemma show_nat_chars: "c \<in> set (show_nat n) \<Longrightarrow> is_digit c"
  using show_nat_digits [of n] by (auto simp: list_all_iff)

lemma Atoi_show_int: "in_int64 i \<Longrightarrow> Atoi (show_int i) = Some i"
proof (cases "i < 0")
  case False
  assume "in_int64 i"
  obtain c cs where c: "show_nat (nat i) = c # cs" using show_nat_digits by (metis list.exhaust)
  then have "is_digit c" using show_nat_chars [of c "nat i"] by simp
  then show ?thesis
    using False c \<open>in_int64 i\<close> is_digit_not_sign [of c] parse_show_nat [of "nat i"]
    by (simp add: Atoi_def show_int_def Let_def)
qed (simp add: Atoi_def show_int_def Let_def)

end
