(* ===== verification/Sticky.thy ===== *)
theory Sticky
  imports Balancer GoStrings
begin

text \<open>
  \<^verbatim>\<open>internal/loadbalance/sticky.go\<close> and \<^verbatim>\<open>sticky_config.go\<close>: cookie-based session affinity, with the
  URL-safe base64 of Go's \<open>encoding/base64\<close> it encodes its cookie with. The balancer that a session falls
  back on is a parameter: its state and its \<open>Select\<close> method, an instance of the
  interface of \<^theory_text>\<open>Balancer\<close>. An operation reads the clock once.
\<close>

section \<open>\<open>base64.URLEncoding\<close>\<close>

definition b64_alphabet :: string where
  "b64_alphabet = ''ABCDEFGHIJKLMNOPQRSTUVWXYZabcdefghijklmnopqrstuvwxyz0123456789-_''"

definition b64_char :: "nat \<Rightarrow> char" where
  "b64_char i = b64_alphabet ! i"

definition b64_val :: "char \<Rightarrow> nat option" where
  "b64_val c = IndexByte b64_alphabet c"

abbreviation (input) pad :: char where
  "pad \<equiv> CHR ''=''"

definition byte :: "char \<Rightarrow> nat" where
  "byte c = of_char c"

fun EncodeToString :: "string \<Rightarrow> string" where
  "EncodeToString [] = []"
| "EncodeToString [a] = [b64_char (byte a div 4), b64_char (byte a mod 4 * 16), pad, pad]"
| "EncodeToString [a, b] =
     [b64_char (byte a div 4), b64_char (byte a mod 4 * 16 + byte b div 16), b64_char (byte b mod 16 * 4), pad]"
| "EncodeToString (a # b # c # rest) =
     [b64_char (byte a div 4), b64_char (byte a mod 4 * 16 + byte b div 16),
      b64_char (byte b mod 16 * 4 + byte c div 64), b64_char (byte c mod 64)] @ EncodeToString rest"

fun decode_quads :: "string \<Rightarrow> string option" where
  "decode_quads [] = Some []"
| "decode_quads (w # x # y # z # rest) =
     (if y = pad \<and> z = pad \<and> rest = [] then
        (case (b64_val w, b64_val x) of
           (Some i, Some j) \<Rightarrow> Some [char_of (i * 4 + j div 16)]
         | _ \<Rightarrow> None)
      else if z = pad \<and> rest = [] then
        (case (b64_val w, b64_val x, b64_val y) of
           (Some i, Some j, Some k) \<Rightarrow> Some [char_of (i * 4 + j div 16), char_of (j mod 16 * 16 + k div 4)]
         | _ \<Rightarrow> None)
      else
        (case (b64_val w, b64_val x, b64_val y, b64_val z, decode_quads rest) of
           (Some i, Some j, Some k, Some l, Some cs) \<Rightarrow>
             Some ([char_of (i * 4 + j div 16), char_of (j mod 16 * 16 + k div 4), char_of (k mod 4 * 64 + l)] @ cs)
         | _ \<Rightarrow> None))"
| "decode_quads _ = None"

text \<open>Go's decoder skips carriage returns and line feeds.\<close>

definition DecodeString :: "string \<Rightarrow> string option" where
  "DecodeString s = decode_quads (filter (\<lambda>c. c \<noteq> CHR 0x0D \<and> c \<noteq> CHR 0x0A) s)"

lemma b64_table: "\<forall>i \<in> set [0..<64]. b64_val (b64_char i) = Some i \<and> b64_char i \<noteq> pad \<and> b64_char i \<noteq> CHR 0x0D \<and> b64_char i \<noteq> CHR 0x0A"
  by code_simp

lemma b64_roundtrip [simp]: "i < 64 \<Longrightarrow> b64_val (b64_char i) = Some i"
  using b64_table by simp

lemma b64_no_pad [simp]: "i < 64 \<Longrightarrow> b64_char i \<noteq> pad"
  using b64_table by simp

lemma b64_no_newline: "i < 64 \<Longrightarrow> b64_char i \<noteq> CHR 0x0D \<and> b64_char i \<noteq> CHR 0x0A"
  using b64_table by simp

lemma byte_less: "byte c < 256"
proof -
  have "(of_char c :: nat) mod 256 < 256" by simp
  then show ?thesis by (simp only: byte_def of_char_mod_256)
qed

lemma char_of_byte [simp]: "char_of (byte c) = c"
  by (simp add: byte_def)

lemma sextets:
  "byte a div 4 < 64" "byte a mod 4 * 16 < 64" "byte a mod 4 * 16 + byte b div 16 < 64"
  "byte b mod 16 * 4 < 64" "byte b mod 16 * 4 + byte c div 64 < 64" "byte c mod 64 < 64"
  using byte_less [of a] byte_less [of b] byte_less [of c] by simp_all

lemma octets_1: "byte a div 4 * 4 + (byte a mod 4 * 16) div 16 = byte a"
  by simp

lemma octets_a: "byte a div 4 * 4 + (byte a mod 4 * 16 + byte b div 16) div 16 = byte a"
proof -
  have "(byte a mod 4 * 16 + byte b div 16) div 16 = byte a mod 4" using byte_less [of b] by simp
  then show ?thesis by simp
qed

lemma octets_b: "(byte a mod 4 * 16 + byte b div 16) mod 16 * 16 + (byte b mod 16 * 4) div 4 = byte b"
proof -
  have "(byte a mod 4 * 16 + byte b div 16) mod 16 = byte b div 16" using byte_less [of b] by simp
  then show ?thesis by simp
qed

lemma octets_c: "(byte a mod 4 * 16 + byte b div 16) mod 16 * 16 + (byte b mod 16 * 4 + byte c div 64) div 4 = byte b"
proof -
  have "(byte a mod 4 * 16 + byte b div 16) mod 16 = byte b div 16" using byte_less [of b] by simp
  moreover have "(byte b mod 16 * 4 + byte c div 64) div 4 = byte b mod 16" using byte_less [of c] by simp
  ultimately show ?thesis by simp
qed

lemma octets_d: "(byte b mod 16 * 4 + byte c div 64) mod 4 * 64 + byte c mod 64 = byte c"
proof -
  have "(byte b mod 16 * 4 + byte c div 64) mod 4 = byte c div 64" using byte_less [of c] by simp
  then show ?thesis by simp
qed

lemma decode_quad:
  assumes "i < 64" "j < 64" "k < 64" "l < 64" "decode_quads rest = Some cs"
  shows "decode_quads (b64_char i # b64_char j # b64_char k # b64_char l # rest) =
    Some ([char_of (i * 4 + j div 16), char_of (j mod 16 * 16 + k div 4), char_of (k mod 4 * 64 + l)] @ cs)"
  using assms by simp

lemma decode_quad_pad:
  assumes "i < 64" "j < 64" "k < 64"
  shows "decode_quads [b64_char i, b64_char j, pad, pad] = Some [char_of (i * 4 + j div 16)]"
    and "decode_quads [b64_char i, b64_char j, b64_char k, pad] = Some [char_of (i * 4 + j div 16), char_of (j mod 16 * 16 + k div 4)]"
  using assms by simp_all

lemma decode_quads_encode: "decode_quads (EncodeToString s) = Some s"
proof (induction s rule: EncodeToString.induct)
  case (2 a)
  show ?case
    using decode_quad_pad(1) [OF sextets(1) [of a] sextets(2) [of a] sextets(1) [of a]]
    by (simp only: EncodeToString.simps octets_1 char_of_byte)
next
  case (3 a b)
  show ?case
    using decode_quad_pad(2) [OF sextets(1) [of a] sextets(3) [of a b] sextets(4) [of b]]
    by (simp only: EncodeToString.simps octets_a octets_b char_of_byte)
next
  case (4 a b c rest)
  show ?case
    using decode_quad [OF sextets(1) [of a] sextets(3) [of a b] sextets(5) [of b c] sextets(6) [of c] "4.IH"]
    by (simp only: EncodeToString.simps octets_a octets_c octets_d char_of_byte append.simps)
qed simp

lemma encode_no_newline: "c \<in> set (EncodeToString s) \<Longrightarrow> c \<noteq> CHR 0x0D \<and> c \<noteq> CHR 0x0A"
  by (induction s rule: EncodeToString.induct) (auto simp: b64_no_newline sextets)

lemma decode_encode: "DecodeString (EncodeToString s) = Some s"
proof -
  have "filter (\<lambda>c. c \<noteq> CHR 0x0D \<and> c \<noteq> CHR 0x0A) (EncodeToString s) = EncodeToString s"
    using encode_no_newline by (simp add: filter_id_conv)
  then show ?thesis by (simp add: DecodeString_def decode_quads_encode)
qed

section \<open>Sessions\<close>

record StickyConfig =
  sc_Enabled :: bool
  sc_Name :: string
  sc_Expires :: nanos
  sc_Domain :: string
  sc_Path :: string
  sc_Secure :: bool
  sc_HttpOnly :: bool
  sc_SameSite :: string

record stickyEntry =
  se_targetURL :: string
  se_expires :: nanos

record StickySession =
  ss_config :: StickyConfig
  ss_shards :: "nat \<Rightarrow> (string \<rightharpoonup> stickyEntry)"
  ss_started :: bool
  ss_loop_count :: nat

definition DefaultStickyConfig :: StickyConfig where
  "DefaultStickyConfig = \<lparr>sc_Enabled = False, sc_Name = ''lolly_route'', sc_Expires = 3600 * second, sc_Domain = [],
     sc_Path = ''/'', sc_Secure = False, sc_HttpOnly = True, sc_SameSite = ''Lax''\<rparr>"

definition NewStickySession :: "StickyConfig \<Rightarrow> StickySession" where
  "NewStickySession config = \<lparr>ss_config = config, ss_shards = (\<lambda>_. Map.empty), ss_started = False, ss_loop_count = 0\<rparr>"

definition Sticky_Start :: "StickySession \<Rightarrow> StickySession" where
  "Sticky_Start s = (if ss_started s then s else s\<lparr>ss_started := True, ss_loop_count := ss_loop_count s + 1\<rparr>)"

text \<open>\<open>Stop\<close> closes the channel of the cleanup loop and waits for the loop to return.\<close>

definition Sticky_Stop :: "StickySession \<Rightarrow> StickySession" where
  "Sticky_Stop s = (if \<not> ss_started s then s else s\<lparr>ss_started := False, ss_loop_count := 0\<rparr>)"

definition Sticky_cleanup :: "nanos \<Rightarrow> StickySession \<Rightarrow> StickySession" where
  "Sticky_cleanup now s =
     s\<lparr>ss_shards := (\<lambda>i key. case ss_shards s i key of
        None \<Rightarrow> None
      | Some entry \<Rightarrow> (if now > se_expires entry then None else Some entry))\<rparr>"

definition sticky_getShard :: "string \<Rightarrow> nat" where
  "sticky_getShard cookieValue = unat (FNV64a cookieValue mod 256)"

definition recordSession :: "nanos \<Rightarrow> string \<Rightarrow> string \<Rightarrow> StickySession \<Rightarrow> StickySession" where
  "recordSession now cookieValue targetURL s =
     (let i = sticky_getShard cookieValue
      in s\<lparr>ss_shards := (ss_shards s)(i := (ss_shards s i)(cookieValue \<mapsto>
           \<lparr>se_targetURL = targetURL, se_expires = now + sc_Expires (ss_config s)\<rparr>))\<rparr>)"

definition deleteSession :: "string \<Rightarrow> StickySession \<Rightarrow> StickySession" where
  "deleteSession cookieValue s =
     (let i = sticky_getShard cookieValue
      in s\<lparr>ss_shards := (ss_shards s)(i := (ss_shards s i)(cookieValue := None))\<rparr>)"

section \<open>The cookie\<close>

definition encodeStickyCookie :: "string \<Rightarrow> nanos \<Rightarrow> string" where
  "encodeStickyCookie targetURL expires = EncodeToString (targetURL @ ''|'' @ show_int (expires div second))"

definition decodeStickyCookie :: "string \<Rightarrow> (string \<times> nanos) option" where
  "decodeStickyCookie value =
     (case DecodeString value of
        None \<Rightarrow> None
      | Some raw \<Rightarrow>
          let parts = Split raw (CHR ''|'')
          in if length parts \<noteq> 2 then None
             else case Atoi (parts ! 1) of None \<Rightarrow> None | Some ts \<Rightarrow> Some (parts ! 0, ts * second))"

datatype same_site = SameSiteStrict | SameSiteNone | SameSiteLax

record cookie =
  ck_Key :: string
  ck_Value :: string
  ck_Expire :: "nanos option"
  ck_Domain :: string
  ck_Path :: string
  ck_Secure :: bool
  ck_HTTPOnly :: bool
  ck_SameSite :: same_site

definition setCookie :: "nanos \<Rightarrow> StickyConfig \<Rightarrow> string \<Rightarrow> cookie" where
  "setCookie now config targetURL =
     (let expires = now + sc_Expires config
      in \<lparr>ck_Key = sc_Name config, ck_Value = encodeStickyCookie targetURL expires,
          ck_Expire = (if sc_Expires config > 0 then Some expires else None), ck_Domain = sc_Domain config,
          ck_Path = (if sc_Path config \<noteq> [] then sc_Path config else ''/''), ck_Secure = sc_Secure config,
          ck_HTTPOnly = sc_HttpOnly config,
          ck_SameSite = (if sc_SameSite config = ''Strict'' then SameSiteStrict
            else if sc_SameSite config = ''None'' then SameSiteNone else SameSiteLax)\<rparr>)"

section \<open>Selection\<close>

fun pinned_target :: "nanos \<Rightarrow> heap \<Rightarrow> string \<Rightarrow> ptr list \<Rightarrow> ptr option \<times> heap" where
  "pinned_target now h url [] = (None, h)"
| "pinned_target now h url (p # ps) =
     (if URL (h p) = url then
        (case IsAvailable now (h p) of
           (ok, t) \<Rightarrow> (if ok then (Some p, h(p := t)) else pinned_target now (h(p := t)) url ps))
      else pinned_target now h url ps)"

text \<open>The result is the target, the session table, the fallback's state, the shared state and the cookie the
  response carries.\<close>

definition Sticky_Select ::
  "('b \<Rightarrow> nanos \<Rightarrow> lbstate \<Rightarrow> ptr list \<Rightarrow> ptr option \<times> 'b \<times> lbstate) \<Rightarrow> StickySession \<Rightarrow> 'b \<Rightarrow> nanos \<Rightarrow> string
    \<Rightarrow> lbstate \<Rightarrow> ptr list \<Rightarrow> ptr option \<times> StickySession \<times> 'b \<times> lbstate \<times> cookie option" where
  "Sticky_Select fallback s b now cookieValue st targets =
     (let fall = (\<lambda>s st.
            case fallback b now st targets of
              (None, b', st') \<Rightarrow> (None, s, b', st', None)
            | (Some p, b', st') \<Rightarrow>
                let ck = setCookie now (ss_config s) (URL (heap st' p))
                in (Some p, recordSession now (ck_Value ck) (URL (heap st' p)) s, b', st', Some ck))
      in if \<not> sc_Enabled (ss_config s) then
           (case fallback b now st targets of (p, b', st') \<Rightarrow> (p, s, b', st', None))
         else if cookieValue = [] then fall s st
         else case decodeStickyCookie cookieValue of
                None \<Rightarrow> fall s st
              | Some (url, expires) \<Rightarrow>
                  if url \<noteq> [] \<and> expires > now then
                    (case pinned_target now (heap st) url targets of
                       (Some p, h) \<Rightarrow> (Some p, s, b, st\<lparr>heap := h\<rparr>, None)
                     | (None, h) \<Rightarrow> fall (deleteSession cookieValue s) (st\<lparr>heap := h\<rparr>))
                  else fall s st)"

section \<open>What a session guarantees\<close>

lemma decode_sticky:
  assumes "CHR ''|'' \<notin> set url" and "in_int64 (expires div second)"
  shows "decodeStickyCookie (encodeStickyCookie url expires) = Some (url, expires div second * second)"
proof -
  let ?n = "show_int (expires div second)"
  have "CHR ''|'' \<notin> set ?n"
    using show_nat_chars [of "CHR ''|''"] by (auto simp: show_int_def is_digit_def)
  then have "Split (url @ ''|'' @ ?n) (CHR ''|'') = [url, ?n]"
    using Split_append_sep [OF assms(1), of ?n] Split_no_sep by simp
  then show ?thesis
    using Atoi_show_int [OF assms(2)] by (simp add: decodeStickyCookie_def encodeStickyCookie_def decode_encode)
qed

text \<open>A sticky cookie decodes to the URL it was made for and the expiry it was made with, to the
  second, unless the URL contains the separator.\<close>

theorem sticky_cookie_roundtrip:
  assumes "CHR ''|'' \<notin> set url" and "in_int64 (expires div second)"
  shows "decodeStickyCookie (encodeStickyCookie url expires) = Some (url, expires div second * second)"
  by (rule decode_sticky [OF assms])

theorem sticky_cookie_roundtrip_witness:
  "decodeStickyCookie (encodeStickyCookie ''http://a:80'' 1700000000999999999) = Some (''http://a:80'', 1700000000000000000)"
proof -
  have h: "CHR ''|'' \<notin> set ''http://a:80''" "in_int64 (1700000000999999999 div second)" by (simp_all add: in_int64_def)
  show ?thesis using sticky_cookie_roundtrip [OF h] by simp
qed

lemma pinned_first_available:
  "p \<in> set ts \<Longrightarrow> URL (h p) = url \<Longrightarrow> avail now (h p) \<Longrightarrow>
    \<exists>q h'. pinned_target now h url ts = (Some q, h') \<and> q \<in> set ts \<and> URL (h' q) = url \<and> avail now (h q)"
proof (induction ts arbitrary: h)
  case (Cons r rs)
  show ?case
  proof (cases "URL (h r) = url \<and> avail now (h r)")
    case True
    then have "pinned_target now h url (r # rs) = (Some r, h(r := snd (IsAvailable now (h r))))"
      by (simp add: case_prod_beta)
    then show ?thesis using True by simp
  next
    case False
    then have ne: "p \<in> set rs" using Cons.prems by auto
    show ?thesis
    proof (cases "URL (h r) = url")
      case True
      let ?h = "h(r := snd (IsAvailable now (h r)))"
      have "avail now (?h p)" "URL (?h p) = url" using Cons.prems False True by (cases "p = r"; simp)+
      then obtain q h' where "pinned_target now ?h url rs = (Some q, h')" "q \<in> set rs" "URL (h' q) = url" "avail now (?h q)"
        using Cons.IH [OF ne] by blast
      moreover from this(4) have "avail now (h q)" by (cases "q = r") simp_all
      moreover have "pinned_target now h url (r # rs) = pinned_target now ?h url rs"
        using True False by (simp add: case_prod_beta)
      ultimately show ?thesis by auto
    next
      case False2: False
      then show ?thesis using Cons.IH [of h, OF ne Cons.prems(2,3)] by auto
    qed
  qed
qed simp


lemma recordSession_config [simp]: "ss_config (recordSession now c u s) = ss_config s"
  by (simp add: recordSession_def Let_def)

lemma deleteSession_config [simp]: "ss_config (deleteSession c s) = ss_config s"
  by (simp add: deleteSession_def Let_def)

text \<open>A request that presents a live cookie of an available target is pinned: nothing but an expired failure
  record changes, the fallback is not consulted and no new cookie is set.\<close>

lemma Sticky_Select_pinned:
  assumes "sc_Enabled (ss_config s)" and "v \<noteq> []" and "decodeStickyCookie v = Some (url, expires)"
    and "url \<noteq> []" and "now < expires"
    and "p \<in> set ts" and "URL (heap st p) = url" and "avail now (heap st p)"
  shows "\<exists>q h. Sticky_Select fb s b now v st ts = (Some q, s, b, st\<lparr>heap := h\<rparr>, None) \<and> q \<in> set ts \<and> URL (h q) = url
    \<and> avail now (heap st q)"
proof -
  obtain q h where "pinned_target now (heap st) url ts = (Some q, h)" "q \<in> set ts" "URL (h q) = url" "avail now (heap st q)"
    using pinned_first_available [of p ts "heap st" url now, OF assms(6-8)] by blast
  moreover from this have "Sticky_Select fb s b now v st ts = (Some q, s, b, st\<lparr>heap := h\<rparr>, None)"
    using assms(1-5) by (simp add: Sticky_Select_def)
  ultimately show ?thesis by blast
qed

lemma Sticky_Select_sets_cookie:
  assumes "Sticky_Select fb s b now v st ts = (Some p, s', b', st', Some ck)"
  shows "ss_config s' = ss_config s \<and> sc_Enabled (ss_config s)
    \<and> ck = setCookie now (ss_config s) (URL (heap st' p))
    \<and> ss_shards s' (sticky_getShard (ck_Value ck)) (ck_Value ck)
        = Some \<lparr>se_targetURL = URL (heap st' p), se_expires = now + sc_Expires (ss_config s)\<rparr>"
  using assms unfolding Sticky_Select_def
  by (auto simp: Let_def recordSession_def deleteSession_def split: if_splits prod.splits option.splits)

lemma encode_nonempty: "cs \<noteq> [] \<Longrightarrow> EncodeToString cs \<noteq> []"
  by (cases cs rule: EncodeToString.cases) auto

text \<open>C24. Session affinity: if a request was answered with a sticky cookie for a target, then a later request
  that presents this cookie before its expiry (to the second) goes to an available target of the same URL, as long as one of
  the listed targets with that URL is available, whatever the fallback algorithm would choose; it takes no step
  of the fallback, changes no session and sets no new cookie.\<close>

theorem sticky_affinity:
  assumes first: "Sticky_Select fb s b now v st ts = (Some p, s1, b1, st1, Some ck)"
    and url: "URL (heap st1 p) = url" "url \<noteq> []" "CHR ''|'' \<notin> set url"
    and range: "in_int64 ((now + sc_Expires (ss_config s)) div second)"
    and live: "now' < (now + sc_Expires (ss_config s)) div second * second"
    and cfg: "ss_config s2 = ss_config s1"
    and there: "r \<in> set ts'" "URL (heap st2 r) = url" "avail now' (heap st2 r)"
  shows "\<exists>q h. Sticky_Select fb s2 b2 now' (ck_Value ck) st2 ts' = (Some q, s2, b2, st2\<lparr>heap := h\<rparr>, None)
    \<and> q \<in> set ts' \<and> URL (h q) = url \<and> fst (IsAvailable now' (heap st2 q))"
proof -
  let ?e = "now + sc_Expires (ss_config s)"
  have c: "ss_config s1 = ss_config s" "sc_Enabled (ss_config s)" "ck_Value ck = encodeStickyCookie url ?e"
    using Sticky_Select_sets_cookie [OF first] url(1) by (simp_all add: setCookie_def Let_def)
  have "ck_Value ck \<noteq> []" using c(3) by (simp add: encodeStickyCookie_def encode_nonempty)
  moreover have "decodeStickyCookie (ck_Value ck) = Some (url, ?e div second * second)"
    using decode_sticky [OF url(3) range] c(3) by simp
  ultimately show ?thesis
    using Sticky_Select_pinned [of s2 "ck_Value ck" url "?e div second * second" now' r ts' st2 fb b2]
      c url(2) live cfg there by simp
qed

definition sticky_example :: StickySession where
  "sticky_example = NewStickySession (DefaultStickyConfig\<lparr>sc_Enabled := True\<rparr>)"

lemma sticky_example_fields [simp]:
  "sc_Enabled (ss_config sticky_example)" "sc_Expires (ss_config sticky_example) = 3600 * second"
  by (simp_all add: sticky_example_def NewStickySession_def DefaultStickyConfig_def)

lemma example_avail [simp]: "avail now (example_heap p)"
  by (simp add: example_heap_def)

lemma example_probe [simp]: "probe now (example_heap p) = example_heap p"
  by (simp add: example_heap_def mk_target_def NewTargetFromConfig_def initHostname_def IsAvailable_def Let_def)

lemma rr_example:
  obtains r st where "RoundRobin_Select NewRoundRobin now example_state [10, 20, 30] = (Some 10, r, st)"
    and "\<And>p. URL (heap st p) = URL (example_heap p)" and "\<And>now' p. avail now' (heap st p)"
proof -
  obtain r st where s: "RoundRobin_Select NewRoundRobin now example_state [10, 20, 30] = (Some 10, r, st)"
    by (simp add: RoundRobin_Select_def split_beta Let_def filter_specs rr_pick_def NewRoundRobin_def)
  have "heap st = probe_heap now [10, 20, 30] example_heap \<or> heap st = example_heap"
    using rr.select_heap [OF pool_clean_example, of NewRoundRobin now "[10, 20, 30]"] s by simp
  then have "URL (heap st p) = URL (example_heap p)" "avail now' (heap st p)" for now' p
    by (auto simp: probe_heap_def)
  then show ?thesis using that s by blast
qed

theorem sticky_affinity_witness:
  "\<exists>s1 b1 st1 ck q h. Sticky_Select RoundRobin_Select sticky_example NewRoundRobin 0 [] example_state [10, 20, 30] = (Some 10, s1, b1, st1, Some ck)
    \<and> Sticky_Select RoundRobin_Select s1 b1 (3599 * second) (ck_Value ck) st1 [20, 10] = (Some q, s1, b1, st1\<lparr>heap := h\<rparr>, None)
    \<and> URL (h q) = ''http://a''"
proof -
  obtain r st where rr: "RoundRobin_Select NewRoundRobin 0 example_state [10, 20, 30] = (Some 10, r, st)"
    and st: "\<And>p. URL (heap st p) = URL (example_heap p)" "\<And>now' p. avail now' (heap st p)"
    using rr_example [of 0] by blast
  obtain s1 ck where first: "Sticky_Select RoundRobin_Select sticky_example NewRoundRobin 0 [] example_state [10, 20, 30] = (Some 10, s1, r, st, Some ck)"
    using rr by (simp add: Sticky_Select_def Let_def)
  have u: "URL (heap st 10) = ''http://a''" "(''http://a'' :: string) \<noteq> []" "CHR ''|'' \<notin> set ''http://a''"
    by (simp_all add: st example_heap_def)
  have n: "in_int64 ((0 + sc_Expires (ss_config sticky_example)) div second)"
    "3599 * second < (0 + sc_Expires (ss_config sticky_example)) div second * second"
    by (simp_all add: in_int64_def)
  have m: "10 \<in> set [20, 10 :: nat]" by simp
  show ?thesis
    using sticky_affinity [OF first u n refl m u(1) st(2), of r] first by blast
qed

end
