(* ===== verification/Radix.thy ===== *)
theory Radix
  imports Prelude
begin

text \<open>
  \<^verbatim>\<open>internal/matcher/radix.go\<close> and the result type of \<^verbatim>\<open>matcher.go\<close>: the prefix tree
  behind the \<open>^~\<close> and the plain prefix locations. Nodes are values of a datatype (the Go
  tree has no sharing); a handler is an abstract value, \<open>None\<close> is Go's nil.
  Insertion returns the changed node instead of mutating it, and a search returns the
  best node found so far.
\<close>

section \<open>The tree\<close>

datatype 'h RadixNode = RadixNode
  (rn_prefix: string) (rn_handler: "'h option") (rn_priority: int) (rn_locationType: string)
  (rn_internal: bool) (rn_isLeaf: bool) (rn_children: "'h RadixNode list")

record 'h RadixTree =
  root :: "'h RadixNode"
  rt_initialized :: bool

datatype radix_error = AlreadyInitialized | PathExists

record 'h MatchResult =
  mr_Captures :: "(string \<rightharpoonup> string) option"
  mr_Handler :: "'h option"
  mr_Internal :: bool
  mr_LocationType :: string
  mr_Path :: string
  mr_Priority :: int

definition NewRadixTree :: "'h RadixTree" where
  "NewRadixTree = \<lparr>root = RadixNode [] None 0 [] False False [], rt_initialized = False\<rparr>"

fun common_len :: "string \<Rightarrow> string \<Rightarrow> nat" where
  "common_len (a # as) (b # bs) = (if a = b then Suc (common_len as bs) else 0)"
| "common_len _ _ = 0"

text \<open>What an insertion stores: handler, priority, location type and the internal flag.\<close>

type_synonym 'h entry = "'h option \<times> int \<times> string \<times> bool"

definition leaf :: "string \<Rightarrow> 'h entry \<Rightarrow> 'h RadixNode list \<Rightarrow> 'h RadixNode" where
  "leaf p e cs = (case e of (hdl, prio, lt, intl) \<Rightarrow> RadixNode p hdl prio lt intl True cs)"

fun insertNode :: "'h RadixNode \<Rightarrow> string \<Rightarrow> 'h entry \<Rightarrow> radix_error + 'h RadixNode"
  and insertChildren :: "'h RadixNode list \<Rightarrow> string \<Rightarrow> 'h entry \<Rightarrow> (radix_error + 'h RadixNode list) option"
where
  "insertNode (RadixNode pfx hdl prio lt intl lf cs) path e =
     (if pfx = [] \<and> length cs = 0 \<and> hdl = None
      then if path = [] then Inr (leaf pfx e cs)
           else Inr (RadixNode pfx hdl prio lt intl lf (cs @ [leaf path e []]))
      else
        let commonLen = common_len pfx path
        in if commonLen = length pfx
           then
             let remaining = drop commonLen path
             in if remaining = []
                then if hdl \<noteq> None then Inl PathExists else Inr (leaf pfx e cs)
                else
                  (case insertChildren cs remaining e of
                     Some (Inl err) \<Rightarrow> Inl err
                   | Some (Inr cs') \<Rightarrow> Inr (RadixNode pfx hdl prio lt intl lf cs')
                   | None \<Rightarrow> Inr (RadixNode pfx hdl prio lt intl lf (cs @ [leaf remaining e []])))
           else
             Inr (RadixNode (take commonLen pfx) None 0 [] False False
               [RadixNode (drop commonLen pfx) hdl prio lt intl lf cs,
                leaf (drop commonLen path) e []]))"
| "insertChildren [] remaining e = None"
| "insertChildren (c # cs) remaining e =
     (if HasPrefix remaining (rn_prefix c)
      then Some (case insertNode c remaining e of Inl err \<Rightarrow> Inl err | Inr c' \<Rightarrow> Inr (c' # cs))
      else map_option (map_sum id (\<lambda>cs'. c # cs')) (insertChildren cs remaining e))"

definition Radix_Insert ::
  "'h RadixTree \<Rightarrow> string \<Rightarrow> 'h option \<Rightarrow> int \<Rightarrow> string \<Rightarrow> bool \<Rightarrow> radix_error + 'h RadixTree" where
  "Radix_Insert t path handler priority locationType internal =
     (if rt_initialized t then Inl AlreadyInitialized
      else (case insertNode (root t) path (handler, priority, locationType, internal) of
              Inl err \<Rightarrow> Inl err
            | Inr n \<Rightarrow> Inr (t\<lparr>root := n\<rparr>)))"

definition Radix_MarkInitialized :: "'h RadixTree \<Rightarrow> 'h RadixTree" where
  "Radix_MarkInitialized t = t\<lparr>rt_initialized := True\<rparr>"

text \<open>The comparison both update sites of the search make: a smaller priority wins, then the
  longer node prefix.\<close>

definition better :: "'h RadixNode \<Rightarrow> 'h RadixNode option \<Rightarrow> bool" where
  "better n best =
     (case best of
        None \<Rightarrow> True
      | Some b \<Rightarrow> if rn_priority n < rn_priority b then True
                  else rn_priority n = rn_priority b \<and> length (rn_prefix n) > length (rn_prefix b))"

fun searchLongest :: "'h RadixNode \<Rightarrow> string \<Rightarrow> 'h RadixNode option \<Rightarrow> 'h RadixNode option"
  and searchChildren :: "'h RadixNode list \<Rightarrow> string \<Rightarrow> 'h RadixNode option \<Rightarrow> 'h RadixNode option"
where
  "searchLongest (RadixNode pfx hdl prio lt intl lf cs) path bestNode =
     (if length path = 0 then bestNode
      else if \<not> HasPrefix path pfx then bestNode
      else
        let remaining = drop (length pfx) path;
            n = RadixNode pfx hdl prio lt intl lf cs;
            bestNode = (if hdl \<noteq> None \<and> better n bestNode then Some n else bestNode)
        in searchChildren cs remaining bestNode)"
| "searchChildren [] remaining bestNode = bestNode"
| "searchChildren (c # cs) remaining bestNode =
     (let result = searchLongest c remaining bestNode;
          bestNode =
            (case result of
               None \<Rightarrow> bestNode
             | Some r \<Rightarrow> if result \<noteq> bestNode \<and> better r bestNode then result else bestNode)
      in searchChildren cs remaining bestNode)"

definition FindLongestPrefix :: "'h RadixTree \<Rightarrow> string \<Rightarrow> 'h MatchResult option" where
  "FindLongestPrefix t path =
     (case searchLongest (root t) path None of
        None \<Rightarrow> None
      | Some n \<Rightarrow> Some \<lparr>mr_Captures = None, mr_Handler = rn_handler n, mr_Internal = rn_internal n,
          mr_LocationType = rn_locationType n, mr_Path = rn_prefix n, mr_Priority = rn_priority n\<rparr>)"

section \<open>What the search computes\<close>

text \<open>The nodes with a handler that the search reaches, with the full path of each, in
  the order of the traversal.\<close>

fun visited :: "string \<Rightarrow> 'h RadixNode \<Rightarrow> string \<Rightarrow> (string \<times> 'h RadixNode) list" where
  "visited acc (RadixNode pfx hdl prio lt intl lf cs) path =
     (if path = [] \<or> \<not> HasPrefix path pfx then []
      else (if hdl \<noteq> None then [(acc @ pfx, RadixNode pfx hdl prio lt intl lf cs)] else [])
           @ concat (map (\<lambda>c. visited (acc @ pfx) c (drop (length pfx) path)) cs))"

definition pick_better :: "'h RadixNode option \<Rightarrow> 'h RadixNode \<Rightarrow> 'h RadixNode option" where
  "pick_better best n = (if better n best then Some n else best)"

lemma better_trans: "better a (Some b) \<Longrightarrow> better b best \<Longrightarrow> better a best"
  by (auto simp: better_def split: option.splits if_splits)

lemma foldl_pick_better:
  "foldl pick_better best ns = best \<or> (\<exists>n \<in> set ns. foldl pick_better best ns = Some n \<and> better n best)"
proof (induction ns arbitrary: best)
  case (Cons n ns)
  show ?case
  proof (cases "better n best")
    case True
    then show ?thesis using Cons.IH [of "Some n"] better_trans
      by (fastforce simp: pick_better_def)
  next
    case False
    then show ?thesis using Cons.IH [of best] by (auto simp: pick_better_def)
  qed
qed simp

lemma search_child_step:
  "(case foldl pick_better best ns of
      None \<Rightarrow> best
    | Some n \<Rightarrow> if foldl pick_better best ns \<noteq> best \<and> better n best
        then foldl pick_better best ns else best) = foldl pick_better best ns"
  using foldl_pick_better [of best ns] by (auto split: option.splits)

lemma searchLongest_visited:
  "searchLongest n path best = foldl pick_better best (map snd (visited acc n path))"
  "searchChildren cs path best =
     foldl pick_better best (map snd (concat (map (\<lambda>c. visited acc c path) cs)))"
proof (induction n path best and cs path best arbitrary: acc and acc
    rule: searchLongest_searchChildren.induct)
  case (1 pfx hdl prio lt intl lf cs path best)
  show ?case
  proof (cases "path = [] \<or> \<not> HasPrefix path pfx")
    case False
    then have "length path \<noteq> 0" "\<not> \<not> HasPrefix path pfx" by simp_all
    from "1.IH" [OF this refl refl refl, of "acc @ pfx"] False show ?thesis
      by (auto simp: Let_def pick_better_def simp del: map_concat)
  qed auto
next
  case (3 c cs path best)
  let ?r = "searchLongest c path best"
  have r: "?r = foldl pick_better best (map snd (visited acc c path))" by (rule "3.IH"(1))
  have step: "(case ?r of None \<Rightarrow> best | Some n \<Rightarrow> if ?r \<noteq> best \<and> better n best then ?r else best) = ?r"
    using search_child_step [of best "map snd (visited acc c path)"] by (simp only: r)
  have "searchChildren cs path ?r
      = foldl pick_better ?r (map snd (concat (map (\<lambda>c. visited acc c path) cs)))"
    using "3.IH"(2) [OF refl refl, of acc] by (simp only: step)
  then show ?case by (simp add: Let_def r search_child_step del: searchLongest.simps)
qed simp

section \<open>The stored locations\<close>

text \<open>The abstraction: the full paths that hold a handler, with the stored entry.\<close>

definition node_entry :: "'h RadixNode \<Rightarrow> 'h entry" where
  "node_entry n = (rn_handler n, rn_priority n, rn_locationType n, rn_internal n)"

fun stored :: "'h RadixNode \<Rightarrow> (string \<times> 'h entry) list" where
  "stored (RadixNode pfx hdl prio lt intl lf cs) =
     (if hdl \<noteq> None then [(pfx, hdl, prio, lt, intl)] else [])
     @ map (\<lambda>(q, e). (pfx @ q, e)) (concat (map stored cs))"

text \<open>Well-formed trees: below the root every segment is non-empty and every node has a
  handler or children, and the children are searched in an order that routes each stored
  path to the child that holds it.\<close>

fun routed :: "'h RadixNode list \<Rightarrow> bool" where
  "routed [] = True"
| "routed (c # cs) =
     ((\<forall>d \<in> set cs. \<forall>(q, e) \<in> set (stored d). \<not> HasPrefix q (rn_prefix c)) \<and> routed cs)"

fun wf_node :: "'h RadixNode \<Rightarrow> bool" where
  "wf_node (RadixNode pfx hdl prio lt intl lf cs) =
     ((\<forall>c \<in> set cs. rn_prefix c \<noteq> [] \<and> wf_node c) \<and> routed cs)"

lemma stored_prefix: "(q, e) \<in> set (stored n) \<Longrightarrow> HasPrefix q (rn_prefix n)"
  by (cases n) (auto split: if_splits)

lemma common_len_prefix: "common_len p s = length p \<longleftrightarrow> HasPrefix s p"
  by (induction p s rule: common_len.induct) (auto simp: HasPrefix_def)

lemma leaf_sel [simp]:
  "rn_prefix (leaf p e cs) = p" "rn_children (leaf p e cs) = cs"
  by (cases e; simp add: leaf_def)+

lemma wf_leaf [simp]: "wf_node (leaf p e cs) \<longleftrightarrow> (\<forall>c \<in> set cs. rn_prefix c \<noteq> [] \<and> wf_node c) \<and> routed cs"
  by (cases e) (simp add: leaf_def)

text \<open>An insertion on the route of a path never splits a node: the child the loop picks is
  one whose whole prefix matches.\<close>

lemma insertNode_prefix:
  "insertNode n path e = Inr n' \<Longrightarrow> HasPrefix path (rn_prefix n) \<Longrightarrow> rn_prefix n' = rn_prefix n"
  by (cases n) (auto simp: Let_def common_len_prefix split: if_splits option.splits sum.splits)

lemma routed_append: "routed (cs @ [d]) \<longleftrightarrow>
    routed cs \<and> (\<forall>c \<in> set cs. \<forall>(q, e) \<in> set (stored d). \<not> HasPrefix q (rn_prefix c))"
  by (induction cs) auto

lemma insertChildren_None: "insertChildren cs r e = None \<longleftrightarrow> (\<forall>c \<in> set cs. \<not> HasPrefix r (rn_prefix c))"
  by (induction cs) auto

definition stored_all :: "'h RadixNode list \<Rightarrow> (string \<times> 'h entry) set" where
  "stored_all cs = (\<Union>c \<in> set cs. set (stored c))"

lemma stored_all_simps [simp]:
  "stored_all [] = {}" "stored_all (c # cs) = set (stored c) \<union> stored_all cs"
  "stored_all (cs @ ds) = stored_all cs \<union> stored_all ds"
  by (simp_all add: stored_all_def)

lemma set_stored:
  "set (stored (RadixNode pfx hdl prio lt intl lf cs)) =
     (if hdl \<noteq> None then {(pfx, hdl, prio, lt, intl)} else {})
     \<union> (\<lambda>(q, e). (pfx @ q, e)) ` stored_all cs"
  by (auto simp: stored_all_def)

declare stored.simps [simp del]

lemma stored_leaf: "fst e \<noteq> None \<Longrightarrow>
    set (stored (leaf p e cs)) = insert (p, e) ((\<lambda>(q, e). (p @ q, e)) ` stored_all cs)"
  by (cases e) (auto simp: leaf_def set_stored)

text \<open>Insertion adds exactly the new path, and keeps the tree well-formed.\<close>

lemma insert_adds:
  fixes e :: "'h entry"
  assumes "fst e \<noteq> None"
  shows "insertNode n path e = Inr n' \<Longrightarrow> HasPrefix path (rn_prefix n) \<Longrightarrow> wf_node n \<Longrightarrow>
      set (stored n') = insert (path, e) (set (stored n)) \<and> wf_node n'"
    and "insertChildren cs r e = Some (Inr cs') \<Longrightarrow> (\<forall>c \<in> set cs. rn_prefix c \<noteq> [] \<and> wf_node c) \<Longrightarrow>
      routed cs \<Longrightarrow> stored_all cs' = insert (r, e) (stored_all cs)
        \<and> (\<forall>c \<in> set cs'. rn_prefix c \<noteq> [] \<and> wf_node c) \<and> routed cs'
        \<and> map rn_prefix cs' = map rn_prefix cs"
  using assms
proof (induction n path e and cs r e arbitrary: n' and cs' rule: insertNode_insertChildren.induct)
  case (1 pfx hdl prio lt intl lf cs path e)
  have st: "set (stored (leaf r e [])) = {(r, e)}" for r
    using "1.prems"(4) by (simp add: stored_leaf)
  show ?case
  proof (cases "pfx = [] \<and> length cs = 0 \<and> hdl = None")
    case True
    then show ?thesis using "1.prems"
      by (cases "path = []") (auto simp: set_stored stored_leaf st)
  next
    case False
    obtain r where path: "path = pfx @ r" using "1.prems"(2) HasPrefix_split by (metis RadixNode.sel(1))
    have cl: "common_len pfx path = length pfx" using "1.prems"(2) by (simp add: common_len_prefix)
    show ?thesis
    proof (cases "r = []")
      case True
      then show ?thesis using "1.prems" False cl
        by (auto simp: Let_def path set_stored stored_leaf split: if_splits)
    next
      case r: False
      show ?thesis
      proof (cases "insertChildren cs r e")
        case None
        then have n': "n' = RadixNode pfx hdl prio lt intl lf (cs @ [leaf r e []])"
          using "1.prems"(1) False cl r by (auto simp: Let_def path)
        have "\<forall>c \<in> set cs. \<not> HasPrefix r (rn_prefix c)" using None by (simp add: insertChildren_None)
        then show ?thesis using "1.prems"(3) r by (simp add: n' path set_stored st routed_append)
      next
        case (Some x)
        then obtain ds where x: "x = Inr ds" and n': "n' = RadixNode pfx hdl prio lt intl lf ds"
          using "1.prems"(1) False cl r by (auto simp: Let_def path split: sum.splits)
        have "drop (common_len pfx path) path = r" using cl by (simp add: path)
        then have "stored_all ds = insert (r, e) (stored_all cs)
            \<and> (\<forall>c \<in> set ds. rn_prefix c \<noteq> [] \<and> wf_node c) \<and> routed ds"
          using "1.IH" [OF False refl cl refl] Some x r "1.prems"(3,4) by simp
        then show ?thesis by (auto simp: n' set_stored path)
      qed
    qed
  qed
next
  case (3 c cs r e)
  show ?case
  proof (cases "HasPrefix r (rn_prefix c)")
    case True
    then obtain c' where c': "insertNode c r e = Inr c'" "cs' = c' # cs"
      using "3.prems"(1) by (auto split: sum.splits)
    have IH: "set (stored c') = insert (r, e) (set (stored c)) \<and> wf_node c'"
      using "3.IH"(1) [OF True c'(1) True] "3.prems" by simp
    have "rn_prefix c' = rn_prefix c" using insertNode_prefix [OF c'(1) True] .
    then show ?thesis using IH "3.prems"(2,3) c'(2) by auto
  next
    case False
    then obtain ds where ds: "insertChildren cs r e = Some (Inr ds)" "cs' = c # ds"
      using "3.prems"(1) by (auto simp: map_sum.simps split: sum.splits)
        (metis (no_types, lifting) map_sum_sel id_apply old.sum.exhaust map_sum.simps sum.inject(2) sum.distinct(1))
    have IH: "stored_all ds = insert (r, e) (stored_all cs)
        \<and> (\<forall>c \<in> set ds. rn_prefix c \<noteq> [] \<and> wf_node c) \<and> routed ds \<and> map rn_prefix ds = map rn_prefix cs"
      using "3.IH"(2) [OF False ds(1)] "3.prems"(2-4) by simp
    then have "\<forall>d \<in> set ds. \<forall>(q, e') \<in> set (stored d). \<not> HasPrefix q (rn_prefix c)"
      using "3.prems"(3) False by (fastforce simp: stored_all_def)
    then show ?thesis using IH "3.prems"(2) ds(2) by auto
  qed
qed simp

text \<open>Insertion fails exactly when the path is already there.\<close>

lemma HasPrefix_Nil_iff [simp]: "HasPrefix [] p \<longleftrightarrow> p = []"
  by (auto simp: HasPrefix_def)

lemma stored_children_nonempty:
  "\<forall>c \<in> set cs. rn_prefix c \<noteq> [] \<Longrightarrow> (q, e) \<in> stored_all cs \<Longrightarrow> q \<noteq> []"
  using stored_prefix by (fastforce simp: stored_all_def)

lemma fst_stored:
  assumes "\<forall>c \<in> set cs. rn_prefix c \<noteq> []"
  shows "pfx @ r \<in> fst ` set (stored (RadixNode pfx hdl prio lt intl lf cs))
    \<longleftrightarrow> (if r = [] then hdl \<noteq> None else r \<in> fst ` stored_all cs)"
  using stored_children_nonempty [OF assms] by (force simp: set_stored)

lemma insert_fails:
  fixes e :: "'h entry"
  shows "wf_node n \<Longrightarrow> HasPrefix path (rn_prefix n) \<Longrightarrow>
      (if path \<in> fst ` set (stored n) then insertNode n path e = Inl PathExists
       else \<exists>n'. insertNode n path e = Inr n')"
    and "(\<forall>c \<in> set cs. rn_prefix c \<noteq> [] \<and> wf_node c) \<Longrightarrow> routed cs \<Longrightarrow>
      (if r \<in> fst ` stored_all cs then insertChildren cs r e = Some (Inl PathExists)
       else insertChildren cs r e = None \<or> (\<exists>cs'. insertChildren cs r e = Some (Inr cs')))"
proof (induction n path e and cs r e rule: insertNode_insertChildren.induct)
  case (1 pfx hdl prio lt intl lf cs path e)
  obtain r where path: "path = pfx @ r" using "1.prems"(2) HasPrefix_split by (metis RadixNode.sel(1))
  have cl: "common_len pfx path = length pfx" using "1.prems"(2) by (simp add: common_len_prefix)
  have ne: "\<forall>c \<in> set cs. rn_prefix c \<noteq> []" using "1.prems"(1) by simp
  show ?case
  proof (cases "pfx = [] \<and> length cs = 0 \<and> hdl = None")
    case True
    then show ?thesis by (auto simp: set_stored)
  next
    case False
    show ?thesis
    proof (cases "r = []")
      case True
      then show ?thesis using False cl fst_stored [OF ne, of pfx r] by (auto simp: Let_def path)
    next
      case r: False
      have dr: "drop (common_len pfx path) path = r" using cl by (simp add: path)
      have IH: "if r \<in> fst ` stored_all cs then insertChildren cs r e = Some (Inl PathExists)
          else insertChildren cs r e = None \<or> (\<exists>cs'. insertChildren cs r e = Some (Inr cs'))"
        using "1.IH" [OF False refl cl refl, unfolded dr, OF r] "1.prems"(1) by simp
      have "insertNode (RadixNode pfx hdl prio lt intl lf cs) path e =
          (case insertChildren cs r e of
             Some (Inl err) \<Rightarrow> Inl err
           | Some (Inr cs') \<Rightarrow> Inr (RadixNode pfx hdl prio lt intl lf cs')
           | None \<Rightarrow> Inr (RadixNode pfx hdl prio lt intl lf (cs @ [leaf r e []])))"
        using False cl r by (simp add: Let_def path)
      then show ?thesis using IH r fst_stored [OF ne, of pfx r] by (auto simp: path split: if_splits)
    qed
  qed
next
  case (3 c cs r e)
  show ?case
  proof (cases "HasPrefix r (rn_prefix c)")
    case True
    then have "r \<notin> fst ` stored_all cs" using "3.prems"(2) by (fastforce simp: stored_all_def)
    then show ?thesis using "3.IH"(1) [OF True] "3.prems"(1) True by (auto simp: image_Un split: if_splits)
  next
    case False
    then have "r \<notin> fst ` set (stored c)" using stored_prefix by force
    then show ?thesis using "3.IH"(2) [OF False] "3.prems" False by (auto simp: image_Un split: if_splits)
  qed
qed simp

text \<open>The nodes a search visits are the stored prefixes of the request path.\<close>

definition tag :: "string \<Rightarrow> string \<times> 'h entry \<Rightarrow> string \<times> 'h entry" where
  "tag acc x = (acc @ fst x, snd x)"

lemma visited_stored:
  "wf_node n \<Longrightarrow> path \<noteq> [] \<or> rn_prefix n \<noteq> [] \<Longrightarrow>
    (\<lambda>(q, m). (q, node_entry m)) ` set (visited acc n path)
      = tag acc ` {x \<in> set (stored n). HasPrefix path (fst x)}"
proof (induction acc n path rule: visited.induct)
  case (1 acc pfx hdl prio lt intl lf cs path)
  let ?n = "RadixNode pfx hdl prio lt intl lf cs" and ?f = "\<lambda>(q, m). (q, node_entry m)"
  show ?case
  proof (cases "path = [] \<or> \<not> HasPrefix path pfx")
    case True
    moreover from this "1.prems"(2) have "\<not> HasPrefix path pfx" by auto
    moreover have "\<not> HasPrefix path (fst x)" if "x \<in> set (stored ?n)" for x
      using that stored_prefix [of "fst x" "snd x" ?n] calculation(2)
      by (metis HasPrefix_append_iff HasPrefix_split RadixNode.sel(1) prod.collapse)
    ultimately show ?thesis by auto
  next
    case False
    let ?r = "drop (length pfx) path"
    have IH: "?f ` set (visited (acc @ pfx) c ?r) = tag (acc @ pfx) ` {x \<in> set (stored c). HasPrefix ?r (fst x)}"
      if "c \<in> set cs" for c
      using "1.IH" [OF False that] "1.prems"(1) that by simp
    have split: "set (visited acc ?n path) = (if hdl \<noteq> None then {(acc @ pfx, ?n)} else {})
        \<union> (\<Union>c \<in> set cs. set (visited (acc @ pfx) c ?r))"
      using False by auto
    have "?f ` set (visited acc ?n path) = (if hdl \<noteq> None then {(acc @ pfx, hdl, prio, lt, intl)} else {})
        \<union> (\<Union>c \<in> set cs. tag (acc @ pfx) ` {x \<in> set (stored c). HasPrefix ?r (fst x)})"
      using IH unfolding split by (simp add: image_Un image_UN node_entry_def)
    also have "(\<Union>c \<in> set cs. tag (acc @ pfx) ` {x \<in> set (stored c). HasPrefix ?r (fst x)})
        = tag acc ` {x \<in> (\<lambda>(q, e). (pfx @ q, e)) ` stored_all cs. HasPrefix path (fst x)}"
      using False
      by (force simp: stored_all_def tag_def HasPrefix_append_iff image_iff)
    also have "(if hdl \<noteq> None then {(acc @ pfx, hdl, prio, lt, intl)} else {}) =
        tag acc ` {x \<in> (if hdl \<noteq> None then {(pfx, hdl, prio, lt, intl)} else {}). HasPrefix path (fst x)}"
      using False by (auto simp: tag_def)
    finally show ?thesis by (simp only: set_stored image_Un [symmetric] Collect_disj_eq [symmetric])
        (simp add: conj_disj_distribR)
  qed
qed

section \<open>Lookup\<close>

definition result_entry :: "'h MatchResult \<Rightarrow> 'h entry" where
  "result_entry r = (mr_Handler r, mr_Priority r, mr_LocationType r, mr_Internal r)"

lemma foldl_pick_None: "foldl pick_better None ns = None \<longleftrightarrow> ns = []"
proof (cases ns)
  case (Cons n ms)
  then show ?thesis using foldl_pick_better [of "Some n" ms] by (auto simp: pick_better_def better_def)
qed simp

lemma FindLongestPrefix_visited:
  "FindLongestPrefix t path = None \<longleftrightarrow> visited [] (root t) path = []"
  "FindLongestPrefix t path = Some r \<Longrightarrow>
     \<exists>q n. (q, n) \<in> set (visited [] (root t) path) \<and> node_entry n = result_entry r \<and> mr_Path r = rn_prefix n
       \<and> foldl pick_better None (map snd (visited [] (root t) path)) = Some n"
proof -
  let ?ns = "map snd (visited [] (root t) path)"
  have s: "searchLongest (root t) path None = foldl pick_better None ?ns"
    by (rule searchLongest_visited)
  show "FindLongestPrefix t path = None \<longleftrightarrow> visited [] (root t) path = []"
    by (simp add: FindLongestPrefix_def s foldl_pick_None split: option.splits)
      (metis foldl_pick_None list.map_disc_iff option.distinct(1))
  assume f: "FindLongestPrefix t path = Some r"
  then obtain n where n: "foldl pick_better None ?ns = Some n" and e: "node_entry n = result_entry r"
    and p: "mr_Path r = rn_prefix n"
    by (auto simp: FindLongestPrefix_def s node_entry_def result_entry_def split: option.splits)
  have "n \<in> set ?ns" using foldl_pick_better [of None ?ns] n by auto
  then obtain q where "(q, n) \<in> set (visited [] (root t) path)" by auto
  with n e p show "\<exists>q n. (q, n) \<in> set (visited [] (root t) path) \<and> node_entry n = result_entry r
      \<and> mr_Path r = rn_prefix n \<and> foldl pick_better None ?ns = Some n"
    by blast
qed

definition wf_tree :: "'h RadixTree \<Rightarrow> bool" where
  "wf_tree t \<longleftrightarrow> rn_prefix (root t) = [] \<and> wf_node (root t)"

lemma wf_NewRadixTree [simp]: "wf_tree NewRadixTree"
  by (simp add: wf_tree_def NewRadixTree_def)

lemma stored_NewRadixTree [simp]: "stored (root NewRadixTree) = []"
  by (simp add: NewRadixTree_def stored.simps)

text \<open>Insertion into a location tree: a sealed tree refuses, a path that is already stored is
  reported and nothing else; otherwise exactly the new location is added and the
  tree stays well-formed.\<close>

theorem radix_insert_spec:
  assumes "wf_tree t" and "handler \<noteq> None"
  shows "if rt_initialized t then Radix_Insert t path handler prio lt intl = Inl AlreadyInitialized
    else if path \<in> fst ` set (stored (root t)) then Radix_Insert t path handler prio lt intl = Inl PathExists
    else \<exists>t'. Radix_Insert t path handler prio lt intl = Inr t' \<and> wf_tree t' \<and> \<not> rt_initialized t'
      \<and> set (stored (root t')) = insert (path, handler, prio, lt, intl) (set (stored (root t)))"
proof (cases "rt_initialized t \<or> path \<in> fst ` set (stored (root t))")
  case True
  have "HasPrefix path (rn_prefix (root t))" using assms(1) by (simp add: wf_tree_def)
  with insert_fails(1) [of "root t" path] assms(1) True show ?thesis
    by (auto simp: Radix_Insert_def wf_tree_def)
next
  case False
  let ?e = "(handler, prio, lt, intl)"
  have p: "HasPrefix path (rn_prefix (root t))" "wf_node (root t)" using assms(1) by (simp_all add: wf_tree_def)
  obtain n where n: "insertNode (root t) path ?e = Inr n"
    using insert_fails(1) [OF p(2,1), of ?e] False by auto
  have "set (stored n) = insert (path, ?e) (set (stored (root t))) \<and> wf_node n"
    using insert_adds(1) [OF _ n p] assms(2) by simp
  moreover have "rn_prefix n = []" using insertNode_prefix [OF n p(1)] assms(1) by (simp add: wf_tree_def)
  ultimately show ?thesis using False n by (auto simp: Radix_Insert_def wf_tree_def)
qed

theorem radix_insert_spec_witness:
  "\<exists>t'. Radix_Insert NewRadixTree ''/api'' (Some (1::nat)) 4 ''prefix'' False = Inr t'
     \<and> set (stored (root t')) = {(''/api'', Some 1, 4, ''prefix'', False)}"
proof -
  have h: "wf_tree (NewRadixTree :: nat RadixTree)" "Some (1::nat) \<noteq> None" by simp_all
  have "\<not> rt_initialized (NewRadixTree :: nat RadixTree)" by (simp add: NewRadixTree_def)
  then show ?thesis
    using radix_insert_spec [OF h, of "''/api''" 4 "''prefix''" False] by auto
qed

text \<open>Prefix lookup is sound and complete: it returns a stored location whose path is a
  prefix of the request path, and nothing only when there is none.\<close>

lemma FindLongestPrefix_spec:
  assumes "wf_tree t" and "path \<noteq> []"
  shows "case FindLongestPrefix t path of
      None \<Rightarrow> \<forall>x \<in> set (stored (root t)). \<not> HasPrefix path (fst x)
    | Some r \<Rightarrow> \<exists>q. (q, result_entry r) \<in> set (stored (root t)) \<and> HasPrefix path q"
proof -
  let ?V = "visited [] (root t) path"
  have v: "(\<lambda>(q, m). (q, node_entry m)) ` set ?V = tag [] ` {x \<in> set (stored (root t)). HasPrefix path (fst x)}"
    using visited_stored [of "root t" path "[]"] assms by (simp add: wf_tree_def)
  show ?thesis
  proof (cases "FindLongestPrefix t path")
    case None
    then have "{x \<in> set (stored (root t)). HasPrefix path (fst x)} = {}"
      using v by (simp add: FindLongestPrefix_visited(1))
    then have "\<forall>x \<in> set (stored (root t)). \<not> HasPrefix path (fst x)" by blast
    then show ?thesis using None by (simp only: option.case)
  next
    case (Some r)
    then obtain q n where "(q, n) \<in> set ?V" "node_entry n = result_entry r"
      using FindLongestPrefix_visited(2) by blast
    then have "(q, result_entry r) \<in> tag [] ` {x \<in> set (stored (root t)). HasPrefix path (fst x)}"
      unfolding v [symmetric] by (force simp: image_iff)
    then show ?thesis using Some by (auto simp: tag_def)
  qed
qed

section \<open>Which prefix wins\<close>

fun insert_all :: "'h RadixTree \<Rightarrow> (string \<times> 'h entry) list \<Rightarrow> radix_error + 'h RadixTree" where
  "insert_all t [] = Inr t"
| "insert_all t ((p, hdl, prio, lt, intl) # ls) =
     (case Radix_Insert t p hdl prio lt intl of Inl err \<Rightarrow> Inl err | Inr t' \<Rightarrow> insert_all t' ls)"

definition flat :: "(string \<times> 'h entry) list \<Rightarrow> 'h RadixTree" where
  "flat ls = NewRadixTree\<lparr>root := RadixNode [] None 0 [] False False (map (\<lambda>(p, e). leaf p e []) ls)\<rparr>"

lemma flat_insert:
  assumes "p \<noteq> []" and "\<forall>q \<in> fst ` set ls. \<not> HasPrefix p q"
  shows "Radix_Insert (flat ls) p hdl prio lt intl = Inr (flat (ls @ [(p, hdl, prio, lt, intl)]))"
proof -
  have none: "insertChildren (map (\<lambda>(p, e). leaf p e []) ls) p e = None" for e
    using assms(2) by (auto simp: insertChildren_None)
  show ?thesis
    using assms(1) by (auto simp: flat_def NewRadixTree_def Radix_Insert_def none Let_def)
qed

lemma insert_all_flat:
  assumes "sorted_wrt (\<lambda>p q. \<not> HasPrefix q p) (map fst (ks @ ls))" and "\<forall>x \<in> set ls. fst x \<noteq> []"
  shows "insert_all (flat ks) ls = Inr (flat (ks @ ls))"
  using assms
proof (induction ls arbitrary: ks)
  case (Cons x ls)
  obtain p hdl prio lt intl where x: "x = (p, hdl, prio, lt, intl)" by (cases x)
  have "\<forall>q \<in> fst ` set ks. \<not> HasPrefix p q"
    using Cons.prems(1) by (auto simp: x sorted_wrt_append)
  with Cons.prems Cons.IH [of "ks @ [x]"] show ?case by (simp add: x flat_insert)
qed simp

lemma visited_flat:
  "path \<noteq> [] \<Longrightarrow> \<forall>x \<in> set ls. fst (snd x) \<noteq> None \<Longrightarrow>
    visited [] (root (flat ls)) path = map (\<lambda>(p, e). (p, leaf p e [])) (filter (\<lambda>x. HasPrefix path (fst x)) ls)"
  by (simp add: flat_def) (induction ls, auto simp: leaf_def split_beta)

lemma foldl_pick_longest:
  assumes "\<forall>n \<in> set ns. rn_priority n = k" and "foldl pick_better best ns = Some b"
    and "\<forall>m. best = Some m \<longrightarrow> rn_priority m = k"
  shows "rn_priority b = k \<and> (\<forall>n \<in> set ns. length (rn_prefix n) \<le> length (rn_prefix b))
    \<and> (\<forall>m. best = Some m \<longrightarrow> length (rn_prefix m) \<le> length (rn_prefix b))"
  using assms
proof (induction ns arbitrary: best)
  case (Cons n ns)
  have "rn_priority b = k \<and> (\<forall>n \<in> set ns. length (rn_prefix n) \<le> length (rn_prefix b))
    \<and> (\<forall>m. pick_better best n = Some m \<longrightarrow> length (rn_prefix m) \<le> length (rn_prefix b))"
    using Cons.prems by (intro Cons.IH) (auto simp: pick_better_def split: if_splits)
  then show ?case using Cons.prems(1,3)
    by (auto simp: pick_better_def better_def split: option.splits if_splits)
qed auto

text \<open>C32. Longest prefix, when it holds: if the locations of one kind (one priority) are
  registered so that none comes after one of its own prefixes, a lookup returns the
  longest registered prefix of the request path.\<close>

theorem radix_longest_prefix_if_ordered:
  fixes ls :: "(string \<times> 'h entry) list"
  assumes "sorted_wrt (\<lambda>p q. \<not> HasPrefix q p) (map fst ls)"
    and "\<forall>(p, hdl, prio, lt, intl) \<in> set ls. p \<noteq> [] \<and> hdl \<noteq> None \<and> prio = k" and "path \<noteq> []"
  shows "\<exists>t. insert_all NewRadixTree ls = Inr t \<and>
    (case FindLongestPrefix t path of
       None \<Rightarrow> \<forall>x \<in> set ls. \<not> HasPrefix path (fst x)
     | Some r \<Rightarrow> (mr_Path r, result_entry r) \<in> set ls \<and> HasPrefix path (mr_Path r)
         \<and> (\<forall>x \<in> set ls. HasPrefix path (fst x) \<longrightarrow> length (fst x) \<le> length (mr_Path r)))"
proof -
  have hd: "\<forall>x \<in> set ls. fst (snd x) \<noteq> None" and ne: "\<forall>x \<in> set ls. fst x \<noteq> []"
    using assms(2) by auto
  have "flat [] = (NewRadixTree :: 'h RadixTree)" by (simp add: flat_def NewRadixTree_def)
  then have ins: "insert_all NewRadixTree ls = Inr (flat ls)"
    using insert_all_flat [of "[]" ls] assms(1) ne by simp
  let ?V = "visited [] (root (flat ls)) path"
  note V = visited_flat [OF assms(3) hd]
  show ?thesis
  proof (cases "FindLongestPrefix (flat ls) path")
    case None
    then have "\<forall>x \<in> set ls. \<not> HasPrefix path (fst x)"
      using V by (auto simp: FindLongestPrefix_visited(1) filter_empty_conv)
    then show ?thesis using None by (intro exI [of _ "flat ls"]) (simp add: ins)
  next
    case (Some r)
    then obtain q n where qn: "(q, n) \<in> set ?V" "node_entry n = result_entry r" "mr_Path r = rn_prefix n"
      "foldl pick_better None (map snd ?V) = Some n"
      using FindLongestPrefix_visited(2) by blast
    have "\<forall>m \<in> set (map snd ?V). rn_priority m = k"
      using assms(2) by (auto simp: V leaf_def)
    then have "\<forall>m \<in> set (map snd ?V). length (rn_prefix m) \<le> length (rn_prefix n)"
      using foldl_pick_longest [OF _ qn(4), of k] by simp
    then have "\<forall>x \<in> set ls. HasPrefix path (fst x) \<longrightarrow> length (fst x) \<le> length (mr_Path r)"
      using qn(3) by (auto simp: V) blast
    moreover have "(mr_Path r, result_entry r) \<in> set ls \<and> HasPrefix path (mr_Path r)"
      using qn(1-3) by (auto simp: V node_entry_def leaf_def)
    ultimately show ?thesis using Some by (intro exI [of _ "flat ls"]) (simp add: ins)
  qed
qed

theorem radix_longest_prefix_if_ordered_witness:
  "\<exists>t. insert_all NewRadixTree [(''/api/v1'', Some (1::nat), 4, ''prefix'', False), (''/api'', Some 2, 4, ''prefix'', False)] = Inr t
     \<and> map_option mr_Path (FindLongestPrefix t ''/api/v1/x'') = Some ''/api/v1''"
proof -
  let ?ls = "[(''/api/v1'', Some (1::nat), 4, ''prefix'', False), (''/api'', Some 2, 4, ''prefix'', False)]
      :: (string \<times> nat entry) list"
  have h: "sorted_wrt (\<lambda>p q. \<not> HasPrefix q p) (map fst ?ls)"
    "\<forall>(p, hdl, prio, lt, intl) \<in> set ?ls. p \<noteq> [] \<and> hdl \<noteq> None \<and> prio = 4" "''/api/v1/x'' \<noteq> []"
    by (simp_all add: HasPrefix_def)
  show ?thesis using radix_longest_prefix_if_ordered [OF h]
    by (auto simp: HasPrefix_def split: option.splits)
qed

text \<open>The converse order is shadowed: a location registered after a shorter one it extends
  is never found when what it adds is no longer than the shorter path, because the
  search compares the lengths of node segments and not of whole paths.\<close>

theorem radix_nested_prefix_shadowed:
  assumes "a \<noteq> []" and "b \<noteq> []" and "length b \<le> length a"
  shows "\<exists>t. insert_all NewRadixTree [(a, Some h1, k, l1, i1), (a @ b, Some h2, k, l2, i2)] = Inr t
    \<and> map_option mr_Handler (FindLongestPrefix t (a @ b @ c)) = Some (Some h1)"
proof -
  let ?n2 = "leaf b (Some h2, k, l2, i2) []"
  let ?n1 = "leaf a (Some h1, k, l1, i1) [?n2]"
  let ?t = "NewRadixTree\<lparr>root := RadixNode [] None 0 [] False False [?n1]\<rparr>"
  have cl: "common_len a (a @ b) = length a" by (simp add: common_len_prefix)
  have "insert_all NewRadixTree [(a, Some h1, k, l1, i1), (a @ b, Some h2, k, l2, i2)] = Inr ?t"
    using assms(1,2) cl by (simp add: NewRadixTree_def Radix_Insert_def leaf_def Let_def)
  moreover have "map_option mr_Handler (FindLongestPrefix ?t (a @ b @ c)) = Some (Some h1)"
    using assms by (simp add: FindLongestPrefix_def leaf_def Let_def better_def)
  ultimately show ?thesis by blast
qed

theorem radix_nested_prefix_shadowed_witness:
  "\<exists>t. insert_all NewRadixTree [(''/api'', Some (1::nat), 4, ''prefix'', False), (''/api'' @ ''/v1'', Some 2, 4, ''prefix'', False)] = Inr t
     \<and> map_option mr_Handler (FindLongestPrefix t (''/api'' @ ''/v1'' @ ''/users'')) = Some (Some 1)"
proof -
  have h: "''/api'' \<noteq> []" "''/v1'' \<noteq> []" "length ''/v1'' \<le> length ''/api''" by simp_all
  show ?thesis by (rule radix_nested_prefix_shadowed [OF h])
qed

end
