(* ===== verification/Location.thy ===== *)
theory Location
  imports Radix GoStrings
begin

text \<open>
  \<^verbatim>\<open>internal/matcher/location.go\<close>, \<^verbatim>\<open>exact.go\<close>, \<^verbatim>\<open>regex.go\<close> and \<^verbatim>\<open>named.go\<close>: the location
  engine. Go's \<open>regexp\<close> package is the parameter \<open>rx\<close>: \<open>re_compile\<close> says
  whether a pattern compiles, \<open>re_match\<close> whether a compiled pattern matches a path,
  \<open>re_submatch\<close> and \<open>re_names\<close> give the submatches and the group names. The
  engine's maps are functions, its two prefix trees are values of \<^typ>\<open>'h RadixTree\<close>.
\<close>

section \<open>Matchers\<close>

record 'h ExactMatcher =
  ex_handler :: "'h option"
  ex_internal :: bool
  ex_path :: string
  ex_priority :: int

definition NewExactMatcher :: "string \<Rightarrow> 'h option \<Rightarrow> int \<Rightarrow> bool \<Rightarrow> 'h ExactMatcher" where
  "NewExactMatcher path handler priority internal =
     \<lparr>ex_handler = handler, ex_internal = internal, ex_path = path, ex_priority = priority\<rparr>"

definition Exact_Result :: "'h ExactMatcher \<Rightarrow> 'h MatchResult" where
  "Exact_Result m = \<lparr>mr_Captures = None, mr_Handler = ex_handler m, mr_Internal = ex_internal m,
     mr_LocationType = ''exact'', mr_Path = ex_path m, mr_Priority = ex_priority m\<rparr>"

record 'h RegexMatcher =
  rm_pattern :: string
  rm_handler :: "'h option"
  rm_priority :: int
  rm_internal :: bool
  rm_caseInsensitive :: bool
  rm_captures :: "string \<rightharpoonup> string"

definition NewRegexMatcher ::
  "rx \<Rightarrow> string \<Rightarrow> 'h option \<Rightarrow> int \<Rightarrow> bool \<Rightarrow> bool \<Rightarrow> 'h RegexMatcher option" where
  "NewRegexMatcher x pattern handler priority caseInsensitive internal =
     (if \<not> re_compile x pattern then None
      else Some \<lparr>rm_pattern = pattern, rm_handler = handler, rm_priority = priority,
        rm_internal = internal, rm_caseInsensitive = caseInsensitive, rm_captures = Map.empty\<rparr>)"

definition Regex_Match :: "rx \<Rightarrow> 'h RegexMatcher \<Rightarrow> string \<Rightarrow> bool" where
  "Regex_Match x m path = re_match x (rm_pattern m) path"

definition Regex_Result :: "'h RegexMatcher \<Rightarrow> 'h MatchResult" where
  "Regex_Result m = \<lparr>mr_Captures = Some (rm_captures m), mr_Handler = rm_handler m, mr_Internal = rm_internal m,
     mr_LocationType = (if rm_caseInsensitive m then ''regex_caseless'' else ''regex''),
     mr_Path = rm_pattern m, mr_Priority = rm_priority m\<rparr>"

fun captures_loop :: "nat \<Rightarrow> string list \<Rightarrow> string list \<Rightarrow> (string \<rightharpoonup> string) \<Rightarrow> (string \<rightharpoonup> string)" where
  "captures_loop i [] matches result = result"
| "captures_loop i (name # names) matches result =
     captures_loop (Suc i) names matches
       (if i = 0 then result
        else if name \<noteq> [] \<and> i < length matches then result(name \<mapsto> matches ! i) else result)"

definition GetCaptures :: "rx \<Rightarrow> 'h RegexMatcher \<Rightarrow> string \<Rightarrow> (string \<rightharpoonup> string) option" where
  "GetCaptures x m path =
     (case re_submatch x (rm_pattern m) path of
        None \<Rightarrow> None
      | Some matches \<Rightarrow> Some (captures_loop 0 (re_names x (rm_pattern m)) matches Map.empty))"

record 'h NamedMatcher =
  nm_handler :: "'h option"
  nm_name :: string

section \<open>The engine\<close>

record 'h LocationEngine =
  prefixPriorityTree :: "'h RadixTree"
  prefixTree :: "'h RadixTree"
  exactMatchers :: "string \<rightharpoonup> 'h ExactMatcher"
  namedMatchers :: "string \<rightharpoonup> 'h NamedMatcher"
  registeredPaths :: "string \<rightharpoonup> string"
  regexMatchers :: "'h RegexMatcher list"
  le_initialized :: bool

datatype location_error =
    EngineInitialized
  | ConflictError string string string
  | InvalidRegex
  | TreeError radix_error

definition NewLocationEngine :: "'h LocationEngine" where
  "NewLocationEngine = \<lparr>prefixPriorityTree = NewRadixTree, prefixTree = NewRadixTree,
     exactMatchers = Map.empty, namedMatchers = Map.empty, registeredPaths = Map.empty,
     regexMatchers = [], le_initialized = False\<rparr>"

text \<open>\<open>checkConflict\<close> records the path when it is new, so the engine it returns is the one the
  caller continues with, also when a later step fails.\<close>

definition checkConflict ::
  "'h LocationEngine \<Rightarrow> string \<Rightarrow> string \<Rightarrow> location_error option \<times> 'h LocationEngine" where
  "checkConflict e path locationType =
     (case registeredPaths e path of
        Some existing \<Rightarrow> (Some (ConflictError path existing locationType), e)
      | None \<Rightarrow> (None, e\<lparr>registeredPaths := (registeredPaths e)(path \<mapsto> locationType)\<rparr>))"

definition AddExact ::
  "'h LocationEngine \<Rightarrow> string \<Rightarrow> 'h option \<Rightarrow> bool \<Rightarrow> location_error option \<times> 'h LocationEngine" where
  "AddExact e path handler internal =
     (if le_initialized e then (Some EngineInitialized, e)
      else
        case checkConflict e path ''exact'' of
          (Some err, e) \<Rightarrow> (Some err, e)
        | (None, e) \<Rightarrow>
            (None, e\<lparr>exactMatchers := (exactMatchers e)(path \<mapsto> NewExactMatcher path handler 1 internal)\<rparr>))"

definition AddPrefixPriority ::
  "'h LocationEngine \<Rightarrow> string \<Rightarrow> 'h option \<Rightarrow> bool \<Rightarrow> location_error option \<times> 'h LocationEngine" where
  "AddPrefixPriority e path handler internal =
     (if le_initialized e then (Some EngineInitialized, e)
      else
        case checkConflict e path ''prefix_priority'' of
          (Some err, e) \<Rightarrow> (Some err, e)
        | (None, e) \<Rightarrow>
            (case Radix_Insert (prefixPriorityTree e) path handler 2 ''prefix_priority'' internal of
               Inl err \<Rightarrow> (Some (TreeError err), e)
             | Inr t \<Rightarrow> (None, e\<lparr>prefixPriorityTree := t\<rparr>)))"

definition AddRegex ::
  "rx \<Rightarrow> 'h LocationEngine \<Rightarrow> string \<Rightarrow> 'h option \<Rightarrow> bool \<Rightarrow> bool \<Rightarrow> location_error option \<times> 'h LocationEngine" where
  "AddRegex x e pattern handler caseInsensitive internal =
     (if le_initialized e then (Some EngineInitialized, e)
      else
        case NewRegexMatcher x pattern handler 3 caseInsensitive internal of
          None \<Rightarrow> (Some InvalidRegex, e)
        | Some m \<Rightarrow> (None, e\<lparr>regexMatchers := regexMatchers e @ [m]\<rparr>))"

definition AddPrefix ::
  "'h LocationEngine \<Rightarrow> string \<Rightarrow> 'h option \<Rightarrow> bool \<Rightarrow> location_error option \<times> 'h LocationEngine" where
  "AddPrefix e path handler internal =
     (if le_initialized e then (Some EngineInitialized, e)
      else
        case checkConflict e path ''prefix'' of
          (Some err, e) \<Rightarrow> (Some err, e)
        | (None, e) \<Rightarrow>
            (case Radix_Insert (prefixTree e) path handler 4 ''prefix'' internal of
               Inl err \<Rightarrow> (Some (TreeError err), e)
             | Inr t \<Rightarrow> (None, e\<lparr>prefixTree := t\<rparr>)))"

definition NewNamedMatcher :: "string \<Rightarrow> 'h option \<Rightarrow> 'h NamedMatcher" where
  "NewNamedMatcher name handler = \<lparr>nm_handler = handler, nm_name = name\<rparr>"

definition AddNamed ::
  "'h LocationEngine \<Rightarrow> string \<Rightarrow> 'h option \<Rightarrow> location_error option \<times> 'h LocationEngine" where
  "AddNamed e name handler =
     (if le_initialized e then (Some EngineInitialized, e)
      else if namedMatchers e name \<noteq> None
      then (Some (ConflictError (''@'' @ name) ''named'' ''named''), e)
      else (None, e\<lparr>namedMatchers := (namedMatchers e)(name \<mapsto> NewNamedMatcher name handler)\<rparr>))"

definition Location_MarkInitialized :: "'h LocationEngine \<Rightarrow> 'h LocationEngine" where
  "Location_MarkInitialized e =
     e\<lparr>le_initialized := True, prefixPriorityTree := Radix_MarkInitialized (prefixPriorityTree e),
       prefixTree := Radix_MarkInitialized (prefixTree e)\<rparr>"

fun match_regex :: "rx \<Rightarrow> 'h RegexMatcher list \<Rightarrow> string \<Rightarrow> 'h MatchResult option" where
  "match_regex x [] path = None"
| "match_regex x (m # ms) path =
     (if Regex_Match x m path then Some ((Regex_Result m)\<lparr>mr_Captures := GetCaptures x m path\<rparr>)
      else match_regex x ms path)"

definition Match :: "rx \<Rightarrow> 'h LocationEngine \<Rightarrow> string \<Rightarrow> 'h MatchResult option" where
  "Match x e path =
     (case exactMatchers e path of
        Some m \<Rightarrow> Some (Exact_Result m)
      | None \<Rightarrow>
          let pp = FindLongestPrefix (prefixPriorityTree e) path
          in if pp \<noteq> None \<and> mr_Handler (the pp) \<noteq> None then pp
             else (case match_regex x (regexMatchers e) path of
                     Some r \<Rightarrow> Some r
                   | None \<Rightarrow> FindLongestPrefix (prefixTree e) path))"

section \<open>The engine invariant\<close>

text \<open>Every stored location has a handler, the two trees are well-formed and carry the
  priority and type of their kind, the exact map is keyed by its matchers' paths, and
  every prefix or exact path is registered exactly once.\<close>

definition tree_inv :: "int \<Rightarrow> string \<Rightarrow> bool \<Rightarrow> 'h RadixTree \<Rightarrow> bool" where
  "tree_inv k lt sealed t \<longleftrightarrow> wf_tree t \<and> rt_initialized t = sealed
     \<and> (\<forall>(q, hdl, prio, l, i) \<in> set (stored (root t)). hdl \<noteq> None \<and> prio = k \<and> l = lt)"

definition engine_inv :: "'h LocationEngine \<Rightarrow> bool" where
  "engine_inv e \<longleftrightarrow> tree_inv 2 ''prefix_priority'' (le_initialized e) (prefixPriorityTree e)
     \<and> tree_inv 4 ''prefix'' (le_initialized e) (prefixTree e)
     \<and> (\<forall>p m. exactMatchers e p = Some m \<longrightarrow> ex_path m = p \<and> ex_priority m = 1 \<and> registeredPaths e p = Some ''exact'')
     \<and> (\<forall>q \<in> fst ` set (stored (root (prefixPriorityTree e))). registeredPaths e q = Some ''prefix_priority'')
     \<and> (\<forall>q \<in> fst ` set (stored (root (prefixTree e))). registeredPaths e q = Some ''prefix'')
     \<and> (\<forall>m \<in> set (regexMatchers e). rm_priority m = 3)"

lemma engine_inv_new: "engine_inv NewLocationEngine"
  by (simp add: engine_inv_def NewLocationEngine_def tree_inv_def) (simp add: NewRadixTree_def)

lemma tree_inv_insert:
  assumes "tree_inv k lt False t" and "handler \<noteq> None" and "path \<notin> fst ` set (stored (root t))"
  shows "\<exists>t'. Radix_Insert t path handler k lt internal = Inr t' \<and> tree_inv k lt False t'
    \<and> set (stored (root t')) = insert (path, handler, k, lt, internal) (set (stored (root t)))"
proof -
  let ?e = "(handler, k, lt, internal)"
  have wf: "wf_node (root t)" "HasPrefix path (rn_prefix (root t))" "rn_prefix (root t) = []"
    using assms(1) by (simp_all add: tree_inv_def wf_tree_def)
  obtain n where n: "insertNode (root t) path ?e = Inr n"
    using insert_fails(1) [OF wf(1,2), of ?e] assms(3) by auto
  have add: "set (stored n) = insert (path, ?e) (set (stored (root t))) \<and> wf_node n"
    using insert_adds(1) [OF _ n wf(2,1)] assms(2) by simp
  have "rn_prefix n = []" using insertNode_prefix [OF n wf(2)] wf(3) by simp
  with add n assms show ?thesis
    by (auto simp: Radix_Insert_def tree_inv_def wf_tree_def)
qed

lemma checkConflict_cases:
  "checkConflict e path lt = (None, e\<lparr>registeredPaths := (registeredPaths e)(path \<mapsto> lt)\<rparr>)
     \<and> registeredPaths e path = None
   \<or> (\<exists>existing. checkConflict e path lt = (Some (ConflictError path existing lt), e)
        \<and> registeredPaths e path = Some existing)"
  by (simp add: checkConflict_def split: option.splits)

lemma engine_inv_unregistered:
  assumes "engine_inv e" and "registeredPaths e path = None"
  shows "path \<notin> fst ` set (stored (root (prefixPriorityTree e)))"
    and "path \<notin> fst ` set (stored (root (prefixTree e)))"
    and "exactMatchers e path = None"
proof -
  show "path \<notin> fst ` set (stored (root (prefixPriorityTree e)))"
    using assms by (force simp: engine_inv_def)
  show "path \<notin> fst ` set (stored (root (prefixTree e)))"
    using assms by (force simp: engine_inv_def)
  show "exactMatchers e path = None"
    using assms by (cases "exactMatchers e path") (auto simp: engine_inv_def)
qed

lemma engine_inv_AddExact: "engine_inv e \<Longrightarrow> engine_inv (snd (AddExact e path handler internal))"
  using checkConflict_cases [of e path "''exact''"] engine_inv_unregistered [of e path]
  by (fastforce simp: AddExact_def engine_inv_def NewExactMatcher_def split: if_splits)

lemma engine_inv_AddPrefixPriority:
  assumes "engine_inv e" and "handler \<noteq> None"
  shows "engine_inv (snd (AddPrefixPriority e path handler internal))"
proof (cases "le_initialized e \<or> registeredPaths e path \<noteq> None")
  case True
  then show ?thesis using assms(1) by (auto simp: AddPrefixPriority_def checkConflict_def)
next
  case False
  let ?lt = "''prefix_priority''" and ?t = "prefixPriorityTree e"
  have new: "registeredPaths e path = None" using False by simp
  have ti: "tree_inv 2 ?lt False ?t" using False assms(1) by (auto simp: engine_inv_def)
  obtain t' where t': "Radix_Insert ?t path handler 2 ?lt internal = Inr t'" "tree_inv 2 ?lt False t'"
    "set (stored (root t')) = insert (path, handler, 2, ?lt, internal) (set (stored (root ?t)))"
    using tree_inv_insert [OF ti assms(2) engine_inv_unregistered(1) [OF assms(1) new]] by blast
  show ?thesis
    using False assms(1) t' engine_inv_unregistered [OF assms(1) new]
    by (simp add: AddPrefixPriority_def checkConflict_def engine_inv_def) fastforce
qed

lemma engine_inv_AddPrefix:
  assumes "engine_inv e" and "handler \<noteq> None"
  shows "engine_inv (snd (AddPrefix e path handler internal))"
proof (cases "le_initialized e \<or> registeredPaths e path \<noteq> None")
  case True
  then show ?thesis using assms(1) by (auto simp: AddPrefix_def checkConflict_def)
next
  case False
  let ?lt = "''prefix''" and ?t = "prefixTree e"
  have new: "registeredPaths e path = None" using False by simp
  have ti: "tree_inv 4 ?lt False ?t" using False assms(1) by (auto simp: engine_inv_def)
  obtain t' where t': "Radix_Insert ?t path handler 4 ?lt internal = Inr t'" "tree_inv 4 ?lt False t'"
    "set (stored (root t')) = insert (path, handler, 4, ?lt, internal) (set (stored (root ?t)))"
    using tree_inv_insert [OF ti assms(2) engine_inv_unregistered(2) [OF assms(1) new]] by blast
  show ?thesis
    using False assms(1) t' engine_inv_unregistered [OF assms(1) new]
    by (simp add: AddPrefix_def checkConflict_def engine_inv_def) fastforce
qed

text \<open>A configuration is a sequence of registrations.\<close>

datatype 'h registration =
    RegExact string "'h option" bool
  | RegPrefixPriority string "'h option" bool
  | RegRegex string "'h option" bool bool
  | RegPrefix string "'h option" bool
  | RegNamed string "'h option"
  | Seal

fun reg_handler :: "'h registration \<Rightarrow> 'h option" where
  "reg_handler (RegExact p h i) = h"
| "reg_handler (RegPrefixPriority p h i) = h"
| "reg_handler (RegRegex p h c i) = h"
| "reg_handler (RegPrefix p h i) = h"
| "reg_handler (RegNamed n h) = h"
| "reg_handler Seal = None"

fun register :: "rx \<Rightarrow> 'h LocationEngine \<Rightarrow> 'h registration \<Rightarrow> location_error option \<times> 'h LocationEngine" where
  "register x e (RegExact p h i) = AddExact e p h i"
| "register x e (RegPrefixPriority p h i) = AddPrefixPriority e p h i"
| "register x e (RegRegex p h c i) = AddRegex x e p h c i"
| "register x e (RegPrefix p h i) = AddPrefix e p h i"
| "register x e (RegNamed n h) = AddNamed e n h"
| "register x e Seal = (None, Location_MarkInitialized e)"

definition register_all :: "rx \<Rightarrow> 'h registration list \<Rightarrow> 'h LocationEngine" where
  "register_all x rs = fold (\<lambda>r e. snd (register x e r)) rs NewLocationEngine"

lemma engine_inv_register:
  assumes "engine_inv e" and "r = Seal \<or> reg_handler r \<noteq> None"
  shows "engine_inv (snd (register x e r))"
proof (cases r)
  case (RegRegex p h c i)
  then show ?thesis
    using assms(1) by (auto simp: AddRegex_def engine_inv_def NewRegexMatcher_def)
next
  case (RegNamed n h)
  then show ?thesis using assms(1) by (auto simp: AddNamed_def engine_inv_def)
next
  case Seal
  then show ?thesis
    using assms(1)
    by (simp add: Location_MarkInitialized_def engine_inv_def tree_inv_def wf_tree_def Radix_MarkInitialized_def)
qed (use assms in \<open>simp_all add: engine_inv_AddExact engine_inv_AddPrefixPriority engine_inv_AddPrefix\<close>)

lemma engine_inv_fold:
  "engine_inv e \<Longrightarrow> \<forall>r \<in> set rs. r = Seal \<or> reg_handler r \<noteq> None
    \<Longrightarrow> engine_inv (fold (\<lambda>r e. snd (register x e r)) rs e)"
  by (induction rs arbitrary: e) (simp_all add: engine_inv_register)

lemma register_all_inv:
  "\<forall>r \<in> set rs. r = Seal \<or> reg_handler r \<noteq> None \<Longrightarrow> engine_inv (register_all x rs)"
  unfolding register_all_def by (rule engine_inv_fold [OF engine_inv_new])

section \<open>What a request is routed to\<close>

lemma match_regex_find:
  "match_regex x ms path = map_option (\<lambda>m. (Regex_Result m)\<lparr>mr_Captures := GetCaptures x m path\<rparr>)
     (find (\<lambda>m. Regex_Match x m path) ms)"
  by (induction ms) simp_all

definition covers :: "'h RadixTree \<Rightarrow> string \<Rightarrow> bool" where
  "covers t path \<longleftrightarrow> (\<exists>q \<in> fst ` set (stored (root t)). HasPrefix path q)"

lemma tree_lookup:
  assumes "tree_inv k lt b t" and "path \<noteq> []"
  shows "covers t path \<Longrightarrow>
      \<exists>r q. FindLongestPrefix t path = Some r \<and> (q, result_entry r) \<in> set (stored (root t))
        \<and> HasPrefix path q \<and> mr_Handler r \<noteq> None \<and> mr_Priority r = k \<and> mr_LocationType r = lt"
    and "\<not> covers t path \<Longrightarrow> FindLongestPrefix t path = None"
  using FindLongestPrefix_spec [of t path] assms
  by (cases "FindLongestPrefix t path"; fastforce simp: tree_inv_def result_entry_def covers_def)+

text \<open>C6. Routing follows nginx's order. In every engine a configuration builds, a request path is
  answered by the exact location of that path when there is one; otherwise by a \<open>^~\<close>
  location that is a prefix of the path when there is one; otherwise by the first
  registered regular expression that matches it; otherwise by a prefix location; and by
  nothing only when no location of any kind matches.\<close>

theorem location_match_priority:
  fixes x :: rx and rs :: "'h registration list"
  defines "e \<equiv> register_all x rs"
  assumes "\<forall>r \<in> set rs. r = Seal \<or> reg_handler r \<noteq> None" and "path \<noteq> []"
  shows "if exactMatchers e path \<noteq> None
    then \<exists>m. exactMatchers e path = Some m \<and> ex_path m = path \<and> Match x e path = Some (Exact_Result m)
    else if covers (prefixPriorityTree e) path
    then \<exists>r q. Match x e path = Some r \<and> (q, result_entry r) \<in> set (stored (root (prefixPriorityTree e)))
      \<and> HasPrefix path q \<and> mr_LocationType r = ''prefix_priority''
    else case find (\<lambda>m. Regex_Match x m path) (regexMatchers e) of
      Some m \<Rightarrow> Match x e path = Some ((Regex_Result m)\<lparr>mr_Captures := GetCaptures x m path\<rparr>)
    | None \<Rightarrow>
        if covers (prefixTree e) path
        then \<exists>r q. Match x e path = Some r \<and> (q, result_entry r) \<in> set (stored (root (prefixTree e)))
          \<and> HasPrefix path q \<and> mr_LocationType r = ''prefix''
        else Match x e path = None"
proof -
  have inv: "engine_inv e" unfolding e_def by (rule register_all_inv [OF assms(2)])
  then have pp: "tree_inv 2 ''prefix_priority'' (le_initialized e) (prefixPriorityTree e)"
    and p: "tree_inv 4 ''prefix'' (le_initialized e) (prefixTree e)"
    and ex: "\<And>m. exactMatchers e path = Some m \<Longrightarrow> ex_path m = path"
    by (auto simp: engine_inv_def)
  show ?thesis
    using tree_lookup [OF pp assms(3)] tree_lookup [OF p assms(3)] ex
    by (cases "covers (prefixPriorityTree e) path"; cases "covers (prefixTree e) path"; auto simp: Match_def match_regex_find Let_def split: option.splits)
qed

definition demo_rx :: rx where
  "demo_rx = \<lparr>re_compile = (\<lambda>p. p \<noteq> []), re_match = (\<lambda>p s. p = s), re_submatch = (\<lambda>p s. Some [s]), re_names = (\<lambda>p. [[]])\<rparr>"

definition demo_config :: "nat registration list" where
  "demo_config = [RegPrefix ''/a'' (Some 1) False, RegRegex ''/a/b'' (Some 2) False False,
     RegPrefixPriority ''/s/'' (Some 3) False, RegExact ''/s/x'' (Some 4) False, Seal]"

theorem location_match_priority_witness:
  "Match demo_rx (register_all demo_rx demo_config) ''/s/x'' = Some (Exact_Result (NewExactMatcher ''/s/x'' (Some 4) 1 False))"
proof -
  let ?e = "register_all demo_rx demo_config"
  have h: "\<forall>r \<in> set demo_config. r = Seal \<or> reg_handler r \<noteq> None" "''/s/x'' \<noteq> []"
    by (simp_all add: demo_config_def)
  have "exactMatchers ?e ''/s/x'' = Some (NewExactMatcher ''/s/x'' (Some 4) 1 False)"
    by code_simp
  then show ?thesis
    using location_match_priority [OF h, of demo_rx] by auto
qed

lemma sealed_refuses: "le_initialized e \<Longrightarrow> r \<noteq> Seal \<Longrightarrow> register x e r = (Some EngineInitialized, e)"
  by (cases r) (simp_all add: AddExact_def AddPrefixPriority_def AddPrefix_def AddRegex_def AddNamed_def)

lemma registered_conflicts:
  "\<not> le_initialized e \<Longrightarrow> registeredPaths e p = Some k
    \<Longrightarrow> r \<in> {RegExact p h i, RegPrefixPriority p h i, RegPrefix p h i}
    \<Longrightarrow> snd (register x e r) = e \<and> (\<exists>k'. fst (register x e r) = Some (ConflictError p k k'))"
  by (auto simp: AddExact_def AddPrefixPriority_def AddPrefix_def checkConflict_def)

lemma fresh_registers:
  assumes inv: "engine_inv e" and op: "\<not> le_initialized e" and new: "registeredPaths e p = None" and "h \<noteq> None"
    and r: "r \<in> {RegExact p h i, RegPrefixPriority p h i, RegPrefix p h i}"
  shows "fst (register x e r) = None \<and> registeredPaths (snd (register x e r)) p \<noteq> None"
proof -
  have t: "tree_inv 2 ''prefix_priority'' False (prefixPriorityTree e)" "tree_inv 4 ''prefix'' False (prefixTree e)"
    using inv op by (auto simp: engine_inv_def)
  show ?thesis
    using new op r tree_inv_insert [OF t(1) assms(4) engine_inv_unregistered(1) [OF inv new], of i]
      tree_inv_insert [OF t(2) assms(4) engine_inv_unregistered(2) [OF inv new], of i]
    by (auto simp: AddExact_def AddPrefixPriority_def AddPrefix_def checkConflict_def)
qed

lemma exact_roundtrip:
  "fst (register x e (RegExact p h i)) = None \<Longrightarrow>
      map_option mr_Handler (Match x (snd (register x e (RegExact p h i))) p) = Some h"
  using checkConflict_cases [of e p "''exact''"]
  by (auto simp: AddExact_def Match_def Exact_Result_def NewExactMatcher_def split: if_splits)

text \<open>Registration. A sealed engine refuses every registration and is left as it is. An open engine
  accepts a prefix or exact location exactly when its path is new, rejects a second
  registration of a path under whatever kind, naming both kinds, and after a successful
  exact registration a request for that path gets that location's handler.\<close>

theorem location_registration:
  fixes x :: rx and rs :: "'h registration list"
  defines "e \<equiv> register_all x rs"
  assumes "\<forall>r \<in> set rs. r = Seal \<or> reg_handler r \<noteq> None" and "h \<noteq> None"
    and "r \<in> {RegExact p h i, RegPrefixPriority p h i, RegPrefix p h i}"
  shows "(if le_initialized e then register x e r = (Some EngineInitialized, e)
    else case registeredPaths e p of
      None \<Rightarrow> fst (register x e r) = None \<and> registeredPaths (snd (register x e r)) p \<noteq> None
    | Some k \<Rightarrow> snd (register x e r) = e \<and> (\<exists>k'. fst (register x e r) = Some (ConflictError p k k')))
    \<and> (fst (register x e (RegExact p h i)) = None \<longrightarrow>
        map_option mr_Handler (Match x (snd (register x e (RegExact p h i))) p) = Some h)"
proof -
  have inv: "engine_inv e" unfolding e_def by (rule register_all_inv [OF assms(2)])
  have ns: "r \<noteq> Seal" using assms(4) by auto
  show ?thesis
    using sealed_refuses [OF _ ns] registered_conflicts [OF _ _ assms(4)]
      fresh_registers [OF inv _ _ assms(3,4)] exact_roundtrip
    by (auto split: option.split simp del: register.simps)
qed

theorem location_registration_witness:
  "register demo_rx (register_all demo_rx demo_config) (RegExact ''/n'' (Some 9) False)
     = (Some EngineInitialized, register_all demo_rx demo_config)
   \<and> (\<exists>k. fst (register demo_rx (register_all demo_rx [RegPrefix ''/a'' (Some (1::nat)) False]) (RegExact ''/a'' (Some 9) False))
     = Some (ConflictError ''/a'' ''prefix'' k))"
proof
  have s: "le_initialized (register_all demo_rx demo_config)"
    by (simp add: register_all_def demo_config_def Location_MarkInitialized_def)
  have h: "\<forall>r \<in> set demo_config. r = Seal \<or> reg_handler r \<noteq> None" "Some (9::nat) \<noteq> None"
    by (simp_all add: demo_config_def)
  show "register demo_rx (register_all demo_rx demo_config) (RegExact ''/n'' (Some 9) False)
     = (Some EngineInitialized, register_all demo_rx demo_config)"
    using location_registration [OF h, of "RegExact ''/n'' (Some 9) False" "''/n''" False demo_rx] s by simp
  let ?rs = "[RegPrefix ''/a'' (Some (1::nat)) False]"
  have h2: "\<forall>r \<in> set ?rs. r = Seal \<or> reg_handler r \<noteq> None" by simp
  have e: "\<not> le_initialized (register_all demo_rx ?rs)"
    "registeredPaths (register_all demo_rx ?rs) ''/a'' = Some ''prefix''"
    by (simp_all add: register_all_def NewLocationEngine_def AddPrefix_def checkConflict_def Radix_Insert_def
        NewRadixTree_def Let_def)
  show "\<exists>k. fst (register demo_rx (register_all demo_rx ?rs) (RegExact ''/a'' (Some 9) False))
     = Some (ConflictError ''/a'' ''prefix'' k)"
    using location_registration [OF h2 h(2), of "RegExact ''/a'' (Some 9) False" "''/a''" False demo_rx] e
    by (simp del: register.simps)
qed

end
