(* ===== verification/HealthCheck.thy ===== *)
theory HealthCheck
  imports Balancer GoStrings
begin

text \<open>
  \<^verbatim>\<open>internal/proxy/health.go\<close>, \<^verbatim>\<open>internal/proxy/health_match.go\<close> and
  \<^verbatim>\<open>internal/loadbalance/slow_start.go\<close>: health probes, how their outcome changes a target,
  and the slow-start weights. A probe's outcome is an argument: \<open>None\<close> for a transport
  error, otherwise status, body and the response headers in order. The manager's map is
  an association list in an arbitrary order (Go's iteration order is unspecified). The
  ramp, which the code computes in \<open>float64\<close>, is computed exactly. A background loop is
  the channel it selects on.
\<close>

section \<open>Response matching: \<open>health_match.go\<close>\<close>

record statusRange =
  sr_min :: int
  sr_max :: int

datatype HealthMatch =
    defaultHealthMatch
  | customHealthMatch "statusRange list" "string option" "(string \<times> string) list"

record HealthMatchConfig =
  hm_Status :: "string list"
  hm_Body :: string
  hm_Headers :: "(string \<times> string) list"

definition matchStatus :: "statusRange list \<Rightarrow> int \<Rightarrow> bool" where
  "matchStatus ranges status \<longleftrightarrow> (\<exists>r \<in> set ranges. status \<ge> sr_min r \<and> status \<le> sr_max r)"

fun headers_match :: "(string \<times> string) list \<Rightarrow> (string \<rightharpoonup> string) \<Rightarrow> bool" where
  "headers_match [] headers = True"
| "headers_match ((k, v) # hms) headers =
     (case headers k of
        None \<Rightarrow> False
      | Some value \<Rightarrow> (if value \<noteq> v then False else headers_match hms headers))"

fun HealthMatch_Match :: "rx \<Rightarrow> HealthMatch \<Rightarrow> int \<Rightarrow> string \<Rightarrow> (string \<rightharpoonup> string) \<Rightarrow> bool" where
  "HealthMatch_Match x defaultHealthMatch status body headers \<longleftrightarrow> status \<ge> 200 \<and> status < 300"
| "HealthMatch_Match x (customHealthMatch ranges bodyRegex hms) status body headers =
     (if \<not> matchStatus ranges status then False
      else if (case bodyRegex of None \<Rightarrow> False | Some p \<Rightarrow> \<not> re_match x p body) then False
      else headers_match hms headers)"

definition parseStatusRange :: "string \<Rightarrow> statusRange option" where
  "parseStatusRange s0 =
     (let s = TrimSpace s0
      in if Contains s ''-'' then
           (let parts = Split s (CHR ''-'')
            in if length parts \<noteq> 2 then None
               else case (Atoi (TrimSpace (parts ! 0)), Atoi (TrimSpace (parts ! 1))) of
                      (Some mn, Some mx) \<Rightarrow> Some \<lparr>sr_min = mn, sr_max = mx\<rparr>
                    | _ \<Rightarrow> None)
         else case Atoi s of None \<Rightarrow> None | Some code \<Rightarrow> Some \<lparr>sr_min = code, sr_max = code\<rparr>)"

text \<open>\<open>regexp.MustCompile\<close> panics on a pattern that does not compile: the result is \<open>None\<close>.\<close>

definition NewHealthMatch :: "rx \<Rightarrow> HealthMatchConfig option \<Rightarrow> HealthMatch option" where
  "NewHealthMatch x cfg =
     (case cfg of
        None \<Rightarrow> Some defaultHealthMatch
      | Some c \<Rightarrow>
          let ranges = List.map_filter parseStatusRange (hm_Status c);
              ranges = (if ranges = [] then [\<lparr>sr_min = 200, sr_max = 299\<rparr>] else ranges);
              hms = map (\<lambda>(k, v). (ToLower k, v)) (hm_Headers c)
          in if hm_Body c = [] then Some (customHealthMatch ranges None hms)
             else if re_compile x (hm_Body c) then Some (customHealthMatch ranges (Some (hm_Body c)) hms)
             else None)"

definition DefaultHealthMatch :: HealthMatch where
  "DefaultHealthMatch = defaultHealthMatch"

section \<open>Slow start: \<open>slow_start.go\<close>\<close>

record SlowStartState =
  BaseWeight :: int
  RecoverTime :: nanos
  ss_SlowStart :: nanos

record SlowStartManager =
  ss_targets :: "(string \<times> SlowStartState) list"
  ss_interval :: nanos
  ss_stopCh :: nat
  ss_running :: bool
  ss_findTarget :: "ptr list option"
  ss_closed :: "nat list"
  ss_loops :: "nat list"

definition NewSlowStartManager :: "nanos \<Rightarrow> SlowStartManager" where
  "NewSlowStartManager interval =
     \<lparr>ss_targets = [], ss_interval = (if interval \<le> 0 then second else interval), ss_stopCh = 0,
      ss_running = False, ss_findTarget = None, ss_closed = [], ss_loops = []\<rparr>"

definition alist_delete :: "'a \<Rightarrow> ('a \<times> 'b) list \<Rightarrow> ('a \<times> 'b) list" where
  "alist_delete k xs = filter (\<lambda>(k', _). k' \<noteq> k) xs"

definition alist_store :: "'a \<Rightarrow> 'b \<Rightarrow> ('a \<times> 'b) list \<Rightarrow> ('a \<times> 'b) list" where
  "alist_store k v xs = (k, v) # alist_delete k xs"

definition OnTargetHealthy :: "nanos \<Rightarrow> SlowStartManager \<Rightarrow> Target \<Rightarrow> SlowStartManager \<times> Target" where
  "OnTargetHealthy now m target =
     (if SlowStart target \<le> 0 then (m, target)
      else (m\<lparr>ss_targets := alist_store (URL target)
               \<lparr>BaseWeight = Weight target, RecoverTime = now, ss_SlowStart = SlowStart target\<rparr> (ss_targets m)\<rparr>,
            target\<lparr>EffectiveWeight := 1\<rparr>))"

definition OnTargetUnhealthy :: "SlowStartManager \<Rightarrow> Target \<Rightarrow> SlowStartManager \<times> Target" where
  "OnTargetUnhealthy m target =
     (m\<lparr>ss_targets := alist_delete (URL target) (ss_targets m)\<rparr>, target\<lparr>EffectiveWeight := 0\<rparr>)"

definition SlowStart_Start :: "SlowStartManager \<Rightarrow> SlowStartManager" where
  "SlowStart_Start m =
     (if ss_running m then m
      else let ch = ss_stopCh m + 1
           in m\<lparr>ss_running := True, ss_stopCh := ch, ss_loops := ss_loops m @ [ch]\<rparr>)"

definition SetFindTarget :: "ptr list \<Rightarrow> SlowStartManager \<Rightarrow> SlowStartManager" where
  "SetFindTarget ps m = m\<lparr>ss_findTarget := Some ps\<rparr>"

definition SlowStart_Stop :: "SlowStartManager \<Rightarrow> SlowStartManager" where
  "SlowStart_Stop m =
     (if \<not> ss_running m then m
      else let m = m\<lparr>ss_running := False\<rparr>
           in if ss_stopCh m \<in> set (ss_closed m) then m
              else m\<lparr>ss_closed := ss_stopCh m # ss_closed m\<rparr>)"

text \<open>The loop of \<open>updateLoop\<close> returns when it sees its channel closed.\<close>

definition updateLoop_exit :: "nat \<Rightarrow> SlowStartManager \<Rightarrow> SlowStartManager" where
  "updateLoop_exit ch m =
     (if ch \<in> set (ss_closed m) then m\<lparr>ss_loops := remove1 ch (ss_loops m)\<rparr> else m)"

fun findTargetByURL :: "heap \<Rightarrow> ptr list \<Rightarrow> string \<Rightarrow> ptr option" where
  "findTargetByURL h [] url = None"
| "findTargetByURL h (p # ps) url = (if URL (h p) = url then Some p else findTargetByURL h ps url)"

definition ramp_weight :: "nanos \<Rightarrow> SlowStartState \<Rightarrow> int" where
  "ramp_weight elapsed s =
     min (max (go_div (ss_SlowStart s + elapsed * (BaseWeight s - 1)) (ss_SlowStart s)) 1) (BaseWeight s)"

definition set_weight :: "heap \<Rightarrow> ptr list option \<Rightarrow> string \<Rightarrow> int \<Rightarrow> heap" where
  "set_weight h ft url w =
     (case ft of
        None \<Rightarrow> h
      | Some ps \<Rightarrow>
          (case findTargetByURL h ps url of
             None \<Rightarrow> h
           | Some p \<Rightarrow> h(p := (h p)\<lparr>EffectiveWeight := w\<rparr>)))"

fun ramp_loop ::
  "nanos \<Rightarrow> ptr list option \<Rightarrow> heap \<Rightarrow> (string \<times> SlowStartState) list \<Rightarrow> heap \<times> string list" where
  "ramp_loop now ft h [] = (h, [])"
| "ramp_loop now ft h ((url, s) # rest) =
     (let elapsed = now - RecoverTime s
      in if elapsed \<ge> ss_SlowStart s
         then (case ramp_loop now ft h rest of (h', del) \<Rightarrow> (h', url # del))
         else ramp_loop now ft (set_weight h ft url (ramp_weight elapsed s)) rest)"

fun finish_loop ::
  "ptr list option \<Rightarrow> heap \<Rightarrow> (string \<times> SlowStartState) list \<Rightarrow> string list
    \<Rightarrow> heap \<times> (string \<times> SlowStartState) list" where
  "finish_loop ft h ts [] = (h, ts)"
| "finish_loop ft h ts (url # urls) = finish_loop ft (set_weight h ft url 0) (alist_delete url ts) urls"

definition updateEffectiveWeights :: "nanos \<Rightarrow> SlowStartManager \<Rightarrow> heap \<Rightarrow> SlowStartManager \<times> heap" where
  "updateEffectiveWeights now m h =
     (case ramp_loop now (ss_findTarget m) h (ss_targets m) of
        (h1, toDelete) \<Rightarrow>
          (case finish_loop (ss_findTarget m) h1 (ss_targets m) toDelete of
             (h2, ts) \<Rightarrow> (m\<lparr>ss_targets := ts\<rparr>, h2)))"

section \<open>The checker: \<open>health.go\<close>\<close>

record HealthCheckConfig =
  hcc_Interval :: nanos
  hcc_Timeout :: nanos
  hcc_Path :: string
  hcc_Match :: "HealthMatchConfig option"
  hcc_SlowStart :: nanos

record HealthChecker =
  hc_path :: string
  hc_targets :: "ptr list"
  hc_interval :: nanos
  hc_timeout :: nanos
  hc_running :: bool
  hc_matcher :: HealthMatch
  hc_slowStartManager :: "SlowStartManager option"
  hc_loops :: nat

definition NewHealthChecker ::
  "rx \<Rightarrow> ptr list \<Rightarrow> HealthCheckConfig option \<Rightarrow> HealthChecker option" where
  "NewHealthChecker x targets cfg0 =
     (let cfg = (case cfg0 of
          None \<Rightarrow> \<lparr>hcc_Interval = 0, hcc_Timeout = 0, hcc_Path = [], hcc_Match = None, hcc_SlowStart = 0\<rparr>
        | Some c \<Rightarrow> c);
        mk = (\<lambda>matcher.
          \<lparr>hc_path = (if hcc_Path cfg = [] then ''/health'' else hcc_Path cfg), hc_targets = targets,
           hc_interval = (if hcc_Interval cfg \<le> 0 then 10 * second else hcc_Interval cfg),
           hc_timeout = (if hcc_Timeout cfg \<le> 0 then 5 * second else hcc_Timeout cfg),
           hc_running = False, hc_matcher = matcher,
           hc_slowStartManager =
             (if hcc_SlowStart cfg > 0 then Some (SetFindTarget targets (NewSlowStartManager (hcc_SlowStart cfg))) else None),
           hc_loops = 0\<rparr>)
      in case hcc_Match cfg of
           None \<Rightarrow> Some (mk DefaultHealthMatch)
         | Some mc \<Rightarrow> map_option mk (NewHealthMatch x (Some mc)))"

definition HealthChecker_Start :: "HealthChecker \<Rightarrow> HealthChecker" where
  "HealthChecker_Start h =
     (if hc_running h then h
      else h\<lparr>hc_running := True, hc_slowStartManager := map_option SlowStart_Start (hc_slowStartManager h),
             hc_loops := hc_loops h + 1\<rparr>)"

text \<open>\<open>Stop\<close> waits for the checking loop to return before it stops the slow-start manager.\<close>

definition HealthChecker_Stop :: "HealthChecker \<Rightarrow> HealthChecker" where
  "HealthChecker_Stop h =
     (if \<not> hc_running h then h
      else h\<lparr>hc_running := False, hc_loops := 0,
             hc_slowStartManager := map_option SlowStart_Stop (hc_slowStartManager h)\<rparr>)"

definition MarkUnhealthy :: "nanos \<Rightarrow> HealthChecker \<Rightarrow> heap \<Rightarrow> ptr \<Rightarrow> HealthChecker \<times> heap" where
  "MarkUnhealthy now h hp p =
     (let t = snd (RecordFailure now ((hp p)\<lparr>Healthy := False\<rparr>))
      in case hc_slowStartManager h of
           None \<Rightarrow> (h, hp(p := t))
         | Some m \<Rightarrow> (case OnTargetUnhealthy m t of (m', t') \<Rightarrow> (h\<lparr>hc_slowStartManager := Some m'\<rparr>, hp(p := t'))))"

definition MarkHealthy :: "nanos \<Rightarrow> HealthChecker \<Rightarrow> heap \<Rightarrow> ptr \<Rightarrow> HealthChecker \<times> heap" where
  "MarkHealthy now h hp p =
     (let t = RecordSuccess ((hp p)\<lparr>Healthy := True\<rparr>)
      in case hc_slowStartManager h of
           None \<Rightarrow> (h, hp(p := t))
         | Some m \<Rightarrow> (case OnTargetHealthy now m t of (m', t') \<Rightarrow> (h\<lparr>hc_slowStartManager := Some m'\<rparr>, hp(p := t'))))"

type_synonym probe_response = "(int \<times> string \<times> (string \<times> string) list) option"

definition header_map :: "(string \<times> string) list \<Rightarrow> (string \<rightharpoonup> string)" where
  "header_map hs = map_of (rev hs)"

definition checkTarget ::
  "rx \<Rightarrow> nanos \<Rightarrow> HealthChecker \<Rightarrow> heap \<Rightarrow> ptr \<Rightarrow> probe_response \<Rightarrow> HealthChecker \<times> heap" where
  "checkTarget x now h hp p resp =
     (case resp of
        None \<Rightarrow> MarkUnhealthy now h hp p
      | Some (statusCode, body, hs) \<Rightarrow>
          if HealthMatch_Match x (hc_matcher h) statusCode body (header_map hs)
          then MarkHealthy now h hp p else MarkUnhealthy now h hp p)"

text \<open>\<open>checkAll\<close> probes every target in its own goroutine and waits for all of them: a round is a
  list of completions, each with its target, its instant and its outcome, in the order in
  which they happen.\<close>

fun checkAll ::
  "rx \<Rightarrow> HealthChecker \<Rightarrow> heap \<Rightarrow> (ptr \<times> nanos \<times> probe_response) list \<Rightarrow> HealthChecker \<times> heap" where
  "checkAll x h hp [] = (h, hp)"
| "checkAll x h hp ((p, now, resp) # rest) =
     (case checkTarget x now h hp p resp of (h', hp') \<Rightarrow> checkAll x h' hp' rest)"

section \<open>The ramp\<close>

lemma ramp_weight_exact:
  assumes "BaseWeight s \<ge> 1" and "0 \<le> e" and "e < ss_SlowStart s"
  shows "ramp_weight e s = 1 + e * (BaseWeight s - 1) div ss_SlowStart s"
proof -
  let ?b = "BaseWeight s - 1" and ?d = "ss_SlowStart s"
  have nn: "0 \<le> e * ?b" using assms by simp
  have q: "go_div (?d + e * ?b) ?d = 1 + e * ?b div ?d"
    using assms nn add_pos_nonneg [of ?d "e * ?b"] by (simp add: go_div_def sgn_if div_add_self1)
  have "e * ?b \<le> ?d * ?b" using assms by (simp add: mult_right_mono)
  then have "e * ?b div ?d \<le> ?b"
    using assms zdiv_mono1 [of "e * ?b" "?d * ?b" ?d] by simp
  moreover have "0 \<le> e * ?b div ?d" using assms nn by (simp add: pos_imp_zdiv_nonneg_iff)
  ultimately show ?thesis by (simp add: ramp_weight_def q)
qed

lemma ramp_weight_bounds: "BaseWeight s \<ge> 1 \<Longrightarrow> 1 \<le> ramp_weight e s \<and> ramp_weight e s \<le> BaseWeight s"
  by (simp add: ramp_weight_def)

lemma findTargetByURL_Some: "findTargetByURL h ps url = Some p \<Longrightarrow> p \<in> set ps \<and> URL (h p) = url"
  by (induction ps) (auto split: if_splits)

lemma findTargetByURL_cong: "(\<And>p. URL (h' p) = URL (h p)) \<Longrightarrow> findTargetByURL h' ps url = findTargetByURL h ps url"
  by (induction ps) auto

lemma set_weight_frame [frame_simps]:
  "URL (set_weight h ft url w p) = URL (h p)" "Weight (set_weight h ft url w p) = Weight (h p)"
  "failCount (set_weight h ft url w p) = failCount (h p)" "MaxFails (set_weight h ft url w p) = MaxFails (h p)"
  "Healthy (set_weight h ft url w p) = Healthy (h p)"
  by (auto simp: set_weight_def split: option.splits)

lemma set_weight_find [simp]:
  "findTargetByURL (set_weight h ft url w) ps url' = findTargetByURL h ps url'"
  by (rule findTargetByURL_cong) (simp add: frame_simps)

lemma set_weight_other:
  "findTargetByURL h ps url = Some p \<Longrightarrow> url' \<noteq> url \<Longrightarrow> set_weight h (Some ps) url' w p = h p"
  by (auto simp: set_weight_def split: option.splits dest: findTargetByURL_Some)

lemma set_weight_same:
  "findTargetByURL h ps url = Some p \<Longrightarrow> EffectiveWeight (set_weight h (Some ps) url w p) = w"
  by (simp add: set_weight_def)

lemma ramp_loop_frame [frame_simps]:
  "URL (fst (ramp_loop now ft h ts) p) = URL (h p)" "Weight (fst (ramp_loop now ft h ts) p) = Weight (h p)"
  "failCount (fst (ramp_loop now ft h ts) p) = failCount (h p)" "MaxFails (fst (ramp_loop now ft h ts) p) = MaxFails (h p)"
  "Healthy (fst (ramp_loop now ft h ts) p) = Healthy (h p)"
  by (induction now ft h ts rule: ramp_loop.induct) (auto simp: frame_simps Let_def split: prod.splits)

lemma finish_loop_frame [frame_simps]:
  "URL (fst (finish_loop ft h ts us) p) = URL (h p)" "Weight (fst (finish_loop ft h ts us) p) = Weight (h p)"
  "failCount (fst (finish_loop ft h ts us) p) = failCount (h p)" "MaxFails (fst (finish_loop ft h ts us) p) = MaxFails (h p)"
  "Healthy (fst (finish_loop ft h ts us) p) = Healthy (h p)"
  by (induction ft h ts us rule: finish_loop.induct) (auto simp: frame_simps)

lemma updateEffectiveWeights_unfold:
  "updateEffectiveWeights now m h =
     (let r = ramp_loop now (ss_findTarget m) h (ss_targets m);
          f = finish_loop (ss_findTarget m) (fst r) (ss_targets m) (snd r)
      in (m\<lparr>ss_targets := snd f\<rparr>, fst f))"
  by (simp add: updateEffectiveWeights_def Let_def split: prod.splits)

lemma ramp_loop_deleted:
  "snd (ramp_loop now ft h ts) = map fst (filter (\<lambda>(url, s). now - RecoverTime s \<ge> ss_SlowStart s) ts)"
  by (induction now ft h ts rule: ramp_loop.induct) (auto simp: Let_def split: prod.splits)

lemma ramp_loop_skip:
  "findTargetByURL h ps url = Some p \<Longrightarrow> url \<notin> fst ` set ts \<Longrightarrow> fst (ramp_loop now (Some ps) h ts) p = h p"
proof (induction now "Some ps" h ts rule: ramp_loop.induct)
  case (2 now h url' s rest)
  then show ?case by (auto simp: Let_def set_weight_other split: prod.splits)
qed simp

lemma ramp_loop_weight:
  assumes "findTargetByURL h ps url = Some p" and "distinct (map fst ts)" and "(url, s) \<in> set ts"
    and "now - RecoverTime s < ss_SlowStart s"
  shows "EffectiveWeight (fst (ramp_loop now (Some ps) h ts) p) = ramp_weight (now - RecoverTime s) s"
  using assms
proof (induction now "Some ps" h ts rule: ramp_loop.induct)
  case (2 now h url' s' rest)
  show ?case
  proof (cases "url' = url")
    case True
    then have "s' = s" "url \<notin> fst ` set rest" using "2.prems"(2,3) by (auto simp: rev_image_eqI)
    then show ?thesis using True "2.prems"
      by (simp add: Let_def ramp_loop_skip set_weight_same)
  next
    case False
    then show ?thesis using 2 by (auto simp: Let_def set_weight_other split: prod.splits)
  qed
qed simp

lemma finish_loop_targets: "snd (finish_loop ft h ts us) = filter (\<lambda>(k, _). k \<notin> set us) ts"
  by (induction ft h ts us rule: finish_loop.induct) (auto simp: alist_delete_def intro: filter_cong)

lemma finish_loop_weight:
  "findTargetByURL h ps url = Some p \<Longrightarrow>
    EffectiveWeight (fst (finish_loop (Some ps) h ts us) p) = (if url \<in> set us then 0 else EffectiveWeight (h p))"
proof (induction "Some ps" h ts us rule: finish_loop.induct)
  case (2 h ts url' urls)
  then show ?case by (cases "url' = url") (auto simp: set_weight_same set_weight_other)
qed simp

text \<open>Slow start ramps linearly. One tick gives a recovering target a weight that grows from 1
  with the time since its recovery, never leaves 1 to the configured weight, and once the slow-start
  period is over hands the target back its configured weight and forgets it.\<close>

theorem slow_start_ramp:
  assumes "updateEffectiveWeights now m h = (m', h')" and "ss_findTarget m = Some ps"
    and "distinct (map fst (ss_targets m))" and "(url, s) \<in> set (ss_targets m)"
    and "findTargetByURL h ps url = Some p" and "BaseWeight s \<ge> 1" and "RecoverTime s \<le> now"
  shows "if now - RecoverTime s < ss_SlowStart s
    then EffectiveWeight (h' p) = 1 + (now - RecoverTime s) * (BaseWeight s - 1) div ss_SlowStart s
      \<and> EffectiveWeight (h' p) \<in> {1 .. BaseWeight s} \<and> (url, s) \<in> set (ss_targets m')
    else EffectiveWeight (h' p) = 0 \<and> GetEffectiveWeight (h' p) = Weight (h p) \<and> url \<notin> fst ` set (ss_targets m')"
proof -
  let ?r = "ramp_loop now (Some ps) h (ss_targets m)"
  have f: "findTargetByURL (fst ?r) ps url = Some p"
    using assms(5) findTargetByURL_cong [of "fst ?r" h ps url] by (simp add: frame_simps)
  have del: "url \<in> set (snd ?r) \<longleftrightarrow> \<not> now - RecoverTime s < ss_SlowStart s"
    using assms(3,4) by (auto simp: ramp_loop_deleted not_less distinct_map inj_on_def image_iff) force
  have h': "h' = fst (finish_loop (Some ps) (fst ?r) (ss_targets m) (snd ?r))"
    and m': "ss_targets m' = filter (\<lambda>(k, _). k \<notin> set (snd ?r)) (ss_targets m)"
    using assms(1,2) by (auto simp: updateEffectiveWeights_unfold Let_def finish_loop_targets)
  have w: "Weight (h' p) = Weight (h p)" by (simp add: h' frame_simps)
  show ?thesis
    using finish_loop_weight [OF f, of "ss_targets m" "snd ?r"] ramp_loop_weight [OF assms(5,3,4)]
      ramp_weight_exact [OF assms(6), of "now - RecoverTime s"]
      ramp_weight_bounds [OF assms(6), of "now - RecoverTime s"] del assms(4,7) w
    by (cases "now - RecoverTime s < ss_SlowStart s") (auto simp: h' m' GetEffectiveWeight_def)
qed

definition slow_heap :: heap where
  "slow_heap = (\<lambda>p. (mk_target ''http://a'' 9 False)\<lparr>SlowStart := 100\<rparr>)"

definition slow_manager :: SlowStartManager where
  "slow_manager = (SetFindTarget [10] (NewSlowStartManager 1))
     \<lparr>ss_targets := [(''http://a'', \<lparr>BaseWeight = 9, RecoverTime = 1000, ss_SlowStart = 100\<rparr>)]\<rparr>"

theorem slow_start_ramp_witness:
  "EffectiveWeight (snd (updateEffectiveWeights 1050 slow_manager slow_heap) 10) = 5
   \<and> EffectiveWeight (snd (updateEffectiveWeights 1100 slow_manager slow_heap) 10) = 0"
proof -
  let ?s = "\<lparr>BaseWeight = 9, RecoverTime = 1000, ss_SlowStart = 100\<rparr>"
  have h: "ss_findTarget slow_manager = Some [10]" "distinct (map fst (ss_targets slow_manager))"
    "(''http://a'', ?s) \<in> set (ss_targets slow_manager)" "findTargetByURL slow_heap [10] ''http://a'' = Some 10"
    "BaseWeight ?s \<ge> 1" "RecoverTime ?s \<le> 1050" "RecoverTime ?s \<le> 1100"
    by (simp_all add: slow_manager_def SetFindTarget_def slow_heap_def)
  show ?thesis
    using slow_start_ramp [OF _ h(1-6), of "fst (updateEffectiveWeights 1050 slow_manager slow_heap)"
        "snd (updateEffectiveWeights 1050 slow_manager slow_heap)"]
      slow_start_ramp [OF _ h(1-5,7), of "fst (updateEffectiveWeights 1100 slow_manager slow_heap)"
        "snd (updateEffectiveWeights 1100 slow_manager slow_heap)"]
    by simp
qed

section \<open>The checker running beside the traffic\<close>

text \<open>A step is the completion of a probe, the outcome of a proxied request (\<open>ServeHTTP\<close> calls
  \<open>MarkUnhealthy\<close> and \<open>MarkHealthy\<close>), an availability test by a balancer, a change of a
  connection count, a tick or the end of the slow-start loop, or a start or stop.\<close>

inductive hc_step :: "rx \<Rightarrow> HealthChecker \<times> heap \<Rightarrow> HealthChecker \<times> heap \<Rightarrow> bool" for x where
  probe: "p \<in> set (hc_targets c) \<Longrightarrow> hc_step x (c, h) (checkTarget x now c h p resp)"
| failed: "p \<in> set (hc_targets c) \<Longrightarrow> hc_step x (c, h) (MarkUnhealthy now c h p)"
| served: "p \<in> set (hc_targets c) \<Longrightarrow> hc_step x (c, h) (MarkHealthy now c h p)"
| tested: "hc_step x (c, h) (c, h(p := snd (IsAvailable now (h p))))"
| connected: "hc_step x (c, h) (c, h(p := IncrementConnections (h p)))"
| released: "hc_step x (c, h) (c, h(p := DecrementConnections (h p)))"
| tick: "hc_slowStartManager c = Some m \<Longrightarrow> updateEffectiveWeights now m h = (m', h')
    \<Longrightarrow> hc_step x (c, h) (c\<lparr>hc_slowStartManager := Some m'\<rparr>, h')"
| loop_end: "hc_slowStartManager c = Some m
    \<Longrightarrow> hc_step x (c, h) (c\<lparr>hc_slowStartManager := Some (updateLoop_exit ch m)\<rparr>, h)"
| start: "hc_step x (c, h) (HealthChecker_Start c, h)"
| stop: "hc_step x (c, h) (HealthChecker_Stop c, h)"

inductive hc_reach :: "rx \<Rightarrow> HealthChecker \<times> heap \<Rightarrow> HealthChecker \<times> heap \<Rightarrow> bool" for x where
  here: "hc_reach x s s"
| more: "hc_reach x s s' \<Longrightarrow> hc_step x s' s'' \<Longrightarrow> hc_reach x s s''"

inductive_cases hc_stepE: "hc_step x (c, h) s"

lemma checkTarget_cases:
  "checkTarget x now c h p resp = MarkUnhealthy now c h p \<or> checkTarget x now c h p resp = MarkHealthy now c h p"
  by (auto simp: checkTarget_def split: option.splits prod.splits)

text \<open>To preserve a property it is enough to preserve it in the steps that are not probes.\<close>

lemma hc_step_cases:
  assumes "hc_step x (c, h) s"
  obtains (failed) p now where "p \<in> set (hc_targets c)" "s = MarkUnhealthy now c h p"
  | (served) p now where "p \<in> set (hc_targets c)" "s = MarkHealthy now c h p"
  | (tested) p now where "s = (c, h(p := snd (IsAvailable now (h p))))"
  | (connected) p where "s = (c, h(p := IncrementConnections (h p)))"
  | (released) p where "s = (c, h(p := DecrementConnections (h p)))"
  | (tick) m now m' h' where "hc_slowStartManager c = Some m" "updateEffectiveWeights now m h = (m', h')"
      "s = (c\<lparr>hc_slowStartManager := Some m'\<rparr>, h')"
  | (loop_end) m ch where "hc_slowStartManager c = Some m"
      "s = (c\<lparr>hc_slowStartManager := Some (updateLoop_exit ch m)\<rparr>, h)"
  | (start) "s = (HealthChecker_Start c, h)"
  | (stop) "s = (HealthChecker_Stop c, h)"
proof (rule hc_stepE [OF assms], goal_cases)
  case (1 p now resp)
  from checkTarget_cases [of x now c h p resp] show ?case
  proof
    assume e: "checkTarget x now c h p resp = MarkUnhealthy now c h p"
    show ?case by (rule failed [of p now]) (use 1 e in simp_all)
  next
    assume e: "checkTarget x now c h p resp = MarkHealthy now c h p"
    show ?case by (rule served [of p now]) (use 1 e in simp_all)
  qed
qed (use that in \<open>blast+\<close>)

lemma hc_reach_invariant:
  assumes "hc_reach x s0 s" and "I s0"
    and "\<And>c h s. I (c, h) \<Longrightarrow> hc_step x (c, h) s \<Longrightarrow> I s"
  shows "I s"
  using assms(1,2)
proof induction
  case (more s1 s2 s3)
  then show ?case using assms(3) [of "fst s2" "snd s2" s3] by simp
qed

section \<open>The failure counter never decides\<close>


lemma Mark_heap:
  "\<exists>t. snd (MarkUnhealthy now c h p) = h(p := t) \<and> \<not> Healthy t"
  "\<exists>t. snd (MarkHealthy now c h p) = h(p := t) \<and> (MaxFails t > 0 \<longrightarrow> failCount t = 0)"
  by (auto simp: MarkUnhealthy_def OnTargetUnhealthy_def RecordFailure_def MarkHealthy_def OnTargetHealthy_def
      RecordSuccess_def Let_def split: option.split)



definition breaker_heap :: heap where
  "breaker_heap = (\<lambda>p. (mk_target ''http://a'' 1 False)\<lparr>MaxFails := 1, FailTimeout := 60 * second\<rparr>)"

definition breaker_checker :: HealthChecker where
  "breaker_checker = \<lparr>hc_path = ''/health'', hc_targets = [10], hc_interval = 1, hc_timeout = 1, hc_running = False,
     hc_matcher = defaultHealthMatch, hc_slowStartManager = None, hc_loops = 0\<rparr>"


section \<open>Weights stay in range\<close>

definition tracked_ok :: "heap \<Rightarrow> ptr list \<Rightarrow> SlowStartManager \<Rightarrow> bool" where
  "tracked_ok h ps m \<longleftrightarrow> ss_findTarget m = Some ps \<and> (\<forall>(url, s) \<in> set (ss_targets m).
     \<forall>p \<in> set ps. URL (h p) = url \<longrightarrow> BaseWeight s = Weight (h p))"

definition weights_ok :: "HealthChecker \<times> heap \<Rightarrow> bool" where
  "weights_ok = (\<lambda>(c, h). distinct (map (URL \<circ> h) (hc_targets c))
     \<and> (\<forall>p \<in> set (hc_targets c). Weight (h p) \<ge> 1 \<longrightarrow> GetEffectiveWeight (h p) \<in> {1 .. Weight (h p)})
     \<and> (\<forall>m. hc_slowStartManager c = Some m \<longrightarrow> tracked_ok h (hc_targets c) m))"

definition weight_in_range :: "heap \<Rightarrow> ptr \<Rightarrow> bool" where
  "weight_in_range h p \<longleftrightarrow> (Weight (h p) \<ge> 1 \<longrightarrow> GetEffectiveWeight (h p) \<in> {1 .. Weight (h p)})"

lemma set_weight_in_range:
  assumes "weight_in_range h q" and "\<forall>p. findTargetByURL h ps url = Some p \<longrightarrow> w = 0 \<or> Weight (h p) < 1 \<or> w \<in> {1 .. Weight (h p)}"
  shows "weight_in_range (set_weight h (Some ps) url w) q"
  using assms by (auto simp: weight_in_range_def set_weight_def GetEffectiveWeight_def split: option.splits)

lemma ramp_loop_in_range:
  assumes "weight_in_range h q"
    and "\<forall>(url, s) \<in> set ts. \<forall>p \<in> set ps. URL (h p) = url \<longrightarrow> BaseWeight s = Weight (h p)"
  shows "weight_in_range (fst (ramp_loop now (Some ps) h ts)) q"
  using assms
proof (induction now "Some ps" h ts rule: ramp_loop.induct)
  case (2 now h url s rest)
  have "weight_in_range (set_weight h (Some ps) url (ramp_weight (now - RecoverTime s) s)) q"
    by (rule set_weight_in_range [OF 2(3)])
      (use 2(4) ramp_weight_bounds [of s] in \<open>fastforce dest: findTargetByURL_Some\<close>)
  then show ?case using 2 by (auto simp: Let_def frame_simps split: prod.splits)
qed simp

lemma finish_loop_in_range:
  "weight_in_range h q \<Longrightarrow> weight_in_range (fst (finish_loop (Some ps) h ts us)) q"
  by (induction "Some ps" h ts us rule: finish_loop.induct) (simp_all add: set_weight_in_range)

lemma weights_ok_alt:
  "weights_ok (c, h) \<longleftrightarrow> distinct (map (URL \<circ> h) (hc_targets c)) \<and> (\<forall>p \<in> set (hc_targets c). weight_in_range h p)
     \<and> (\<forall>m. hc_slowStartManager c = Some m \<longrightarrow> tracked_ok h (hc_targets c) m)"
  by (simp add: weights_ok_def weight_in_range_def)

text \<open>An update of one target that keeps its URL, its weight and its range keeps the invariant.\<close>

lemma weights_ok_upd:
  assumes "weights_ok (c, h)" and "URL t = URL (h p)" and "Weight t = Weight (h p)"
    and "weight_in_range h p \<Longrightarrow> weight_in_range (h(p := t)) p"
  shows "weights_ok (c, h(p := t))"
proof -
  have "URL \<circ> h(p := t) = URL \<circ> h" using assms(2) by auto
  moreover have "tracked_ok (h(p := t)) ps m = tracked_ok h ps m" for ps m
    using assms(2,3) by (auto simp: tracked_ok_def split: if_splits; blast)
  ultimately show ?thesis
    using assms(1,4) by (auto simp: weights_ok_alt weight_in_range_def)
qed

lemma weights_ok_upd_same:
  assumes "weights_ok (c, h)" and "URL t = URL (h p)" and "Weight t = Weight (h p)" and "EffectiveWeight t = EffectiveWeight (h p)"
  shows "weights_ok (c, h(p := t))"
  by (rule weights_ok_upd [OF assms(1-3)]) (use assms(3,4) in \<open>auto simp: weight_in_range_def GetEffectiveWeight_def split: if_splits\<close>)

lemma tracked_ok_delete:
  "tracked_ok h ps m \<Longrightarrow> tracked_ok h ps (m\<lparr>ss_targets := alist_delete u (ss_targets m)\<rparr>)"
  by (simp add: tracked_ok_def alist_delete_def)

lemma tracked_ok_lifecycle [simp]:
  "tracked_ok h ps (SlowStart_Start m) = tracked_ok h ps m" "tracked_ok h ps (SlowStart_Stop m) = tracked_ok h ps m"
  "tracked_ok h ps (updateLoop_exit ch m) = tracked_ok h ps m"
  by (simp_all add: tracked_ok_def SlowStart_Start_def SlowStart_Stop_def updateLoop_exit_def Let_def)

lemma weights_ok_manager:
  assumes "weights_ok (c, h)" and "hc_targets c' = hc_targets c"
    and "\<And>m. hc_slowStartManager c' = Some m \<Longrightarrow> tracked_ok h (hc_targets c) m"
  shows "weights_ok (c', h)"
  using assms by (simp add: weights_ok_alt)

lemma RecordFailure_weights [frame_simps]:
  "URL (snd (RecordFailure now t)) = URL t" "Weight (snd (RecordFailure now t)) = Weight t"
  "EffectiveWeight (snd (RecordFailure now t)) = EffectiveWeight t"
  by (simp_all add: RecordFailure_def Let_def)

lemma RecordSuccess_weights [frame_simps]:
  "URL (RecordSuccess t) = URL t" "Weight (RecordSuccess t) = Weight t"
  "EffectiveWeight (RecordSuccess t) = EffectiveWeight t" "SlowStart (RecordSuccess t) = SlowStart t"
  by (simp_all add: RecordSuccess_def)

lemma weights_ok_MarkUnhealthy:
  assumes "weights_ok (c, h)"
  shows "weights_ok (MarkUnhealthy now c h p)"
proof (cases "hc_slowStartManager c")
  case None
  then show ?thesis using assms
    by (simp add: MarkUnhealthy_def Let_def weights_ok_upd_same frame_simps)
next
  case (Some m)
  let ?t = "(snd (RecordFailure now ((h p)\<lparr>Healthy := False\<rparr>)))\<lparr>EffectiveWeight := 0\<rparr>"
  let ?m = "m\<lparr>ss_targets := alist_delete (URL (h p)) (ss_targets m)\<rparr>"
  have eq: "MarkUnhealthy now c h p = (c\<lparr>hc_slowStartManager := Some ?m\<rparr>, h(p := ?t))"
    using Some by (simp add: MarkUnhealthy_def OnTargetUnhealthy_def Let_def frame_simps)
  have "weights_ok (c, h(p := ?t))"
    by (rule weights_ok_upd [OF assms]) (simp_all add: frame_simps weight_in_range_def GetEffectiveWeight_def)
  then show ?thesis
    unfolding eq using Some
    by (rule_tac weights_ok_manager) (auto simp: weights_ok_alt intro!: tracked_ok_delete)
qed

lemma weights_ok_MarkHealthy:
  assumes "weights_ok (c, h)" and "p \<in> set (hc_targets c)"
  shows "weights_ok (MarkHealthy now c h p)"
proof (cases "\<exists>m. hc_slowStartManager c = Some m \<and> SlowStart (h p) > 0")
  case False
  then have "MarkHealthy now c h p = (c, h(p := RecordSuccess ((h p)\<lparr>Healthy := True\<rparr>)))"
    by (auto simp: MarkHealthy_def OnTargetHealthy_def frame_simps Let_def split: option.splits)
  then show ?thesis
    using weights_ok_upd_same [OF assms(1), of "RecordSuccess ((h p)\<lparr>Healthy := True\<rparr>)" p]
    by (simp add: frame_simps)
next
  case True
  then obtain m where m: "hc_slowStartManager c = Some m" "SlowStart (h p) > 0" by blast
  let ?t = "(RecordSuccess ((h p)\<lparr>Healthy := True\<rparr>))\<lparr>EffectiveWeight := 1\<rparr>"
  let ?st = "\<lparr>BaseWeight = Weight (h p), RecoverTime = now, ss_SlowStart = SlowStart (h p)\<rparr>"
  let ?m = "m\<lparr>ss_targets := alist_store (URL (h p)) ?st (ss_targets m)\<rparr>"
  have eq: "MarkHealthy now c h p = (c\<lparr>hc_slowStartManager := Some ?m\<rparr>, h(p := ?t))"
    using m by (simp add: MarkHealthy_def OnTargetHealthy_def Let_def frame_simps)
  have w: "weights_ok (c, h(p := ?t))"
    by (rule weights_ok_upd [OF assms(1)]) (simp_all add: frame_simps weight_in_range_def GetEffectiveWeight_def)
  have d: "distinct (map (URL \<circ> h) (hc_targets c))" using assms(1) by (simp add: weights_ok_alt)
  then have same: "q = p" if "q \<in> set (hc_targets c)" "URL (h q) = URL (h p)" for q
    using that assms(2) by (auto simp: distinct_map inj_on_def)
  have "tracked_ok (h(p := ?t)) (hc_targets c) ?m"
    using w m same by (auto simp: weights_ok_alt tracked_ok_def alist_store_def alist_delete_def frame_simps)
  with w show ?thesis
    unfolding eq by (rule_tac weights_ok_manager) auto
qed

lemma weights_ok_tick:
  assumes "weights_ok (c, h)" and "hc_slowStartManager c = Some m" and "updateEffectiveWeights now m h = (m', h')"
  shows "weights_ok (c\<lparr>hc_slowStartManager := Some m'\<rparr>, h')"
proof -
  let ?ps = "hc_targets c"
  have tr: "tracked_ok h ?ps m" using assms(1,2) by (simp add: weights_ok_alt)
  then have find: "ss_findTarget m = Some ?ps" by (simp add: tracked_ok_def)
  let ?r = "ramp_loop now (Some ?ps) h (ss_targets m)"
  have h': "h' = fst (finish_loop (Some ?ps) (fst ?r) (ss_targets m) (snd ?r))"
    and m': "m' = m\<lparr>ss_targets := filter (\<lambda>(k, _). k \<notin> set (snd ?r)) (ss_targets m)\<rparr>"
    using assms(3) find by (auto simp: updateEffectiveWeights_unfold Let_def finish_loop_targets)
  have url: "URL \<circ> h' = URL \<circ> h" by (auto simp: h' frame_simps)
  have "weight_in_range h' q" if "weight_in_range h q" for q
    unfolding h' by (intro finish_loop_in_range ramp_loop_in_range that) (use tr in \<open>simp add: tracked_ok_def\<close>)
  moreover have "tracked_ok h' ?ps m'"
    using tr by (auto simp: tracked_ok_def m' h' frame_simps)
  ultimately show ?thesis using assms(1) url by (simp add: weights_ok_alt)
qed

lemma weights_ok_step:
  assumes "weights_ok (c, h)" and "hc_step x (c, h) s"
  shows "weights_ok s"
  using assms(2)
proof (cases rule: hc_step_cases)
  case (failed p now)
  then show ?thesis using weights_ok_MarkUnhealthy [OF assms(1)] by simp
next
  case (served p now)
  then show ?thesis using weights_ok_MarkHealthy [OF assms(1)] by simp
next
  case (tested p now)
  then show ?thesis using assms(1) by (simp add: weights_ok_upd_same IsAvailable_def)
next
  case (tick m now m' h')
  then show ?thesis using weights_ok_tick [OF assms(1)] by simp
next
  case (loop_end m ch)
  then show ?thesis using assms(1) by (auto intro!: weights_ok_manager [OF assms(1)] simp: weights_ok_alt)
next
  case start
  then show ?thesis using assms(1)
    by (auto intro!: weights_ok_manager [OF assms(1)] simp: weights_ok_alt HealthChecker_Start_def)
next
  case stop
  then show ?thesis using assms(1)
    by (auto intro!: weights_ok_manager [OF assms(1)] simp: weights_ok_alt HealthChecker_Stop_def)
qed (use assms(1) in \<open>simp_all add: weights_ok_upd_same IncrementConnections_def DecrementConnections_def\<close>)

text \<open>Slow start never starves or over-weights a target. In every run of a checker created for
  targets with distinct URLs, starting with configured weights, the weight in effect of a target with a
  positive configured weight lies between 1 and that weight.\<close>

theorem slow_start_weight_range:
  assumes "NewHealthChecker x targets cfg = Some c0" and "distinct (map (URL \<circ> h0) targets)"
    and "\<forall>p \<in> set targets. EffectiveWeight (h0 p) = 0" and "hc_reach x (c0, h0) (c, h)"
    and "p \<in> set (hc_targets c)" and "Weight (h p) \<ge> 1"
  shows "GetEffectiveWeight (h p) \<in> {1 .. Weight (h p)}"
proof -
  have "weights_ok (c0, h0)"
    using assms(1-3)
    by (auto simp: weights_ok_alt NewHealthChecker_def Let_def weight_in_range_def GetEffectiveWeight_def tracked_ok_def
        SetFindTarget_def NewSlowStartManager_def split: option.splits if_splits)
  then have "weights_ok (c, h)"
    by (rule hc_reach_invariant [OF assms(4)]) (rule weights_ok_step)
  then show ?thesis using assms(5,6) by (simp add: weights_ok_alt weight_in_range_def)
qed

definition slow_config :: HealthCheckConfig where
  "slow_config = \<lparr>hcc_Interval = 0, hcc_Timeout = 0, hcc_Path = [], hcc_Match = None, hcc_SlowStart = 5\<rparr>"

theorem slow_start_weight_range_witness:
  "\<exists>x c h. hc_reach x (the (NewHealthChecker x [10] (Some slow_config)), slow_heap) (c, h)
     \<and> EffectiveWeight (h 10) = 1 \<and> Weight (h 10) = 9 \<and> GetEffectiveWeight (h 10) \<in> {1 .. 9}"
proof -
  let ?x = "undefined :: rx"
  let ?c = "the (NewHealthChecker ?x [10] (Some slow_config))" and ?h = slow_heap
  let ?s = "MarkHealthy 1000 ?c ?h 10"
  have n: "NewHealthChecker ?x [10] (Some slow_config) = Some ?c"
    and t: "hc_targets ?c = [10]" and m: "hc_slowStartManager ?c = Some (SetFindTarget [10] (NewSlowStartManager 5))"
    by (simp_all add: NewHealthChecker_def slow_config_def Let_def)
  have r: "hc_reach ?x (?c, ?h) (fst ?s, snd ?s)"
    by (rule hc_reach.more [OF hc_reach.here]) (simp add: hc_step.served t)
  have e: "EffectiveWeight (snd ?s 10) = 1" "Weight (snd ?s 10) = 9" "hc_targets (fst ?s) = [10]"
    by (simp_all add: MarkHealthy_def m t Let_def OnTargetHealthy_def RecordSuccess_def slow_heap_def)
  have "GetEffectiveWeight (snd ?s 10) \<in> {1 .. Weight (snd ?s 10)}"
    by (rule slow_start_weight_range [OF n _ _ r]) (simp_all add: e, simp_all add: slow_heap_def)
  then show ?thesis using r e by metis
qed

section \<open>One loop at a time\<close>

definition live_loops :: "SlowStartManager \<Rightarrow> nat list" where
  "live_loops m = filter (\<lambda>ch. ch \<notin> set (ss_closed m)) (ss_loops m)"

definition manager_inv :: "SlowStartManager \<Rightarrow> bool" where
  "manager_inv m \<longleftrightarrow> live_loops m = (if ss_running m then [ss_stopCh m] else [])
     \<and> (\<forall>ch \<in> set (ss_closed m). ch \<le> ss_stopCh m) \<and> (ss_running m \<longrightarrow> ss_stopCh m \<notin> set (ss_closed m))"

definition loops_ok :: "HealthChecker \<times> heap \<Rightarrow> bool" where
  "loops_ok s \<longleftrightarrow> hc_loops (fst s) = (if hc_running (fst s) then 1 else 0)
     \<and> (\<forall>m. hc_slowStartManager (fst s) = Some m \<longrightarrow> manager_inv m \<and> ss_running m = hc_running (fst s))"

lemma filter_remove1_closed: "\<not> P a \<Longrightarrow> filter P (remove1 a xs) = filter P xs"
  by (induction xs) auto

lemma manager_inv_ops:
  assumes "manager_inv m"
  shows "manager_inv (SlowStart_Start m)" and "manager_inv (SlowStart_Stop m)" and "manager_inv (updateLoop_exit ch m)"
proof -
  show "manager_inv (SlowStart_Start m)"
    using assms by (auto simp: manager_inv_def SlowStart_Start_def live_loops_def Let_def le_SucI dest!: bspec)
  have "filter (\<lambda>c. c \<noteq> ss_stopCh m \<and> c \<notin> set (ss_closed m)) (ss_loops m) = []"
    if "filter (\<lambda>c. c \<notin> set (ss_closed m)) (ss_loops m) = [ss_stopCh m]"
    using arg_cong [OF that, of "filter (\<lambda>c. c \<noteq> ss_stopCh m)"] by (simp add: conj_commute)
  then show "manager_inv (SlowStart_Stop m)"
    using assms by (auto simp: manager_inv_def SlowStart_Stop_def live_loops_def Let_def)
  show "manager_inv (updateLoop_exit ch m)"
    using assms by (simp add: manager_inv_def updateLoop_exit_def live_loops_def filter_remove1_closed)
qed

lemma manager_inv_targets [simp]: "manager_inv (m\<lparr>ss_targets := ts\<rparr>) = manager_inv m"
  by (simp add: manager_inv_def live_loops_def)

lemma Start_Stop_running [simp]: "ss_running (SlowStart_Start m)" "\<not> ss_running (SlowStart_Stop m)"
  by (simp_all add: SlowStart_Start_def SlowStart_Stop_def Let_def)

lemma loops_ok_step:
  assumes "loops_ok (c, h)" and "hc_step x (c, h) s"
  shows "loops_ok s"
  using assms(2)
proof (cases rule: hc_step_cases)
  case (failed p now)
  then show ?thesis using assms(1)
    by (auto simp: loops_ok_def MarkUnhealthy_def OnTargetUnhealthy_def Let_def split: option.splits)
next
  case (served p now)
  then show ?thesis using assms(1)
    by (auto simp: loops_ok_def MarkHealthy_def OnTargetHealthy_def Let_def split: option.splits)
next
  case (tick m now m' h')
  then show ?thesis using assms(1) by (auto simp: loops_ok_def updateEffectiveWeights_unfold Let_def)
next
  case (loop_end m ch)
  then show ?thesis using assms(1)
    by (auto simp: loops_ok_def manager_inv_ops) (auto simp: updateLoop_exit_def split: if_splits)
next
  case start
  then show ?thesis using assms(1) by (auto simp: loops_ok_def HealthChecker_Start_def manager_inv_ops)
next
  case stop
  then show ?thesis using assms(1) by (auto simp: loops_ok_def HealthChecker_Stop_def manager_inv_ops)
qed (use assms(1) in \<open>simp_all add: loops_ok_def\<close>)

text \<open>Starting and stopping is safe to repeat. In every run of a new checker, exactly one checking
  loop and at most one slow-start loop with an open stop channel run while the checker is
  running, none when it is stopped, and the channel such a loop selects on is the one that
  the next stop closes.\<close>

theorem health_loops:
  assumes "NewHealthChecker x targets cfg = Some c0" and "hc_reach x (c0, h0) (c, h)"
  shows "hc_loops c = (if hc_running c then 1 else 0)
    \<and> (\<forall>m. hc_slowStartManager c = Some m \<longrightarrow> live_loops m = (if hc_running c then [ss_stopCh m] else []))"
proof -
  have "loops_ok (c0, h0)"
    using assms(1)
    by (auto simp: loops_ok_def NewHealthChecker_def Let_def SetFindTarget_def NewSlowStartManager_def manager_inv_def
        live_loops_def split: option.splits if_splits)
  then have "loops_ok (c, h)"
    by (rule hc_reach_invariant [OF assms(2)]) (rule loops_ok_step)
  then show ?thesis by (auto simp: loops_ok_def manager_inv_def)
qed

theorem health_loops_witness:
  "\<exists>x c h. hc_reach x (the (NewHealthChecker x [10] (Some slow_config)), slow_heap) (c, h)
     \<and> hc_running c \<and> hc_loops c = 1"
proof -
  let ?x = "undefined :: rx"
  let ?c = "the (NewHealthChecker ?x [10] (Some slow_config))" and ?h = slow_heap
  have n: "NewHealthChecker ?x [10] (Some slow_config) = Some ?c" "\<not> hc_running ?c"
    by (simp_all add: NewHealthChecker_def slow_config_def Let_def)
  have r: "hc_reach ?x (?c, ?h) (HealthChecker_Start ?c, ?h)"
    by (rule hc_reach.more [OF hc_reach.here hc_step.start])
  have "hc_running (HealthChecker_Start ?c)" using n(2) by (simp add: HealthChecker_Start_def)
  then show ?thesis using r health_loops [OF n(1) r] by auto
qed

section \<open>Matching rules\<close>

text \<open>Header conditions can never hold. fasthttp delivers response header names in canonical
  form, so each contains an upper-case letter, while the matcher looks its lower-cased configured names up in
  the names as delivered: a configuration with a header condition marks the target
  unhealthy on every response.\<close>

theorem header_condition_never_holds:
  assumes "hm_Headers cfg \<noteq> []" and "NewHealthMatch x (Some cfg) = Some matcher" and "hc_matcher c = matcher"
    and "\<forall>(k, v) \<in> set hs. \<exists>ch \<in> set k. lower_char ch \<noteq> ch"
  shows "\<not> Healthy (snd (checkTarget x now c h p (Some (status, body, hs))) p)"
proof -
  have none: "header_map hs (ToLower k) = None" for k
  proof -
    have "ToLower k \<notin> fst ` set hs"
    proof
      assume "ToLower k \<in> fst ` set hs"
      then obtain ch where "ch \<in> set (ToLower k)" "lower_char ch \<noteq> ch" using assms(4) by fastforce
      then show False by (auto simp: ToLower_def lower_char_def)
    qed
    then show ?thesis by (simp add: header_map_def map_of_eq_None_iff)
  qed
  obtain k v rest where "hm_Headers cfg = (k, v) # rest" using assms(1) by (metis list.exhaust surj_pair)
  then have "\<not> HealthMatch_Match x matcher status body (header_map hs)"
    using assms(2) none by (auto simp: NewHealthMatch_def Let_def split: if_splits)
  then show ?thesis
    using assms(3) Mark_heap(1) [of now c h p] by (auto simp: checkTarget_def)
qed

definition json_match :: HealthMatchConfig where
  "json_match = \<lparr>hm_Status = [], hm_Body = [], hm_Headers = [(''Content-Type'', ''application/json'')]\<rparr>"

theorem header_condition_never_holds_witness:
  "\<exists>x m. NewHealthMatch x (Some json_match) = Some m
     \<and> \<not> Healthy (snd (checkTarget x 0 (breaker_checker\<lparr>hc_matcher := m\<rparr>) breaker_heap 10
           (Some (200, [], [(''Content-Type'', ''application/json'')]))) 10)"
proof -
  let ?x = "undefined :: rx"
  obtain m where m: "NewHealthMatch ?x (Some json_match) = Some m"
    by (simp add: NewHealthMatch_def json_match_def Let_def)
  have h: "hm_Headers json_match \<noteq> []" "hc_matcher (breaker_checker\<lparr>hc_matcher := m\<rparr>) = m"
    "\<forall>(k, v) \<in> set [(''Content-Type'', ''application/json'')]. \<exists>ch \<in> set k. lower_char ch \<noteq> ch"
    by (simp_all add: json_match_def, code_simp)
  show ?thesis
    using m header_condition_never_holds [OF h(1) m h(2,3)] by blast
qed

lemma Contains_dash: "Contains s ''-'' \<longleftrightarrow> CHR ''-'' \<in> set s"
  by (induction s) (auto simp: Contains_def HasPrefix_def)

lemma show_nat_ends: "\<not> trims (hd (show_nat n))" "\<not> trims (last (show_nat n))" "CHR ''-'' \<notin> set (show_nat n)"
  using show_nat_digits [of n] show_nat_chars is_digit_not_trims is_digit_not_sign
  by (metis hd_in_set, metis last_in_set, blast)

lemma TrimSpace_show_nat: "TrimSpace (show_nat n) = show_nat n"
  by (rule TrimSpace_id) (simp add: show_nat_ends)

lemma Atoi_show_nat: "n < 2 ^ 63 \<Longrightarrow> Atoi (show_nat n) = Some (int n)"
  using Atoi_show_int [of "int n"] by (simp add: show_int_def in_int64_def)

definition status_spec :: "nat \<times> nat option \<Rightarrow> string" where
  "status_spec = (\<lambda>(a, b). case b of None \<Rightarrow> show_nat a | Some b \<Rightarrow> show_nat a @ ''-'' @ show_nat b)"

lemma parse_status_spec:
  assumes "a < 2 ^ 63" and "\<forall>c. b = Some c \<longrightarrow> c < 2 ^ 63"
  shows "parseStatusRange (status_spec (a, b)) =
    Some \<lparr>sr_min = int a, sr_max = (case b of None \<Rightarrow> int a | Some c \<Rightarrow> int c)\<rparr>"
proof (cases b)
  case None
  then show ?thesis using assms(1)
    by (simp add: parseStatusRange_def status_spec_def TrimSpace_show_nat Contains_dash show_nat_ends Atoi_show_nat)
next
  case (Some c)
  let ?s = "show_nat a @ ''-'' @ show_nat c"
  have ne: "show_nat a \<noteq> []" "show_nat c \<noteq> []" using show_nat_digits by blast+
  have t: "TrimSpace ?s = ?s"
    by (rule TrimSpace_id) (use ne show_nat_ends(1,2) in \<open>simp add: hd_append\<close>)
  have "Split ?s (CHR ''-'') = [show_nat a, show_nat c]"
    using Split_append_sep [OF show_nat_ends(3) [of a], of "show_nat c"] Split_no_sep [OF show_nat_ends(3) [of c]] by simp
  then show ?thesis
    using Some assms t by (simp add: parseStatusRange_def status_spec_def TrimSpace_show_nat Contains_dash Atoi_show_nat)
qed

text \<open>A status specification that prints a code, or two codes joined by a dash, is read back as
  exactly that range, and the matcher built from a list of such specifications accepts exactly the
  codes of the ranges.\<close>

theorem status_ranges_accept:
  assumes "specs \<noteq> []" and "\<forall>(a, b) \<in> set specs. a < 2 ^ 63 \<and> (\<forall>c. b = Some c \<longrightarrow> c < 2 ^ 63)"
  shows "\<exists>m. NewHealthMatch x (Some \<lparr>hm_Status = map status_spec specs, hm_Body = [], hm_Headers = []\<rparr>) = Some m
    \<and> (HealthMatch_Match x m status body headers \<longleftrightarrow>
        (\<exists>(a, b) \<in> set specs. int a \<le> status \<and> status \<le> (case b of None \<Rightarrow> int a | Some c \<Rightarrow> int c)))"
proof -
  let ?r = "\<lambda>(a, b). \<lparr>sr_min = int a, sr_max = (case b of None \<Rightarrow> int a | Some c \<Rightarrow> int c)\<rparr>"
  have "List.map_filter parseStatusRange (map status_spec specs) = map ?r specs"
    using assms(2)
  proof (induction specs)
    case (Cons p ps)
    then show ?case using parse_status_spec [of "fst p" "snd p"]
      by (cases p) (simp add: map_filter_simps split: option.splits)
  qed (simp add: map_filter_simps)
  then show ?thesis
    using assms(1) by (force simp: NewHealthMatch_def matchStatus_def Let_def)
qed

theorem status_ranges_accept_witness:
  "\<exists>m. NewHealthMatch undefined (Some \<lparr>hm_Status = map status_spec [(200, Some 299), (301, None)], hm_Body = [], hm_Headers = []\<rparr>) = Some m
    \<and> HealthMatch_Match undefined m 204 [] Map.empty"
proof -
  let ?specs = "[(200, Some 299), (301, None)] :: (nat \<times> nat option) list"
  have h: "?specs \<noteq> []" "\<forall>(a, b) \<in> set ?specs. a < 2 ^ 63 \<and> (\<forall>c. b = Some c \<longrightarrow> c < 2 ^ 63)" by simp_all
  show ?thesis using status_ranges_accept [OF h, of undefined 204 "[]" Map.empty] by auto
qed

end
