(* ===== verification/NetIP.thy ===== *)
theory NetIP
  imports GoStrings
begin

text \<open>
  \<^verbatim>\<open>internal/netutil/ip.go\<close>, \<^verbatim>\<open>internal/utils/ipallowlist.go\<close> and the checks of
  \<^verbatim>\<open>internal/utils/httperror.go\<close>, over the part of Go's \<open>net\<close> package they use. An address is
  a 32-bit or a 128-bit word; as in Go (\<open>To4\<close>) an IPv4-mapped IPv6 address is the IPv4
  address. A network is an address with the number of leading bits of its mask.
\<close>

unbundle bit_operations_syntax

section \<open>Addresses\<close>

datatype IP = V4 "32 word" | V6 "128 word"

definition octet :: "32 word \<Rightarrow> nat \<Rightarrow> nat" where
  "octet w i = unat (drop_bit (8 * (3 - i)) w AND 255)"

definition v4_of_octets :: "nat list \<Rightarrow> 32 word" where
  "v4_of_octets os = foldl (\<lambda>acc d. acc * 256 + of_nat d) 0 os"

text \<open>An IPv4 field has one to three digits, no leading zero, and is at most 255.\<close>

definition parse_octet :: "string \<Rightarrow> nat option" where
  "parse_octet s =
     (case parse_digits s of
        None \<Rightarrow> None
      | Some n \<Rightarrow> (if length s > 3 \<or> (length s > 1 \<and> s ! 0 = CHR ''0'') \<or> n > 255 then None else Some n))"

fun sequence :: "'a option list \<Rightarrow> 'a list option" where
  "sequence [] = Some []"
| "sequence (None # xs) = None"
| "sequence (Some x # xs) = map_option (\<lambda>ys. x # ys) (sequence xs)"

definition parseIPv4 :: "string \<Rightarrow> (32 word) option" where
  "parseIPv4 s =
     (let parts = Split s (CHR ''.'')
      in if length parts \<noteq> 4 then None
         else map_option v4_of_octets (sequence (map parse_octet parts)))"

definition hex_val :: "char \<Rightarrow> nat option" where
  "hex_val c = (let n = (of_char c :: nat) in
     if 48 \<le> n \<and> n \<le> 57 then Some (n - 48)
     else if 97 \<le> n \<and> n \<le> 102 then Some (n - 87)
     else if 65 \<le> n \<and> n \<le> 70 then Some (n - 55) else None)"

definition parse_hextet :: "string \<Rightarrow> nat option" where
  "parse_hextet s =
     (if s = [] \<or> length s > 4 then None
      else map_option (foldl (\<lambda>acc d. acc * 16 + d) 0) (sequence (map hex_val s)))"

definition parse_groups :: "string \<Rightarrow> nat list option" where
  "parse_groups s = (if s = [] then Some [] else sequence (map parse_hextet (Split s (CHR '':''))))"

definition groups_with_v4 :: "string \<Rightarrow> nat list option" where
  "groups_with_v4 s =
     (if CHR ''.'' \<notin> set s then parse_groups s
      else
        let parts = Split s (CHR '':'');
            front = sequence (map parse_hextet (butlast parts));
            tail = parseIPv4 (last parts)
        in case (front, tail) of
             (Some fs, Some w) \<Rightarrow> Some (fs @ [octet w 0 * 256 + octet w 1, octet w 2 * 256 + octet w 3])
           | _ \<Rightarrow> None)"

definition v6_of_groups :: "nat list \<Rightarrow> 128 word" where
  "v6_of_groups gs = foldl (\<lambda>acc d. acc * 65536 + of_nat d) 0 gs"

definition parseIPv6 :: "string \<Rightarrow> (128 word) option" where
  "parseIPv6 s =
     (case StrIndex s ''::'' of
        None \<Rightarrow>
          (case groups_with_v4 s of
             Some gs \<Rightarrow> (if length gs = 8 then Some (v6_of_groups gs) else None)
           | None \<Rightarrow> None)
      | Some i \<Rightarrow>
          (case (parse_groups (take i s), groups_with_v4 (drop (i + 2) s)) of
             (Some ls, Some rs) \<Rightarrow>
               (if length ls + length rs < 8
                then Some (v6_of_groups (ls @ replicate (8 - length ls - length rs) 0 @ rs)) else None)
           | _ \<Rightarrow> None))"

definition To4 :: "128 word \<Rightarrow> IP" where
  "To4 w = (if drop_bit 32 w = 65535 then V4 (ucast w) else V6 w)"

definition ParseIP :: "string \<Rightarrow> IP option" where
  "ParseIP s =
     (if CHR '':'' \<in> set s then map_option To4 (parseIPv6 s)
      else if CHR ''.'' \<in> set s then map_option V4 (parseIPv4 s)
      else None)"

section \<open>Networks\<close>

record IPNet =
  net_IP :: IP
  net_ones :: nat

definition leading_mask :: "nat \<Rightarrow> 'a::len word" where
  "leading_mask n = NOT (mask (LENGTH('a) - n))"

fun IPNet_Contains :: "IPNet \<Rightarrow> IP \<Rightarrow> bool" where
  "IPNet_Contains n (V4 ip) =
     (case net_IP n of V4 nn \<Rightarrow> nn AND leading_mask (net_ones n) = ip AND leading_mask (net_ones n) | V6 _ \<Rightarrow> False)"
| "IPNet_Contains n (V6 ip) =
     (case net_IP n of V6 nn \<Rightarrow> nn AND leading_mask (net_ones n) = ip AND leading_mask (net_ones n) | V4 _ \<Rightarrow> False)"

text \<open>\<open>net.ParseCIDR\<close>: the address and the network. A mask given for an IPv4-mapped IPv6 address
  counts the 96 mapped bits.\<close>

definition mask_ip :: "nat \<Rightarrow> IP \<Rightarrow> IP" where
  "mask_ip n ip = (case ip of V4 w \<Rightarrow> V4 (w AND leading_mask n) | V6 w \<Rightarrow> V6 (w AND leading_mask n))"

definition net_ParseCIDR :: "string \<Rightarrow> (IP \<times> IPNet) option" where
  "net_ParseCIDR s =
     (case IndexByte s (CHR ''/'') of
        None \<Rightarrow> None
      | Some i \<Rightarrow>
          let addr = take i s; bits = drop (i + 1) s; six = (CHR '':'' \<in> set addr)
          in case (ParseIP addr, parse_digits bits) of
               (Some ip, Some n) \<Rightarrow>
                 if n > (if six then 128 else 32) then None
                 else let ones = (case ip of V4 _ \<Rightarrow> (if six then n - 96 else n) | V6 _ \<Rightarrow> n)
                      in Some (ip, \<lparr>net_IP = mask_ip ones ip, net_ones = ones\<rparr>)
             | _ \<Rightarrow> None)"

section \<open>\<open>utils/ipallowlist.go\<close>\<close>

definition is_v4 :: "IP \<Rightarrow> bool" where
  "is_v4 ip = (case ip of V4 _ \<Rightarrow> True | V6 _ \<Rightarrow> False)"

definition ParseCIDR :: "string \<Rightarrow> IPNet option" where
  "ParseCIDR cidr0 =
     (let cidr = (if Contains cidr0 ''/'' then Some cidr0
                  else case ParseIP cidr0 of
                         None \<Rightarrow> None
                       | Some ip \<Rightarrow> Some (if is_v4 ip then cidr0 @ ''/32'' else cidr0 @ ''/128''))
      in case cidr of
           None \<Rightarrow> None
         | Some c \<Rightarrow> (case net_ParseCIDR c of None \<Rightarrow> None | Some (ip, network) \<Rightarrow> Some (network\<lparr>net_IP := ip\<rparr>)))"

fun parse_allow_loop :: "string list \<Rightarrow> IPNet list \<Rightarrow> IPNet list option" where
  "parse_allow_loop [] result = Some result"
| "parse_allow_loop (cidr # rest) result =
     (if cidr = ''localhost'' then
        (let r1 = (case ParseCIDR ''127.0.0.1/32'' of Some n \<Rightarrow> result @ [n] | None \<Rightarrow> result);
             r2 = (case ParseCIDR ''::1/128'' of Some n \<Rightarrow> r1 @ [n] | None \<Rightarrow> r1)
         in parse_allow_loop rest r2)
      else case net_ParseCIDR cidr of
        Some (_, network) \<Rightarrow> parse_allow_loop rest (result @ [network])
      | None \<Rightarrow>
          (case ParseIP cidr of
             None \<Rightarrow> None
           | Some ip \<Rightarrow>
               let ipNet = (if is_v4 ip then ParseCIDR (cidr @ ''/32'') else ParseCIDR (cidr @ ''/128''))
               in parse_allow_loop rest (case ipNet of Some n \<Rightarrow> result @ [n] | None \<Rightarrow> result)))"

text \<open>An error is \<open>None\<close>; the empty list gives the nil slice.\<close>

definition ParseIPAllowList :: "string list \<Rightarrow> IPNet list option" where
  "ParseIPAllowList allow = (if allow = [] then Some [] else parse_allow_loop allow [])"

definition IPInAllowList :: "IP \<Rightarrow> IPNet list \<Rightarrow> bool" where
  "IPInAllowList ip allowList =
     (if allowList = [] then False else list_ex (\<lambda>n. IPNet_Contains n ip) allowList)"

section \<open>Printing addresses\<close>

text \<open>\<open>writeUint8\<close> writes the digits of a byte, \<open>formatIPv4\<close> the four of them with dots.\<close>

definition writeUint8 :: "nat \<Rightarrow> string" where
  "writeUint8 v =
     (if v \<ge> 100 then [digit_char (v div 100), digit_char ((v div 10) mod 10), digit_char (v mod 10)]
      else if v \<ge> 10 then [digit_char (v div 10), digit_char (v mod 10)]
      else [digit_char v])"

definition formatIPv4 :: "32 word \<Rightarrow> string" where
  "formatIPv4 w =
     writeUint8 (octet w 0) @ ''.'' @ writeUint8 (octet w 1) @ ''.'' @ writeUint8 (octet w 2) @ ''.'' @ writeUint8 (octet w 3)"

definition hex_digit :: "nat \<Rightarrow> char" where
  "hex_digit d = (if d < 10 then char_of (48 + d) else char_of (87 + d))"

definition show_hextet :: "nat \<Rightarrow> string" where
  "show_hextet n =
     (let ds = [n div 4096 mod 16, n div 256 mod 16, n div 16 mod 16]
      in map hex_digit (dropWhile (\<lambda>d. d = 0) ds) @ [hex_digit (n mod 16)])"

definition v6_groups :: "128 word \<Rightarrow> nat list" where
  "v6_groups w = map (\<lambda>i. unat (drop_bit (16 * (7 - i)) w AND 65535)) [0..<8]"

text \<open>The first longest run of at least two zero groups is abbreviated: \<open>zero_run gs i\<close> is the length of
  the run that starts at \<open>i\<close>.\<close>

definition zero_run :: "nat list \<Rightarrow> nat \<Rightarrow> nat" where
  "zero_run gs i = length (takeWhile (\<lambda>g. g = 0) (drop i gs))"

definition longest_run :: "nat list \<Rightarrow> nat \<times> nat" where
  "longest_run gs = foldl (\<lambda>(i, n) j. if zero_run gs j > n then (j, zero_run gs j) else (i, n)) (0, 1) [0..<length gs]"

definition join_groups :: "nat list \<Rightarrow> string" where
  "join_groups gs = concat (map (\<lambda>(i, g). (if i = 0 then [] else '':'') @ show_hextet g) (enumerate 0 gs))"

definition formatIPv6 :: "128 word \<Rightarrow> string" where
  "formatIPv6 w =
     (let gs = v6_groups w; (i, n) = longest_run gs
      in if n < 2 then join_groups gs
         else join_groups (take i gs) @ ''::'' @ join_groups (drop (i + n) gs))"

definition IP_String :: "IP \<Rightarrow> string" where
  "IP_String ip = (case ip of V4 w \<Rightarrow> formatIPv4 w | V6 w \<Rightarrow> formatIPv6 w)"

section \<open>The client of a request: \<open>netutil/ip.go\<close>\<close>

text \<open>What the functions read of \<open>fasthttp.RequestCtx\<close>: header values (the empty string when
  absent) and the remote address, a TCP address or one of another kind that only prints.\<close>

datatype remote_addr = TCPAddr "IP option" | OtherAddr string

record RequestCtx =
  Peek :: "string \<Rightarrow> string"
  RemoteAddr :: "remote_addr option"

definition ExtractClientIP :: "RequestCtx \<Rightarrow> string" where
  "ExtractClientIP ctx =
     (if Peek ctx ''X-Forwarded-For'' \<noteq> [] then TrimSpace (Split (Peek ctx ''X-Forwarded-For'') (CHR '','') ! 0)
      else if Peek ctx ''X-Real-IP'' \<noteq> [] then Peek ctx ''X-Real-IP''
      else case RemoteAddr ctx of
             Some (TCPAddr (Some ip)) \<Rightarrow> IP_String ip
           | Some (TCPAddr None) \<Rightarrow> ''<nil>''
           | Some (OtherAddr s) \<Rightarrow> s
           | None \<Rightarrow> [])"

definition GetRemoteAddrIP :: "RequestCtx \<Rightarrow> IP option" where
  "GetRemoteAddrIP ctx = (case RemoteAddr ctx of Some (TCPAddr ip) \<Rightarrow> ip | _ \<Rightarrow> None)"

definition ExtractClientIPNet :: "RequestCtx \<Rightarrow> IP option" where
  "ExtractClientIPNet ctx =
     (let xff = Peek ctx ''X-Forwarded-For''; xri = Peek ctx ''X-Real-IP'';
          first = (if xff \<noteq> [] then ParseIP (TrimSpace (Split xff (CHR '','') ! 0)) else None);
          second = (if xri \<noteq> [] then ParseIP xri else None)
      in if first \<noteq> None then first
         else if second \<noteq> None then second
         else GetRemoteAddrIP ctx)"

definition any_contains :: "IPNet list \<Rightarrow> IP \<Rightarrow> bool" where
  "any_contains nets ip = list_ex (\<lambda>n. IPNet_Contains n ip) nets"

text \<open>The loop over the forwarded addresses runs from the right.\<close>

fun rightmost_untrusted :: "IPNet list \<Rightarrow> string list \<Rightarrow> IP option" where
  "rightmost_untrusted trusted [] = None"
| "rightmost_untrusted trusted (s # ss) =
     (case ParseIP (TrimSpace s) of
        Some ip \<Rightarrow> (if any_contains trusted ip then rightmost_untrusted trusted ss else Some ip)
      | None \<Rightarrow> rightmost_untrusted trusted ss)"

definition ExtractClientIPWithTrustedProxies :: "RequestCtx \<Rightarrow> IPNet list \<Rightarrow> IP option" where
  "ExtractClientIPWithTrustedProxies ctx trustedProxies =
     (case GetRemoteAddrIP ctx of
        None \<Rightarrow> None
      | Some remoteIP \<Rightarrow>
          if trustedProxies = [] then Some remoteIP
          else if \<not> any_contains trustedProxies remoteIP then Some remoteIP
          else if Peek ctx ''X-Forwarded-For'' \<noteq> [] then
            (case rightmost_untrusted trustedProxies (rev (Split (Peek ctx ''X-Forwarded-For'') (CHR '',''))) of
               Some ip \<Rightarrow> Some ip
             | None \<Rightarrow> Some remoteIP)
          else Some remoteIP)"

section \<open>Checks of \<open>utils/httperror.go\<close>\<close>

definition CheckIPAccess :: "RequestCtx \<Rightarrow> IPNet list \<Rightarrow> IPNet list \<Rightarrow> bool" where
  "CheckIPAccess ctx allowed trustedProxies =
     (if allowed = [] then True
      else case ExtractClientIPWithTrustedProxies ctx trustedProxies of
             None \<Rightarrow> False
           | Some clientIP \<Rightarrow> IPInAllowList clientIP allowed)"

record CacheAPIAuthConfig =
  auth_Type :: string
  auth_Token :: string

definition CheckTokenAuth :: "RequestCtx \<Rightarrow> CacheAPIAuthConfig \<Rightarrow> bool" where
  "CheckTokenAuth ctx auth =
     (if auth_Type auth = [] \<or> auth_Type auth = ''none'' then True
      else if auth_Type auth = ''token'' then
        (let authStr = Peek ctx ''Authorization''
         in if authStr = [] then False
            else if HasPrefix authStr ''Bearer '' then TrimPrefix authStr ''Bearer '' = auth_Token auth
            else authStr = auth_Token auth)
      else False)"

section \<open>Printing and reading IPv4 addresses\<close>

lemma octet_div: "octet w i = unat w div 2 ^ (8 * (3 - i)) mod 256"
proof -
  have "drop_bit (8 * (3 - i)) w AND 255 = take_bit 8 (drop_bit (8 * (3 - i)) w)"
    by (simp add: take_bit_eq_mask mask_eq_decr_exp)
  then have "octet w i = take_bit 8 (drop_bit (8 * (3 - i)) (unat w))"
    by (simp only: octet_def unsigned_take_bit_eq unat_drop_bit_eq)
  then show ?thesis by (simp add: take_bit_eq_mod drop_bit_eq_div)
qed

lemma octet_less: "octet w i < 256"
  by (simp add: octet_div)

lemma nat_base_256:
  fixes n :: nat
  assumes "n < 2 ^ 32"
  shows "((n div 2 ^ 24 mod 256 * 256 + n div 2 ^ 16 mod 256) * 256 + n div 2 ^ 8 mod 256) * 256 + n mod 256 = n"
proof -
  have d: "n div 2 ^ 16 = n div 2 ^ 8 div 256" "n div 2 ^ 24 = n div 2 ^ 8 div 256 div 256" "n div 2 ^ 8 = n div 256"
    by (simp_all flip: div_mult2_eq)
  have "n div 256 div 256 div 256 < 256" using assms by (simp flip: div_mult2_eq)
  then have "n div 256 div 256 div 256 mod 256 = n div 256 div 256 div 256" by simp
  then show ?thesis unfolding d by simp
qed

lemma v4_octets: "v4_of_octets [octet w 0, octet w 1, octet w 2, octet w 3] = w"
proof -
  have lt: "unat w < 2 ^ 32" using unsigned_less [of w, where ?'a = nat] by simp
  have "v4_of_octets [octet w 0, octet w 1, octet w 2, octet w 3]
      = of_nat (((octet w 0 * 256 + octet w 1) * 256 + octet w 2) * 256 + octet w 3)"
    by (simp add: v4_of_octets_def)
  also have "((octet w 0 * 256 + octet w 1) * 256 + octet w 2) * 256 + octet w 3 = unat w"
    using nat_base_256 [OF lt] by (simp only: octet_div) (simp only: diff_self_eq_0 mult_0_right div_by_1 power_0 numeral_eq_Suc minus_nat.diff_0 minus_nat.diff_Suc, simp)
  finally show ?thesis by simp
qed

lemma writeUint8_show: "v < 256 \<Longrightarrow> writeUint8 v = show_nat v"
  by (subst show_nat.simps, subst show_nat.simps, subst show_nat.simps)
    (auto simp: writeUint8_def div_mult2_eq [symmetric])

lemma show_nat_lead: "n \<ge> 10 \<Longrightarrow> hd (show_nat n) \<noteq> CHR ''0''"
proof (induction n rule: show_nat.induct)
  case (1 n)
  have step: "show_nat n = show_nat (n div 10) @ [digit_char (n mod 10)]"
    using 1(2) by (subst show_nat.simps) simp
  have ne: "show_nat (n div 10) \<noteq> []" using show_nat_digits by blast
  show ?case
  proof (cases "n div 10 \<ge> 10")
    case True
    then show ?thesis using 1 step ne by simp
  next
    case False
    then have "show_nat (n div 10) = [digit_char (n div 10)]" by (simp add: show_nat.simps)
    moreover have "digit_char (n div 10) \<noteq> CHR ''0''"
    proof
      assume "digit_char (n div 10) = CHR ''0''"
      then have "digit_val (digit_char (n div 10)) = digit_val (CHR ''0'')" by simp
      then have "n div 10 = digit_val (CHR ''0'')" using False by simp
      then have "n div 10 = 0" by (simp add: digit_val_def)
      then show False using 1(2) by simp
    qed
    ultimately show ?thesis using step by simp
  qed
qed

lemma parse_octet_write: "v < 256 \<Longrightarrow> parse_octet (writeUint8 v) = Some v"
proof -
  assume v: "v < 256"
  have len: "length (writeUint8 v) \<le> 3" "length (writeUint8 v) > 1 \<longrightarrow> v \<ge> 10" by (simp_all add: writeUint8_def)
  have "writeUint8 v ! 0 \<noteq> CHR ''0''" if "v \<ge> 10"
    using show_nat_lead [OF that] v by (metis writeUint8_show hd_conv_nth show_nat_digits)
  then show ?thesis
    using v len by (auto simp: parse_octet_def writeUint8_show)
qed

lemma writeUint8_sep: "c \<in> {CHR ''.'', CHR '':'', CHR ''/'', CHR '',''} \<Longrightarrow> v < 256 \<Longrightarrow> c \<notin> set (writeUint8 v)"
  using show_nat_chars [of c v] by (auto simp: writeUint8_show is_digit_def)

lemma formatIPv4_sep: "c \<in> {CHR '':'', CHR ''/'', CHR '',''} \<Longrightarrow> c \<notin> set (formatIPv4 w)"
  using writeUint8_sep [OF _ octet_less] by (auto simp: formatIPv4_def)

lemma parseIPv4_format: "parseIPv4 (formatIPv4 w) = Some w"
proof -
  let ?o = "\<lambda>i. writeUint8 (octet w i)"
  have "Split (formatIPv4 w) (CHR ''.'') = [?o 0, ?o 1, ?o 2, ?o 3]"
    using writeUint8_sep [OF _ octet_less, of "CHR ''.''"]
    by (simp add: formatIPv4_def Split_append_sep Split_no_sep)
  then show ?thesis
    using v4_octets [of w] by (simp add: parseIPv4_def parse_octet_write octet_less)
qed

text \<open>An IPv4 address that the fast formatter prints is read back as the same address.\<close>

theorem ipv4_roundtrip: "ParseIP (formatIPv4 w) = Some (V4 w)"
proof -
  have "CHR ''.'' \<in> set (formatIPv4 w)" by (simp add: formatIPv4_def)
  then show ?thesis
    using formatIPv4_sep [of "CHR '':''" w] by (simp add: ParseIP_def parseIPv4_format)
qed

section \<open>Networks\<close>

lemma leading_mask_eq:
  fixes x y :: "'a::len word"
  shows "x AND leading_mask n = y AND leading_mask n \<longleftrightarrow> drop_bit (LENGTH('a) - n) x = drop_bit (LENGTH('a) - n) y"
proof -
  let ?k = "LENGTH('a) - n"
  have l: "bit (z AND leading_mask n) i \<longleftrightarrow> bit z i \<and> ?k \<le> i" for z :: "'a word" and i
    by (auto simp: leading_mask_def bit_simps dest: bit_imp_le_length)
  have d: "bit (drop_bit ?k z) i \<longleftrightarrow> bit z (?k + i)" for z :: "'a word" and i
    by (simp add: bit_simps)
  show ?thesis
  proof
    assume e: "x AND leading_mask n = y AND leading_mask n"
    show "drop_bit ?k x = drop_bit ?k y"
    proof (rule bit_eqI)
      fix i
      show "bit (drop_bit ?k x) i \<longleftrightarrow> bit (drop_bit ?k y) i"
        using arg_cong [OF e, of "\<lambda>z. bit z (?k + i)"] unfolding l d by simp
    qed
  next
    assume e: "drop_bit ?k x = drop_bit ?k y"
    show "x AND leading_mask n = y AND leading_mask n"
    proof (rule bit_eqI)
      fix i
      show "bit (x AND leading_mask n) i \<longleftrightarrow> bit (y AND leading_mask n) i"
        using arg_cong [OF e, of "\<lambda>z. bit z (i - ?k)"] unfolding l d by (auto simp: add.commute)
    qed
  qed
qed

lemma net_ParseCIDR_v4:
  assumes "n \<le> 32"
  shows "net_ParseCIDR (formatIPv4 w @ ''/'' @ show_nat n)
    = Some (V4 w, \<lparr>net_IP = V4 (w AND leading_mask n), net_ones = n\<rparr>)"
proof -
  have i: "IndexByte (formatIPv4 w @ ''/'' @ show_nat n) (CHR ''/'') = Some (length (formatIPv4 w))"
    using IndexByte_append [OF formatIPv4_sep [of "CHR ''/''" w], of "show_nat n"] by simp
  have p: "ParseIP (formatIPv4 w) = Some (V4 w)"
    using formatIPv4_sep [of "CHR '':''" w] by (simp add: ParseIP_def parseIPv4_format) (simp add: formatIPv4_def)
  show ?thesis
    using assms formatIPv4_sep [of "CHR '':''" w]
    unfolding net_ParseCIDR_def i by (simp add: p mask_ip_def Let_def)
qed

lemma Contains_slash: "Contains (a @ CHR ''/'' # b) ''/''"
  by (induction a) (auto simp: Contains_def HasPrefix_def)

text \<open>A configured network \<open>a.b.c.d/n\<close> covers exactly the IPv4 addresses that agree with it in the
  first \<open>n\<close> bits, although the parser stores the address unmasked.\<close>

theorem cidr_covers_prefix:
  assumes "n \<le> 32"
  shows "\<exists>net. ParseCIDR (formatIPv4 w @ ''/'' @ show_nat n) = Some net \<and> net_IP net = V4 w
    \<and> (\<forall>ip. IPNet_Contains net ip \<longleftrightarrow> (\<exists>v. ip = V4 v \<and> drop_bit (32 - n) v = drop_bit (32 - n) w))"
proof -
  have c: "Contains (formatIPv4 w @ ''/'' @ show_nat n) ''/''" by (simp add: Contains_slash)
  have "ParseCIDR (formatIPv4 w @ ''/'' @ show_nat n) = Some \<lparr>net_IP = V4 w, net_ones = n\<rparr>"
    unfolding ParseCIDR_def Let_def using c net_ParseCIDR_v4 [OF assms, of w] by simp
  moreover have "IPNet_Contains \<lparr>net_IP = V4 w, net_ones = n\<rparr> ip \<longleftrightarrow> (\<exists>v. ip = V4 v \<and> drop_bit (32 - n) v = drop_bit (32 - n) w)" for ip
    using leading_mask_eq [of w n] by (cases ip) (auto simp: eq_commute)
  ultimately show ?thesis by simp
qed

theorem cidr_covers_prefix_witness:
  "\<exists>net. ParseCIDR (formatIPv4 0x0A010203 @ ''/'' @ show_nat 8) = Some net
     \<and> IPNet_Contains net (V4 0x0AFFFFFF) \<and> \<not> IPNet_Contains net (V4 0x0B000000)"
proof -
  have h: "8 \<le> (32::nat)" by simp
  have d: "drop_bit (32 - 8) (0x0AFFFFFF :: 32 word) = drop_bit (32 - 8) 0x0A010203"
    "drop_bit (32 - 8) (0x0B000000 :: 32 word) \<noteq> drop_bit (32 - 8) 0x0A010203" by code_simp+
  then show ?thesis using cidr_covers_prefix [OF h, of "0x0A010203"] by blast
qed

section \<open>Who the client is\<close>

lemma Split_append: "\<exists>fs. Split (a @ c # b) c = fs @ Split b c"
proof (induction a)
  case (Cons x a)
  then obtain fs where fs: "Split (a @ c # b) c = fs @ Split b c" by blast
  show ?case
  proof (cases fs)
    case Nil
    have "length (Split (a @ c # b) c) > length (Split b c)"
      by (induction a) (auto split: list.splits)
    then show ?thesis using Nil fs by simp
  next
    case (Cons f fs')
    then show ?thesis
      using fs by (cases "x = c") (simp_all add: exI [of _ "[] # f # fs'"] exI [of _ "(x # f) # fs'"])
  qed
qed (simp add: exI [of _ "[[]]"])

lemma rightmost_untrusted_append:
  "rightmost_untrusted trusted (xs @ ys) =
     (case rightmost_untrusted trusted xs of Some ip \<Rightarrow> Some ip | None \<Rightarrow> rightmost_untrusted trusted ys)"
  by (induction xs) (auto split: option.splits)

lemma rightmost_untrusted_None:
  "rightmost_untrusted trusted ss = None \<longleftrightarrow>
     (\<forall>s \<in> set ss. \<forall>ip. ParseIP (TrimSpace s) = Some ip \<longrightarrow> any_contains trusted ip)"
  by (induction ss) (auto split: option.splits)

text \<open>C22. A client cannot choose the address it is judged by. When the connection does not come from a
  trusted proxy, the forwarding header makes no difference. When it does, whatever the client
  wrote in front of the part of the header that the trusted proxies appended makes no difference, as soon as
  that part names one address outside the trusted networks.\<close>

theorem client_ip_not_spoofable:
  assumes "RemoteAddr ctx' = RemoteAddr ctx"
    and "(\<forall>ip. GetRemoteAddrIP ctx = Some ip \<longrightarrow> \<not> any_contains trusted ip)
      \<or> (Peek ctx ''X-Forwarded-For'' = appended \<and> appended \<noteq> []
         \<and> Peek ctx' ''X-Forwarded-For'' = forged @ CHR '','' # appended
         \<and> (\<exists>s \<in> set (Split appended (CHR '','')). \<exists>ip. ParseIP (TrimSpace s) = Some ip \<and> \<not> any_contains trusted ip))"
  shows "ExtractClientIPWithTrustedProxies ctx' trusted = ExtractClientIPWithTrustedProxies ctx trusted"
proof -
  have r: "GetRemoteAddrIP ctx' = GetRemoteAddrIP ctx" using assms(1) by (simp add: GetRemoteAddrIP_def)
  from assms(2) show ?thesis
  proof
    assume "\<forall>ip. GetRemoteAddrIP ctx = Some ip \<longrightarrow> \<not> any_contains trusted ip"
    then show ?thesis
      using r by (auto simp: ExtractClientIPWithTrustedProxies_def split: option.splits)
  next
    assume a: "Peek ctx ''X-Forwarded-For'' = appended \<and> appended \<noteq> []
         \<and> Peek ctx' ''X-Forwarded-For'' = forged @ CHR '','' # appended
         \<and> (\<exists>s \<in> set (Split appended (CHR '','')). \<exists>ip. ParseIP (TrimSpace s) = Some ip \<and> \<not> any_contains trusted ip)"
    obtain fs where fs: "Split (forged @ CHR '','' # appended) (CHR '','') = fs @ Split appended (CHR '','')"
      using Split_append by blast
    obtain ip where "rightmost_untrusted trusted (rev (Split appended (CHR '',''))) = Some ip"
      using a rightmost_untrusted_None [of trusted "rev (Split appended (CHR '',''))"] by auto
    then show ?thesis
      using a r fs by (simp add: ExtractClientIPWithTrustedProxies_def rightmost_untrusted_append split: option.split)
  qed
qed

definition proxied_ctx :: "string \<Rightarrow> RequestCtx" where
  "proxied_ctx xff = \<lparr>Peek = (\<lambda>n. if n = ''X-Forwarded-For'' then xff else []), RemoteAddr = Some (TCPAddr (Some (V4 0x0A000001)))\<rparr>"

theorem client_ip_not_spoofable_witness:
  "ExtractClientIPWithTrustedProxies (proxied_ctx ''6.6.6.6,9.9.9.9'') [\<lparr>net_IP = V4 0x0A000000, net_ones = 8\<rparr>]
   = ExtractClientIPWithTrustedProxies (proxied_ctx ''9.9.9.9'') [\<lparr>net_IP = V4 0x0A000000, net_ones = 8\<rparr>]"
proof (rule client_ip_not_spoofable)
  let ?t = "[\<lparr>net_IP = V4 0x0A000000, net_ones = 8\<rparr>]"
  show "RemoteAddr (proxied_ctx ''6.6.6.6,9.9.9.9'') = RemoteAddr (proxied_ctx ''9.9.9.9'')"
    by (simp add: proxied_ctx_def)
  have "ParseIP (TrimSpace ''9.9.9.9'') = Some (V4 0x09090909)" by code_simp
  moreover have "\<not> any_contains ?t (V4 0x09090909)" by code_simp
  moreover have "Split ''9.9.9.9'' (CHR '','') = [''9.9.9.9'']" by code_simp
  ultimately have "\<exists>s \<in> set (Split ''9.9.9.9'' (CHR '','')). \<exists>ip. ParseIP (TrimSpace s) = Some ip \<and> \<not> any_contains ?t ip"
    by auto
  then show "(\<forall>ip. GetRemoteAddrIP (proxied_ctx ''9.9.9.9'') = Some ip \<longrightarrow> \<not> any_contains ?t ip)
      \<or> (Peek (proxied_ctx ''9.9.9.9'') ''X-Forwarded-For'' = ''9.9.9.9'' \<and> ''9.9.9.9'' \<noteq> []
         \<and> Peek (proxied_ctx ''6.6.6.6,9.9.9.9'') ''X-Forwarded-For'' = ''6.6.6.6'' @ CHR '','' # ''9.9.9.9''
         \<and> (\<exists>s \<in> set (Split ''9.9.9.9'' (CHR '','')). \<exists>ip. ParseIP (TrimSpace s) = Some ip \<and> \<not> any_contains ?t ip))"
    by (simp add: proxied_ctx_def)
qed

end
