(* ===== verification/Access.thy ===== *)
theory Access
  imports NetIP
begin

text \<open>
  \<^verbatim>\<open>internal/middleware/security/access.go\<close> and \<^verbatim>\<open>geoip.go\<close>: IP access control. The GeoIP database
  and the LRU cache are third-party packages: \<open>db\<close> gives the ISO code of an address or an
  error, \<open>cache_get\<close> and \<open>cache_add\<close> are the cache's operations on a state of any type. A middleware
  answers a request itself or passes it to the next handler.
\<close>

datatype verdict = SendError int string | CallNext

section \<open>GeoIP lookup\<close>

text \<open>Go's \<open>net.IP\<close> may be nil: it is in no network, is not private and prints as \<open><nil>\<close>.\<close>

definition Contains_ip :: "IPNet \<Rightarrow> IP option \<Rightarrow> bool" where
  "Contains_ip n ip = (case ip of None \<Rightarrow> False | Some a \<Rightarrow> IPNet_Contains n a)"

definition String_ip :: "IP option \<Rightarrow> string" where
  "String_ip ip = (case ip of None \<Rightarrow> ''<nil>'' | Some a \<Rightarrow> IP_String a)"

record cachedCountry =
  cc_expires :: nanos
  cc_country :: string

record 'c geo_env =
  db_Country :: "IP option \<Rightarrow> string option"
  cache_get :: "'c \<Rightarrow> string \<Rightarrow> cachedCountry option \<times> 'c"
  cache_add :: "'c \<Rightarrow> string \<Rightarrow> cachedCountry \<Rightarrow> 'c"

record 'c GeoIPLookup =
  geo_cache :: 'c
  geo_privateIPBehavior :: string
  geo_ttl :: nanos

definition privateBlocks :: "string list" where
  "privateBlocks = [''10.0.0.0/8'', ''172.16.0.0/12'', ''192.168.0.0/16'', ''127.0.0.0/8'']"

definition IsLoopback6 :: "128 word \<Rightarrow> bool" where
  "IsLoopback6 w \<longleftrightarrow> w = 1"

definition IsLinkLocalUnicast6 :: "128 word \<Rightarrow> bool" where
  "IsLinkLocalUnicast6 w \<longleftrightarrow> drop_bit 118 w = 0x3FA"

definition IsLinkLocalMulticast6 :: "128 word \<Rightarrow> bool" where
  "IsLinkLocalMulticast6 w \<longleftrightarrow> drop_bit 112 w AND 0xFF0F = 0xFF02"

definition isPrivateIP :: "IP option \<Rightarrow> bool" where
  "isPrivateIP ip =
     (if list_ex (\<lambda>cidr. case net_ParseCIDR cidr of None \<Rightarrow> False | Some (_, network) \<Rightarrow> Contains_ip network ip) privateBlocks
      then True
      else case ip of
             Some (V6 w) \<Rightarrow> IsLoopback6 w \<or> IsLinkLocalUnicast6 w \<or> IsLinkLocalMulticast6 w
           | _ \<Rightarrow> False)"

text \<open>The lookup tests the cache under the read lock and again under the write lock.\<close>

definition LookupCountry ::
  "'c geo_env \<Rightarrow> nanos \<Rightarrow> 'c GeoIPLookup \<Rightarrow> IP option \<Rightarrow> string option \<times> 'c GeoIPLookup" where
  "LookupCountry env now g ip =
     (if isPrivateIP ip \<and> geo_privateIPBehavior g = ''allow'' then (Some ''PRIVATE_ALLOW'', g)
      else if isPrivateIP ip \<and> geo_privateIPBehavior g = ''deny'' then (Some ''PRIVATE_DENY'', g)
      else if isPrivateIP ip \<and> geo_privateIPBehavior g = ''bypass'' then (None, g)
      else
        let ipStr = String_ip ip;
            fresh = (\<lambda>c. case c of Some cached \<Rightarrow> now < cc_expires cached | None \<Rightarrow> False);
            (c1, s1) = cache_get env (geo_cache g) ipStr
        in if fresh c1 then (Some (cc_country (the c1)), g\<lparr>geo_cache := s1\<rparr>)
           else let (c2, s2) = cache_get env s1 ipStr
                in if fresh c2 then (Some (cc_country (the c2)), g\<lparr>geo_cache := s2\<rparr>)
                   else case db_Country env ip of
                          None \<Rightarrow> (None, g\<lparr>geo_cache := s2\<rparr>)
                        | Some code \<Rightarrow>
                            let isoCode = (if code = [] then ''UNKNOWN'' else code)
                            in (Some isoCode,
                                g\<lparr>geo_cache := cache_add env s2 ipStr \<lparr>cc_expires = now + geo_ttl g, cc_country = isoCode\<rparr>\<rparr>))"

section \<open>Access control\<close>

datatype Action = ActionAllow | ActionDeny

record GeoIPConfig =
  gc_Enabled :: bool
  gc_Database :: string
  gc_CacheSize :: int
  gc_CacheTTL :: nanos
  gc_PrivateIPBehavior :: string
  gc_AllowCountries :: "string list"
  gc_DenyCountries :: "string list"
  gc_Default :: string

record AccessConfig =
  ac_Allow :: "string list"
  ac_Deny :: "string list"
  ac_TrustedProxies :: "string list"
  ac_Default :: string
  ac_GeoIP :: GeoIPConfig

record 'c AccessControl =
  geoip :: "'c GeoIPLookup option"
  allowList :: "IPNet list"
  denyList :: "IPNet list"
  trustedProxies :: "IPNet list"
  geoipConfig :: "GeoIPConfig option"
  defaultAction :: Action

definition parseCIDRList :: "string list \<Rightarrow> IPNet list option" where
  "parseCIDRList cidrs = sequence (map ParseCIDR cidrs)"

text \<open>\<open>open_geo\<close> stands for \<open>NewGeoIPLookup\<close>'s opening of the database and creation of the cache, which
  may fail.\<close>

definition NewGeoIPLookup ::
  "(string \<Rightarrow> int \<Rightarrow> 'c option) \<Rightarrow> string \<Rightarrow> int \<Rightarrow> nanos \<Rightarrow> string \<Rightarrow> 'c GeoIPLookup option" where
  "NewGeoIPLookup open_geo dbPath cacheSize ttl behavior =
     (if dbPath = [] then None
      else case open_geo dbPath cacheSize of
             None \<Rightarrow> None
           | Some c \<Rightarrow> Some \<lparr>geo_cache = c, geo_privateIPBehavior = (if behavior = [] then ''allow'' else behavior), geo_ttl = ttl\<rparr>)"

definition parse_default :: "string \<Rightarrow> Action option" where
  "parse_default s =
     (let d = ToLower s
      in if d = ''allow'' \<or> d = [] then Some ActionAllow else if d = ''deny'' then Some ActionDeny else None)"

definition NewAccessControl ::
  "(string \<Rightarrow> int \<Rightarrow> 'c option) \<Rightarrow> AccessConfig option \<Rightarrow> 'c AccessControl option" where
  "NewAccessControl open_geo cfg0 =
     (case cfg0 of
        None \<Rightarrow> None
      | Some cfg \<Rightarrow>
          (case (parseCIDRList (ac_Allow cfg), parseCIDRList (ac_Deny cfg), parseCIDRList (ac_TrustedProxies cfg),
                 parse_default (ac_Default cfg)) of
             (Some allow, Some deny, Some trusted, Some action) \<Rightarrow>
               let ac = \<lparr>geoip = None, allowList = allow, denyList = deny, trustedProxies = trusted,
                         geoipConfig = None, defaultAction = action\<rparr>;
                   gc = ac_GeoIP cfg
               in if gc_Enabled gc \<and> gc_Database gc \<noteq> [] then
                    (case NewGeoIPLookup open_geo (gc_Database gc)
                            (if gc_CacheSize gc \<le> 0 then 10000 else gc_CacheSize gc)
                            (if gc_CacheTTL gc \<le> 0 then 3600 * second else gc_CacheTTL gc) (gc_PrivateIPBehavior gc) of
                       None \<Rightarrow> None
                     | Some g \<Rightarrow> Some (ac\<lparr>geoip := Some g, geoipConfig := Some gc\<rparr>))
                  else Some ac
           | _ \<Rightarrow> None))"

datatype geo_outcome = Denied | Country string | NoCountry

definition geo_outcome :: "'c geo_env \<Rightarrow> nanos \<Rightarrow> 'c AccessControl \<Rightarrow> IP option \<Rightarrow> geo_outcome \<times> 'c AccessControl" where
  "geo_outcome env now ac ip =
     (case (geoip ac, geoipConfig ac) of
        (Some g, Some gc) \<Rightarrow>
          if gc_Enabled gc then
            (case LookupCountry env now g ip of
               (None, g') \<Rightarrow> (NoCountry, ac\<lparr>geoip := Some g'\<rparr>)
             | (Some c, g') \<Rightarrow>
                 (if c = ''PRIVATE_DENY'' then (Denied, ac\<lparr>geoip := Some g'\<rparr>)
                  else if c \<noteq> ''PRIVATE_ALLOW'' then
                    (if c \<in> set (gc_DenyCountries gc) then (Denied, ac\<lparr>geoip := Some g'\<rparr>)
                     else (Country c, ac\<lparr>geoip := Some g'\<rparr>))
                  else (NoCountry, ac\<lparr>geoip := Some g'\<rparr>)))
          else (NoCountry, ac)
      | _ \<Rightarrow> (NoCountry, ac))"

definition Access_Check :: "'c geo_env \<Rightarrow> nanos \<Rightarrow> 'c AccessControl \<Rightarrow> IP option \<Rightarrow> bool \<times> 'c AccessControl" where
  "Access_Check env now ac ip =
     (if list_ex (\<lambda>n. Contains_ip n ip) (denyList ac) then (False, ac)
      else
        case geo_outcome env now ac ip of
          (Denied, ac') \<Rightarrow> (False, ac')
        | (outcome, ac') \<Rightarrow>
            if list_ex (\<lambda>n. Contains_ip n ip) (allowList ac) then (True, ac')
            else if (case outcome of
                       Country c \<Rightarrow> (case geoipConfig ac of Some gc \<Rightarrow> c \<in> set (gc_AllowCountries gc) | None \<Rightarrow> False)
                     | _ \<Rightarrow> False) then (True, ac')
            else (defaultAction ac = ActionAllow, ac'))"

definition UpdateList :: "string \<Rightarrow> string list \<Rightarrow> 'c AccessControl \<Rightarrow> bool \<times> 'c AccessControl" where
  "UpdateList target cidrs ac =
     (case parseCIDRList cidrs of
        None \<Rightarrow> (False, ac)
      | Some newList \<Rightarrow>
          if target = ''allow'' then (True, ac\<lparr>allowList := newList\<rparr>)
          else if target = ''deny'' then (True, ac\<lparr>denyList := newList\<rparr>)
          else (False, ac))"

definition UpdateAllowList :: "string list \<Rightarrow> 'c AccessControl \<Rightarrow> bool \<times> 'c AccessControl" where
  "UpdateAllowList cidrs ac = UpdateList ''allow'' cidrs ac"

definition UpdateDenyList :: "string list \<Rightarrow> 'c AccessControl \<Rightarrow> bool \<times> 'c AccessControl" where
  "UpdateDenyList cidrs ac = UpdateList ''deny'' cidrs ac"

definition SetDefault :: "string \<Rightarrow> 'c AccessControl \<Rightarrow> bool \<times> 'c AccessControl" where
  "SetDefault action ac =
     (if ToLower action = ''allow'' then (True, ac\<lparr>defaultAction := ActionAllow\<rparr>)
      else if ToLower action = ''deny'' then (True, ac\<lparr>defaultAction := ActionDeny\<rparr>)
      else (False, ac))"

definition getClientIP :: "'c AccessControl \<Rightarrow> RequestCtx \<Rightarrow> IP option" where
  "getClientIP ac ctx = ExtractClientIPWithTrustedProxies ctx (trustedProxies ac)"

definition Access_Process :: "'c geo_env \<Rightarrow> nanos \<Rightarrow> 'c AccessControl \<Rightarrow> RequestCtx \<Rightarrow> verdict \<times> 'c AccessControl" where
  "Access_Process env now ac ctx =
     (case Access_Check env now ac (getClientIP ac ctx) of
        (False, ac') \<Rightarrow> (SendError 403 ''Forbidden: Access denied'', ac')
      | (True, ac') \<Rightarrow> (CallNext, ac'))"

section \<open>Decisions\<close>

lemma sequence_Some: "sequence xs = Some ys \<longleftrightarrow> xs = map Some ys"
  by (induction xs arbitrary: ys rule: sequence.induct) (auto simp: Cons_eq_map_conv)

lemma parseCIDRList_mem:
  "parseCIDRList cidrs = Some nets \<Longrightarrow> cidr \<in> set cidrs \<Longrightarrow> \<exists>n \<in> set nets. ParseCIDR cidr = Some n"
  by (auto simp: parseCIDRList_def sequence_Some) (metis image_eqI image_iff list.set_map)

lemma NewAccessControl_lists:
  assumes "NewAccessControl open_geo (Some cfg) = Some ac"
  shows "parseCIDRList (ac_Allow cfg) = Some (allowList ac)" "parseCIDRList (ac_Deny cfg) = Some (denyList ac)"
    "parseCIDRList (ac_TrustedProxies cfg) = Some (trustedProxies ac)" "parse_default (ac_Default cfg) = Some (defaultAction ac)"
  using assms by (auto simp: NewAccessControl_def Let_def split: option.splits if_splits)

lemma ParseCIDR_v4:
  assumes "n \<le> 32"
  shows "ParseCIDR (formatIPv4 w @ ''/'' @ show_nat n) = Some \<lparr>net_IP = V4 w, net_ones = n\<rparr>"
  unfolding ParseCIDR_def Let_def
  using net_ParseCIDR_v4 [OF assms, of w] Contains_slash [of "formatIPv4 w" "show_nat n"] by simp

text \<open>A denied network is denied, whatever else is configured. If the configuration loads and its
  deny list names \<open>a.b.c.d/n\<close>, a direct client whose address agrees in the first \<open>n\<close> bits gets 403 and the
  next handler is not called, for every allow list, country rule, default action and forwarding header.\<close>

theorem access_denied_network:
  assumes "NewAccessControl open_geo (Some cfg) = Some ac" and "n \<le> 32"
    and "formatIPv4 w @ ''/'' @ show_nat n \<in> set (ac_Deny cfg)"
    and "RemoteAddr ctx = Some (TCPAddr (Some (V4 v)))" and "drop_bit (32 - n) v = drop_bit (32 - n) w"
    and "\<not> any_contains (trustedProxies ac) (V4 v)"
  shows "fst (Access_Process env now ac ctx) = SendError 403 ''Forbidden: Access denied''"
proof -
  obtain net where net: "net \<in> set (denyList ac)" "ParseCIDR (formatIPv4 w @ ''/'' @ show_nat n) = Some net"
    using parseCIDRList_mem [OF NewAccessControl_lists(2) [OF assms(1)] assms(3)] by blast
  then have "net = \<lparr>net_IP = V4 w, net_ones = n\<rparr>" using ParseCIDR_v4 [OF assms(2), of w] by simp
  then have "IPNet_Contains net (V4 v)" using leading_mask_eq [of w n v] assms(5) by simp
  moreover have "getClientIP ac ctx = Some (V4 v)"
    using assms(4,6) by (simp add: getClientIP_def ExtractClientIPWithTrustedProxies_def GetRemoteAddrIP_def)
  ultimately have "list_ex (\<lambda>n. Contains_ip n (getClientIP ac ctx)) (denyList ac)"
    using net(1) by (auto simp: list_ex_iff Contains_ip_def)
  then show ?thesis by (simp add: Access_Process_def Access_Check_def)
qed

definition lan_config :: AccessConfig where
  "lan_config = \<lparr>ac_Allow = [], ac_Deny = [formatIPv4 0x0A000000 @ ''/'' @ show_nat 8], ac_TrustedProxies = [],
     ac_Default = ''allow'',
     ac_GeoIP = \<lparr>gc_Enabled = False, gc_Database = [], gc_CacheSize = 0, gc_CacheTTL = 0, gc_PrivateIPBehavior = [],
       gc_AllowCountries = [], gc_DenyCountries = [], gc_Default = []\<rparr>\<rparr>"

theorem access_denied_network_witness:
  "\<exists>(ac :: unit AccessControl). NewAccessControl (\<lambda>_ _. None) (Some lan_config) = Some ac
     \<and> fst (Access_Process undefined 0 ac (proxied_ctx ''9.9.9.9'')) = SendError 403 ''Forbidden: Access denied''"
proof -
  let ?ac = "\<lparr>geoip = None, allowList = [], denyList = [\<lparr>net_IP = V4 0x0A000000, net_ones = 8\<rparr>], trustedProxies = [],
    geoipConfig = None, defaultAction = ActionAllow\<rparr> :: unit AccessControl"
  have a: "ToLower ''allow'' = ''allow''" by code_simp
  have n: "NewAccessControl (\<lambda>_ _. None) (Some lan_config) = Some ?ac"
    using ParseCIDR_v4 [of 8 "0x0A000000"] a
    by (simp add: NewAccessControl_def lan_config_def parseCIDRList_def parse_default_def)
  have m: "formatIPv4 0x0A000000 @ ''/'' @ show_nat 8 \<in> set (ac_Deny lan_config)" by (simp add: lan_config_def)
  have r: "RemoteAddr (proxied_ctx ''9.9.9.9'') = Some (TCPAddr (Some (V4 0x0A000001)))" by (simp add: proxied_ctx_def)
  have d: "drop_bit (32 - 8) (0x0A000001 :: 32 word) = drop_bit (32 - 8) 0x0A000000" by code_simp
  have u: "\<not> any_contains (trustedProxies ?ac) (V4 0x0A000001)" by (simp add: any_contains_def)
  show ?thesis using n access_denied_network [OF n _ m r d u] by auto
qed

lemma parsed_contains:
  assumes "parseCIDRList cs = Some nets"
  shows "list_ex (\<lambda>n. Contains_ip n (Some ip)) nets \<longleftrightarrow> (\<exists>c \<in> set cs. \<exists>n. ParseCIDR c = Some n \<and> IPNet_Contains n ip)"
proof -
  have "map ParseCIDR cs = map Some nets" using assms by (simp add: parseCIDRList_def sequence_Some)
  then have "set (map ParseCIDR cs) = set (map Some nets)" by (rule arg_cong)
  then have e: "ParseCIDR ` set cs = Some ` set nets" by simp
  have "(\<exists>c \<in> set cs. \<exists>n. ParseCIDR c = Some n \<and> IPNet_Contains n ip)
      \<longleftrightarrow> (\<exists>x \<in> ParseCIDR ` set cs. \<exists>n. x = Some n \<and> IPNet_Contains n ip)" by auto
  also have "\<dots> \<longleftrightarrow> (\<exists>n \<in> set nets. IPNet_Contains n ip)" unfolding e by auto
  finally show ?thesis by (simp add: list_ex_iff Contains_ip_def)
qed

text \<open>C25. Who gets in. With the list rules only, a loaded configuration lets a client through exactly when
  no deny network covers it and either an allow network does or the default action is to allow;
  a list update that fails changes nothing.\<close>

theorem access_decision:
  assumes "NewAccessControl open_geo (Some cfg) = Some ac" and "\<not> gc_Enabled (ac_GeoIP cfg)"
  shows "(fst (Access_Check env now ac (Some ip)) \<longleftrightarrow>
      \<not> (\<exists>c \<in> set (ac_Deny cfg). \<exists>n. ParseCIDR c = Some n \<and> IPNet_Contains n ip)
      \<and> ((\<exists>c \<in> set (ac_Allow cfg). \<exists>n. ParseCIDR c = Some n \<and> IPNet_Contains n ip)
         \<or> ToLower (ac_Default cfg) \<noteq> ''deny''))
    \<and> (fst (UpdateList target cidrs ac) \<or> snd (UpdateList target cidrs ac) = ac)"
proof
  note lists = NewAccessControl_lists [OF assms(1)]
  have "geoip ac = None"
    using assms by (auto simp: NewAccessControl_def Let_def split: option.splits if_splits)
  then have g: "geo_outcome env now ac (Some ip) = (NoCountry, ac)" by (simp add: geo_outcome_def)
  have d: "defaultAction ac = ActionAllow \<longleftrightarrow> ToLower (ac_Default cfg) \<noteq> ''deny''"
    using lists(4) by (auto simp: parse_default_def Let_def split: if_splits)
  show "fst (Access_Check env now ac (Some ip)) \<longleftrightarrow>
      \<not> (\<exists>c \<in> set (ac_Deny cfg). \<exists>n. ParseCIDR c = Some n \<and> IPNet_Contains n ip)
      \<and> ((\<exists>c \<in> set (ac_Allow cfg). \<exists>n. ParseCIDR c = Some n \<and> IPNet_Contains n ip)
         \<or> ToLower (ac_Default cfg) \<noteq> ''deny'')"
    unfolding parsed_contains [OF lists(1), symmetric] parsed_contains [OF lists(2), symmetric]
    by (simp add: Access_Check_def g d)
  show "fst (UpdateList target cidrs ac) \<or> snd (UpdateList target cidrs ac) = ac"
    by (simp add: UpdateList_def split: option.split)
qed

theorem access_decision_witness:
  "\<exists>(ac :: unit AccessControl). NewAccessControl (\<lambda>_ _. None) (Some (lan_config\<lparr>ac_Deny := [], ac_Default := ''deny''\<rparr>)) = Some ac
     \<and> \<not> fst (Access_Check undefined 0 ac (Some (V4 1)))"
proof -
  let ?cfg = "lan_config\<lparr>ac_Deny := [], ac_Default := ''deny''\<rparr>"
  let ?ac = "\<lparr>geoip = None, allowList = [], denyList = [], trustedProxies = [],
    geoipConfig = None, defaultAction = ActionDeny\<rparr> :: unit AccessControl"
  have a: "ToLower ''deny'' = ''deny''" by code_simp
  have n: "NewAccessControl (\<lambda>_ _. None) (Some ?cfg) = Some ?ac"
    using a by (simp add: NewAccessControl_def lan_config_def parseCIDRList_def parse_default_def)
  have g: "\<not> gc_Enabled (ac_GeoIP ?cfg)" by (simp add: lan_config_def)
  have e: "ac_Allow ?cfg = []" "ac_Default ?cfg = ''deny''" by (simp_all add: lan_config_def)
  show ?thesis using n access_decision [OF n g, of undefined 0 "V4 1"] e a by auto
qed

end
