(* ===== verification/RateLimit.thy ===== *)
theory RateLimit
  imports Complex_Main Access Hash
begin

text \<open>
  \<^verbatim>\<open>internal/middleware/security/ratelimit.go\<close> and \<^verbatim>\<open>sliding_window.go\<close>: the token-bucket limiter, the
  sliding-window limiter in its two modes and the connection limiter. An operation reads the clock once (\<open>now\<close>). Token counts,
  which the code keeps in \<open>float64\<close>, are rational numbers: the model is exact where the code
  rounds. The sixteen shards are a function from the shard number to its map. The
  unsynchronised part of the connection limiter is a step relation over threads.
\<close>

section \<open>Token buckets\<close>

record tokenBucket =
  lastUpdate :: nanos
  tokens :: rat

datatype KeyKind = ByIP | ByHeader

record RateLimiter =
  shards :: "nat \<Rightarrow> (string \<rightharpoonup> tokenBucket)"
  rl_keyFunc :: KeyKind
  rate :: rat
  burst :: rat
  rl_trustedProxies :: "IPNet list"
  cleanupRunning :: bool

record RateLimitConfig =
  RequestRate :: int
  Burst :: int
  rlc_Key :: string
  Algorithm :: string
  SlidingWindow :: int
  SlidingWindowMode :: string
  rlc_ConnLimit :: int

datatype ratelimit_error = NilConfig | NonPositiveRate | BurstBelowRate | InvalidProxy | UnknownKey | UnknownAlgorithm
  | NonPositiveMax

definition newTokenBucketLimiter :: "RateLimitConfig \<Rightarrow> string list \<Rightarrow> ratelimit_error + RateLimiter" where
  "newTokenBucketLimiter cfg trusted =
     (if Burst cfg < RequestRate cfg then Inl BurstBelowRate
      else case sequence (map (\<lambda>c. map_option snd (net_ParseCIDR c)) trusted) of
        None \<Rightarrow> Inl InvalidProxy
      | Some nets \<Rightarrow>
          let rl = (\<lambda>k. \<lparr>shards = (\<lambda>_. Map.empty), rl_keyFunc = k, rate = of_int (RequestRate cfg),
                         burst = of_int (Burst cfg), rl_trustedProxies = nets, cleanupRunning = True\<rparr>)
          in if rlc_Key cfg = ''ip'' \<or> rlc_Key cfg = [] then Inr (rl ByIP)
             else if rlc_Key cfg = ''header'' then Inr (rl ByHeader)
             else Inl UnknownKey)"

definition getShard :: "string \<Rightarrow> nat" where
  "getShard key = unat (FNV64a key mod 16)"

definition consume :: "nanos \<Rightarrow> rat \<Rightarrow> rat \<Rightarrow> tokenBucket \<Rightarrow> bool \<times> tokenBucket" where
  "consume now r b tb =
     (let elapsed = of_int (now - lastUpdate tb) / 1000000000;
          t = tokens tb + elapsed * r;
          t = (if t > b then b else t)
      in if t \<ge> 1 then (True, \<lparr>lastUpdate = now, tokens = t - 1\<rparr>)
         else (False, \<lparr>lastUpdate = now, tokens = t\<rparr>))"

definition set_bucket :: "string \<Rightarrow> tokenBucket option \<Rightarrow> RateLimiter \<Rightarrow> RateLimiter" where
  "set_bucket key b rl =
     rl\<lparr>shards := (shards rl)(getShard key := (shards rl (getShard key))(key := b))\<rparr>"

definition Allow :: "nanos \<Rightarrow> string \<Rightarrow> RateLimiter \<Rightarrow> bool \<times> RateLimiter" where
  "Allow now key rl =
     (let bucket = (case shards rl (getShard key) key of
            Some tb \<Rightarrow> tb
          | None \<Rightarrow> \<lparr>lastUpdate = now, tokens = burst rl\<rparr>)
      in case consume now (rate rl) (burst rl) bucket of
           (ok, tb) \<Rightarrow> (ok, set_bucket key (Some tb) rl))"

definition getRetryAfter :: "string \<Rightarrow> RateLimiter \<Rightarrow> int" where
  "getRetryAfter key rl =
     (case shards rl (getShard key) key of
        None \<Rightarrow> 1
      | Some bucket \<Rightarrow>
          let waitTime = 1 / rate rl;
              waitTime = (if tokens bucket < 0 then waitTime + (- tokens bucket) / rate rl else waitTime)
          in \<lfloor>waitTime\<rfloor> + 1)"

definition RateLimiter_Reset :: "string \<Rightarrow> RateLimiter \<Rightarrow> RateLimiter" where
  "RateLimiter_Reset key rl = set_bucket key None rl"

definition RateLimiter_ResetAll :: "RateLimiter \<Rightarrow> RateLimiter" where
  "RateLimiter_ResetAll rl = rl\<lparr>shards := (\<lambda>i. if i < 16 then Map.empty else shards rl i)\<rparr>"

definition RateLimiter_Cleanup :: "nanos \<Rightarrow> nanos \<Rightarrow> RateLimiter \<Rightarrow> RateLimiter" where
  "RateLimiter_Cleanup now maxAge rl =
     rl\<lparr>shards := (\<lambda>i. if i < 16 then
           (\<lambda>key. case shards rl i key of
              Some tb \<Rightarrow> (if now - lastUpdate tb > maxAge then None else Some tb)
            | None \<Rightarrow> None)
         else shards rl i)\<rparr>"

definition StopCleanup :: "RateLimiter \<Rightarrow> RateLimiter" where
  "StopCleanup rl = rl\<lparr>cleanupRunning := False\<rparr>"

section \<open>Keys\<close>

definition or_unknown :: "IP option \<Rightarrow> string" where
  "or_unknown ip = (case ip of None \<Rightarrow> ''unknown'' | Some a \<Rightarrow> IP_String a)"

definition keyByIP :: "RequestCtx \<Rightarrow> string" where
  "keyByIP ctx = or_unknown (ExtractClientIPNet ctx)"

definition keyByHeader :: "RequestCtx \<Rightarrow> string" where
  "keyByHeader ctx = (let key = Peek ctx ''X-RateLimit-Key'' in if key = [] then keyByIP ctx else key)"

definition RateLimiter_keyByIP :: "RateLimiter \<Rightarrow> RequestCtx \<Rightarrow> string" where
  "RateLimiter_keyByIP rl ctx = or_unknown (ExtractClientIPWithTrustedProxies ctx (rl_trustedProxies rl))"

definition RateLimiter_keyByHeader :: "RateLimiter \<Rightarrow> RequestCtx \<Rightarrow> string" where
  "RateLimiter_keyByHeader rl ctx =
     (let key = Peek ctx ''X-RateLimit-Key'' in if key = [] then RateLimiter_keyByIP rl ctx else key)"

definition parseKeyFunc :: "string \<Rightarrow> ratelimit_error + KeyKind" where
  "parseKeyFunc keyType =
     (if keyType = ''ip'' \<or> keyType = [] then Inr ByIP else if keyType = ''header'' then Inr ByHeader else Inl UnknownKey)"

definition package_key :: "KeyKind \<Rightarrow> RequestCtx \<Rightarrow> string" where
  "package_key k ctx = (case k of ByIP \<Rightarrow> keyByIP ctx | ByHeader \<Rightarrow> keyByHeader ctx)"

definition RateLimiter_key :: "RateLimiter \<Rightarrow> RequestCtx \<Rightarrow> string" where
  "RateLimiter_key rl ctx = (case rl_keyFunc rl of ByIP \<Rightarrow> RateLimiter_keyByIP rl ctx | ByHeader \<Rightarrow> RateLimiter_keyByHeader rl ctx)"

text \<open>A denied request also gets its \<open>Retry-After\<close> header, the second component.\<close>

definition RateLimiter_Process :: "nanos \<Rightarrow> RateLimiter \<Rightarrow> RequestCtx \<Rightarrow> (verdict \<times> string option) \<times> RateLimiter" where
  "RateLimiter_Process now rl ctx =
     (let key = RateLimiter_key rl ctx
      in case Allow now key rl of
           (True, rl') \<Rightarrow> ((CallNext, None), rl')
         | (False, rl') \<Rightarrow> ((SendError 429 ''Too Many Requests'', Some (show_int (getRetryAfter key rl'))), rl'))"

section \<open>Sliding windows\<close>

record windowCounter =
  timestamps :: "nanos list"
  wc_count :: int

record SlidingWindowLimiter =
  sw_buckets :: "nat \<Rightarrow> (string \<rightharpoonup> windowCounter)"
  window :: nanos
  limit :: int
  precise :: bool

definition NewSlidingWindowLimiter :: "nanos \<Rightarrow> int \<Rightarrow> bool \<Rightarrow> SlidingWindowLimiter" where
  "NewSlidingWindowLimiter w lmt p =
     \<lparr>sw_buckets = (\<lambda>_. Map.empty), window = (if w \<le> 0 then second else w), limit = lmt, precise = p\<rparr>"

definition set_counter :: "string \<Rightarrow> windowCounter option \<Rightarrow> SlidingWindowLimiter \<Rightarrow> SlidingWindowLimiter" where
  "set_counter key c s =
     s\<lparr>sw_buckets := (sw_buckets s)(getShard key := (sw_buckets s (getShard key))(key := c))\<rparr>"

definition allowApproximate :: "nanos \<Rightarrow> string \<Rightarrow> SlidingWindowLimiter \<Rightarrow> bool \<times> SlidingWindowLimiter" where
  "allowApproximate now key s =
     (let current = (case sw_buckets s (getShard key) key of Some c \<Rightarrow> c | None \<Rightarrow> \<lparr>timestamps = [], wc_count = 0\<rparr>);
          current = (if wc_count current = 0 \<or> timestamps current = [] then current\<lparr>timestamps := [now]\<rparr>
                     else if now - timestamps current ! 0 > window s then current\<lparr>wc_count := 0, timestamps := []\<rparr>
                     else current);
          count = int (length (timestamps current));
          elapsed = of_int (now mod window s) / (of_int (window s) :: rat);
          adjustedCount = of_int count * (1 - elapsed)
      in if \<lfloor>adjustedCount\<rfloor> \<ge> limit s then (False, set_counter key (Some current) s)
         else let ts = timestamps current @ [now]
              in (True, set_counter key (Some \<lparr>timestamps = ts, wc_count = int (length ts)\<rparr>) s))"

definition allowPrecise :: "nanos \<Rightarrow> string \<Rightarrow> SlidingWindowLimiter \<Rightarrow> bool \<times> SlidingWindowLimiter" where
  "allowPrecise now key s =
     (let windowStart = now - window s;
          counter = (case sw_buckets s (getShard key) key of Some c \<Rightarrow> c | None \<Rightarrow> \<lparr>timestamps = [], wc_count = 0\<rparr>);
          counter = counter\<lparr>timestamps := filter (\<lambda>t. t > windowStart) (timestamps counter)\<rparr>
      in if int (length (timestamps counter)) \<ge> limit s then (False, set_counter key (Some counter) s)
         else (True, set_counter key (Some (counter\<lparr>timestamps := timestamps counter @ [now]\<rparr>)) s))"

definition SlidingWindow_Allow :: "nanos \<Rightarrow> string \<Rightarrow> SlidingWindowLimiter \<Rightarrow> bool \<times> SlidingWindowLimiter" where
  "SlidingWindow_Allow now key s = (if precise s then allowPrecise now key s else allowApproximate now key s)"

definition SlidingWindow_Reset :: "string \<Rightarrow> SlidingWindowLimiter \<Rightarrow> SlidingWindowLimiter" where
  "SlidingWindow_Reset key s = set_counter key None s"

definition SlidingWindow_ResetAll :: "SlidingWindowLimiter \<Rightarrow> SlidingWindowLimiter" where
  "SlidingWindow_ResetAll s = s\<lparr>sw_buckets := (\<lambda>i. if i < 16 then Map.empty else sw_buckets s i)\<rparr>"

definition SlidingWindow_Cleanup :: "nanos \<Rightarrow> nanos \<Rightarrow> SlidingWindowLimiter \<Rightarrow> SlidingWindowLimiter" where
  "SlidingWindow_Cleanup now maxAge s =
     s\<lparr>sw_buckets := (\<lambda>i. if i < 16 then
           (\<lambda>key. case sw_buckets s i key of
              Some c \<Rightarrow> (if timestamps c \<noteq> [] \<and> now - last (timestamps c) > maxAge then None else Some c)
            | None \<Rightarrow> None)
         else sw_buckets s i)\<rparr>"

definition GetCount :: "nanos \<Rightarrow> string \<Rightarrow> SlidingWindowLimiter \<Rightarrow> int" where
  "GetCount now key s =
     (case sw_buckets s (getShard key) key of
        None \<Rightarrow> 0
      | Some counter \<Rightarrow>
          if precise s then int (length (filter (\<lambda>t. t > now - window s) (timestamps counter))) else wc_count counter)"

record SlidingWindowLimiterWrapper =
  wr_limiter :: SlidingWindowLimiter
  wr_keyFunc :: KeyKind

definition NewSlidingWindowLimiterWrapper ::
  "RateLimitConfig \<Rightarrow> nanos \<Rightarrow> bool \<Rightarrow> ratelimit_error + SlidingWindowLimiterWrapper" where
  "NewSlidingWindowLimiterWrapper cfg w p =
     (case parseKeyFunc (rlc_Key cfg) of
        Inl e \<Rightarrow> Inl e
      | Inr k \<Rightarrow> Inr \<lparr>wr_limiter = NewSlidingWindowLimiter w (RequestRate cfg) p, wr_keyFunc = k\<rparr>)"

definition SlidingWindow_Process ::
  "nanos \<Rightarrow> SlidingWindowLimiterWrapper \<Rightarrow> RequestCtx \<Rightarrow> verdict \<times> SlidingWindowLimiterWrapper" where
  "SlidingWindow_Process now wr ctx =
     (case SlidingWindow_Allow now (package_key (wr_keyFunc wr) ctx) (wr_limiter wr) of
        (ok, l) \<Rightarrow> (if ok then CallNext else SendError 429 ''Too Many Requests'', wr\<lparr>wr_limiter := l\<rparr>))"

datatype limiter = TokenLimiter RateLimiter | WindowLimiter SlidingWindowLimiterWrapper

definition NewRateLimiter :: "RateLimitConfig option \<Rightarrow> string list \<Rightarrow> ratelimit_error + limiter" where
  "NewRateLimiter cfg0 trusted =
     (case cfg0 of
        None \<Rightarrow> Inl NilConfig
      | Some cfg \<Rightarrow>
          if RequestRate cfg \<le> 0 then Inl NonPositiveRate
          else let algorithm = (if Algorithm cfg = [] then ''token_bucket'' else Algorithm cfg)
          in if algorithm = ''token_bucket'' then map_sum id TokenLimiter (newTokenBucketLimiter cfg trusted)
             else if algorithm = ''sliding_window'' then
               (let w = SlidingWindow cfg * second
                in map_sum id WindowLimiter
                     (NewSlidingWindowLimiterWrapper cfg (if w \<le> 0 then second else w) (SlidingWindowMode cfg = ''precise'')))
             else Inl UnknownAlgorithm)"

section \<open>Connection limiter\<close>

record ConnLimiter =
  cl_keyFunc :: "KeyKind option"
  counts :: "string \<Rightarrow> int"
  cl_max :: int
  cl_current :: int
  perKey :: bool

definition NewConnLimiter :: "int \<Rightarrow> bool \<Rightarrow> string \<Rightarrow> ratelimit_error + ConnLimiter" where
  "NewConnLimiter maxConns pk keyType =
     (if maxConns \<le> 0 then Inl NonPositiveMax
      else let cl = \<lparr>cl_keyFunc = None, counts = (\<lambda>_. 0), cl_max = maxConns, cl_current = 0, perKey = pk\<rparr>
           in if pk then (case parseKeyFunc keyType of Inl e \<Rightarrow> Inl e | Inr k \<Rightarrow> Inr (cl\<lparr>cl_keyFunc := Some k\<rparr>))
              else Inr cl)"

text \<open>A call of the nil key function, which \<open>NewConnLimiter\<close> excludes, panics.\<close>

definition Acquire :: "ConnLimiter \<Rightarrow> RequestCtx \<Rightarrow> go_panic + bool \<times> ConnLimiter" where
  "Acquire cl ctx =
     (if \<not> perKey cl then
        (let current = cl_current cl + 1; cl' = cl\<lparr>cl_current := current\<rparr>
         in if current > cl_max cl then Inr (False, cl'\<lparr>cl_current := cl_current cl' - 1\<rparr>) else Inr (True, cl'))
      else case cl_keyFunc cl of
        None \<Rightarrow> Inl NilDereference
      | Some k \<Rightarrow>
          let key = package_key k ctx; current = counts cl key
          in if current \<ge> cl_max cl then Inr (False, cl)
             else Inr (True, cl\<lparr>counts := (counts cl)(key := current + 1)\<rparr>))"

definition Release :: "ConnLimiter \<Rightarrow> RequestCtx \<Rightarrow> go_panic + ConnLimiter" where
  "Release cl ctx =
     (if \<not> perKey cl then Inr (cl\<lparr>cl_current := cl_current cl - 1\<rparr>)
      else case cl_keyFunc cl of
        None \<Rightarrow> Inl NilDereference
      | Some k \<Rightarrow>
          let key = package_key k ctx
          in if counts cl key > 0 then Inr (cl\<lparr>counts := (counts cl)(key := counts cl key - 1)\<rparr>) else Inr cl)"

text \<open>\<open>Process\<close> holds the slot while the next handler runs and gives it back afterwards.\<close>

definition ConnLimiter_Process ::
  "(ConnLimiter \<Rightarrow> ConnLimiter) \<Rightarrow> ConnLimiter \<Rightarrow> RequestCtx \<Rightarrow> go_panic + verdict \<times> ConnLimiter" where
  "ConnLimiter_Process next_handler cl ctx =
     (case Acquire cl ctx of
        Inl p \<Rightarrow> Inl p
      | Inr (False, cl') \<Rightarrow> Inr (SendError 503 ''Service Unavailable: Connection limit exceeded'', cl')
      | Inr (True, cl') \<Rightarrow>
          (case Release (next_handler cl') ctx of Inl p \<Rightarrow> Inl p | Inr cl'' \<Rightarrow> Inr (CallNext, cl'')))"

section \<open>Shards are transparent\<close>

definition bucket_of :: "RateLimiter \<Rightarrow> string \<Rightarrow> tokenBucket option" where
  "bucket_of rl key = shards rl (getShard key) key"

lemma getShard_less [simp]: "getShard key < 16"
  using unat_mod_distrib [of "FNV64a key" 16] by (simp add: getShard_def)

lemma set_bucket_simps [simp]:
  "bucket_of (set_bucket k b rl) k' = (if k' = k then b else bucket_of rl k')"
  "rate (set_bucket k b rl) = rate rl" "burst (set_bucket k b rl) = burst rl"
  by (simp_all add: bucket_of_def set_bucket_def)

text \<open>The tokens that accrue between two instants.\<close>

definition refill :: "rat \<Rightarrow> nanos \<Rightarrow> nanos \<Rightarrow> rat" where
  "refill r a b = of_int (b - a) / 1000000000 * r"

lemma refill_add: "refill r a b + refill r b c = refill r a c"
  by (simp add: refill_def algebra_simps add_divide_distrib diff_divide_distrib)

lemma refill_nonneg: "0 \<le> r \<Longrightarrow> a \<le> b \<Longrightarrow> 0 \<le> refill r a b"
  by (simp add: refill_def)

lemma refill_same [simp]: "refill r a a = 0"
  by (simp add: refill_def)

definition level :: "nanos \<Rightarrow> RateLimiter \<Rightarrow> string \<Rightarrow> rat" where
  "level now rl key =
     (case bucket_of rl key of
        None \<Rightarrow> burst rl
      | Some tb \<Rightarrow> min (burst rl) (tokens tb + refill (rate rl) (lastUpdate tb) now))"

lemma Allow_level:
  "Allow now key rl =
     (1 \<le> level now rl key,
      set_bucket key (Some \<lparr>lastUpdate = now, tokens = level now rl key - (if 1 \<le> level now rl key then 1 else 0)\<rparr>) rl)"
  by (simp add: Allow_def consume_def level_def bucket_of_def refill_def Let_def min_def split: option.split)

lemma level_burst: "level now rl key \<le> burst rl"
  by (simp add: level_def split: option.split)

lemma level_set_bucket:
  "level now (set_bucket key (Some tb) rl) k =
     (if k = key then min (burst rl) (tokens tb + refill (rate rl) (lastUpdate tb) now) else level now rl k)"
  by (simp add: level_def split: option.split)

lemma level_later:
  assumes "0 \<le> rate rl" and "now \<le> now'"
  shows "level now rl key \<le> level now' rl key" and "level now' rl key \<le> level now rl key + refill (rate rl) now now'"
proof -
  note nn = refill_nonneg [OF assms]
  show "level now rl key \<le> level now' rl key"
  proof (cases "bucket_of rl key")
    case (Some tb)
    then show ?thesis using nn refill_add [of "rate rl" "lastUpdate tb" now now'] by (simp add: level_def min_def)
  qed (simp add: level_def)
  show "level now' rl key \<le> level now rl key + refill (rate rl) now now'"
  proof (cases "bucket_of rl key")
    case (Some tb)
    then show ?thesis using nn refill_add [of "rate rl" "lastUpdate tb" now now'] by (simp add: level_def min_def)
  qed (simp add: level_def nn)
qed

section \<open>The token bucket bounds the rate\<close>

text \<open>What happens to a limiter that runs: requests, and the sweeps of the goroutine that the
  constructor starts (\<open>startCleanup\<close>), which drops the buckets idle for more than 24 hours. A sweep
  answers nothing.\<close>

datatype limiter_event = Request string | Sweep

definition sweep_age :: nanos where
  "sweep_age = 24 * 60 * 60 * second"

definition limiter_step :: "nanos \<Rightarrow> limiter_event \<Rightarrow> RateLimiter \<Rightarrow> bool \<times> RateLimiter" where
  "limiter_step now ev rl =
     (case ev of Request key \<Rightarrow> Allow now key rl
      | Sweep \<Rightarrow> (False, if cleanupRunning rl then RateLimiter_Cleanup now sweep_age rl else rl))"

fun serve :: "(nanos \<times> limiter_event) list \<Rightarrow> RateLimiter \<Rightarrow> bool list \<times> RateLimiter" where
  "serve [] rl = ([], rl)"
| "serve ((now, ev) # rs) rl =
     (case limiter_step now ev rl of (ok, rl1) \<Rightarrow> (case serve rs rl1 of (oks, rl2) \<Rightarrow> (ok # oks, rl2)))"

definition admitted :: "string \<Rightarrow> (nanos \<times> limiter_event) list \<Rightarrow> bool list \<Rightarrow> nat" where
  "admitted key rs oks = length (filter (\<lambda>((now, ev), ok). ev = Request key \<and> ok) (zip rs oks))"

definition buckets_ok :: "nanos \<Rightarrow> RateLimiter \<Rightarrow> bool" where
  "buckets_ok t rl \<longleftrightarrow> 0 \<le> rate rl \<and> 0 \<le> burst rl
     \<and> (\<forall>k tb. bucket_of rl k = Some tb \<longrightarrow> 0 \<le> tokens tb \<and> tokens tb \<le> burst rl \<and> lastUpdate tb \<le> t)"

lemma level_nonneg: "buckets_ok t rl \<Longrightarrow> t \<le> now \<Longrightarrow> 0 \<le> level now rl key"
  by (fastforce simp: buckets_ok_def level_def refill_nonneg split: option.split)

lemma buckets_ok_Allow:
  assumes "buckets_ok t rl" and "t \<le> now"
  shows "buckets_ok now (snd (Allow now key rl))"
  using assms level_nonneg [OF assms, of key] level_burst [of now rl key]
  by (fastforce simp: buckets_ok_def Allow_level)

text \<open>Dropping an idle bucket is invisible where the bucket would have refilled anyway; otherwise it gives
  the burst back before its time.\<close>

lemma bucket_of_Cleanup:
  "bucket_of (RateLimiter_Cleanup now maxAge rl) key =
     (case bucket_of rl key of Some tb \<Rightarrow> (if now - lastUpdate tb > maxAge then None else Some tb) | None \<Rightarrow> None)"
  "rate (RateLimiter_Cleanup now maxAge rl) = rate rl" "burst (RateLimiter_Cleanup now maxAge rl) = burst rl"
  by (simp_all add: bucket_of_def RateLimiter_Cleanup_def)

lemma cleanup_restores_burst:
  assumes "bucket_of rl key = Some tb" and "now - lastUpdate tb > maxAge"
  shows "level now' (RateLimiter_Cleanup now maxAge rl) key = burst rl"
  using assms by (simp add: level_def bucket_of_Cleanup)

lemma level_Cleanup:
  assumes "buckets_ok now rl" and "now \<le> now'" and "burst rl \<le> of_int maxAge / 1000000000 * rate rl"
  shows "level now' (RateLimiter_Cleanup now maxAge rl) key = level now' rl key"
proof -
  have "burst rl \<le> tokens tb + refill (rate rl) (lastUpdate tb) now'"
    if "bucket_of rl key = Some tb" "now - lastUpdate tb > maxAge" for tb
  proof -
    have tb: "0 \<le> tokens tb" "0 \<le> rate rl" using assms(1) that(1) by (auto simp: buckets_ok_def)
    have "maxAge \<le> now' - lastUpdate tb" using that(2) assms(2) by simp
    then have "(of_int maxAge :: rat) / 1000000000 * rate rl \<le> of_int (now' - lastUpdate tb) / 1000000000 * rate rl"
      by (intro mult_right_mono divide_right_mono tb(2)) (simp_all only: of_int_le_iff zero_le_numeral)
    then show ?thesis using assms(3) tb(1) by (simp add: refill_def)
  qed
  then show ?thesis by (auto simp: level_def bucket_of_Cleanup split: option.split)
qed

lemma buckets_ok_step:
  assumes "buckets_ok t rl" and "t \<le> now"
  shows "buckets_ok now (snd (limiter_step now ev rl))"
proof (cases ev)
  case (Request key)
  then show ?thesis using buckets_ok_Allow [OF assms] by (simp add: limiter_step_def)
next
  case Sweep
  then show ?thesis using assms
    by (fastforce simp: limiter_step_def buckets_ok_def bucket_of_Cleanup split: option.splits if_splits)
qed

lemma limiter_step_keeps:
  "rate (snd (limiter_step now ev rl)) = rate rl" "burst (snd (limiter_step now ev rl)) = burst rl"
  by (simp_all add: limiter_step_def Allow_level bucket_of_Cleanup split: limiter_event.split)

lemma serve_keeps: "rate (snd (serve bs rl)) = rate rl \<and> burst (snd (serve bs rl)) = burst rl"
proof (induction bs arbitrary: rl)
  case (Cons r bs)
  then show ?case by (cases r) (simp add: limiter_step_keeps case_prod_beta)
qed simp

lemma buckets_ok_serve:
  "buckets_ok t rl \<Longrightarrow> sorted (map fst bs) \<Longrightarrow> \<forall>r \<in> set bs. t \<le> fst r \<and> fst r \<le> t1 \<Longrightarrow> t \<le> t1
    \<Longrightarrow> buckets_ok t1 (snd (serve bs rl))"
proof (induction bs arbitrary: rl t)
  case Nil
  then show ?case by (fastforce simp: buckets_ok_def)
next
  case (Cons r bs)
  obtain now ev where r: "r = (now, ev)" by (cases r)
  have "buckets_ok now (snd (limiter_step now ev rl))"
    using buckets_ok_step [OF Cons.prems(1)] Cons.prems(3) r by simp
  then have "buckets_ok t1 (snd (serve bs (snd (limiter_step now ev rl))))"
    using Cons.IH [of now "snd (limiter_step now ev rl)"] Cons.prems r by auto
  then show ?case by (simp add: r case_prod_beta)
qed

definition refills_between_sweeps :: "RateLimiter \<Rightarrow> bool" where
  "refills_between_sweeps rl \<longleftrightarrow> burst rl \<le> of_int sweep_age / 1000000000 * rate rl"

text \<open>One event takes at most the token it admits out of a key's bucket.\<close>

lemma level_step:
  assumes "buckets_ok now rl" and "refills_between_sweeps rl"
  shows "level now (snd (limiter_step now ev rl)) key =
    level now rl key - (if ev = Request key \<and> fst (limiter_step now ev rl) then 1 else 0)"
proof (cases ev)
  case (Request k)
  then show ?thesis using level_burst [of now rl key]
    by (auto simp: limiter_step_def Allow_level level_set_bucket min_def)
next
  case Sweep
  then show ?thesis using level_Cleanup [OF assms(1) order_refl, of sweep_age] assms(2)
    by (simp add: limiter_step_def refills_between_sweeps_def)
qed

lemma serve_bound:
  assumes "buckets_ok t0 rl" and "refills_between_sweeps rl" and "sorted (map fst rs)"
    and "\<forall>r \<in> set rs. t0 \<le> fst r \<and> fst r \<le> t1" and "t0 \<le> t1"
  shows "of_nat (admitted key rs (fst (serve rs rl))) \<le> level t0 rl key + refill (rate rl) t0 t1"
  using assms
proof (induction rs arbitrary: rl t0)
  case Nil
  then show ?case using refill_nonneg [of "rate rl" t0 t1] level_nonneg [OF Nil.prems(1), of t0 key]
    by (simp add: admitted_def buckets_ok_def)
next
  case (Cons r rs)
  obtain now ev where r: "r = (now, ev)" by (cases r)
  let ?rl = "snd (limiter_step now ev rl)"
  let ?one = "if ev = Request key \<and> fst (limiter_step now ev rl) then 1 else 0 :: rat"
  let ?n = "of_nat (admitted key rs (fst (serve rs ?rl))) :: rat"
  have now: "t0 \<le> now" "now \<le> t1" using Cons.prems(4) r by auto
  have ok: "buckets_ok now rl" using Cons.prems(1) now(1) by (fastforce simp: buckets_ok_def)
  have later: "level now rl key \<le> level t0 rl key + refill (rate rl) t0 now"
    using level_later(2) [OF _ now(1)] Cons.prems(1) by (simp add: buckets_ok_def)
  have "?n \<le> level now ?rl key + refill (rate rl) now t1"
    using Cons.IH [of now ?rl] Cons.prems r now buckets_ok_step [OF Cons.prems(1) now(1), of ev]
    by (simp add: limiter_step_keeps refills_between_sweeps_def)
  moreover have "of_nat (admitted key (r # rs) (fst (serve (r # rs) rl))) = ?n + ?one"
    by (auto simp: r admitted_def split: prod.splits)
  ultimately show ?case
    using level_step [OF ok Cons.prems(2), of ev key] later refill_add [of "rate rl" t0 now t1] by linarith
qed

lemma newTokenBucketLimiter_ok:
  assumes "newTokenBucketLimiter cfg trusted = Inr rl" and "RequestRate cfg > 0"
  shows "rate rl = of_int (RequestRate cfg)" "burst rl = of_int (Burst cfg)" "buckets_ok t rl" "1 \<le> burst rl"
  using assms
  by (auto simp: newTokenBucketLimiter_def bucket_of_def buckets_ok_def Let_def split: if_splits option.splits)

text \<open>C2. The token bucket keeps its promise. Whatever the requests of a limiter that the constructor
  returned, whatever was served before and whenever the background sweep runs, between two instants at
  most \<open>burst\<close> plus \<open>rate\<close> times the elapsed seconds requests of one key are admitted, and requests of
  other keys make no difference, provided the burst is at most what 24 hours refill (the sweep drops a
  bucket after that time, and with it what was taken from it). Token counts are exact here, \<open>float64\<close> in
  the code.\<close>

theorem token_bucket_bounds_rate:
  assumes "newTokenBucketLimiter cfg trusted = Inr rl0" and "RequestRate cfg > 0"
    and "Burst cfg \<le> 86400 * RequestRate cfg"
    and "sorted (map fst (before @ rs))" and "\<forall>r \<in> set before. fst r \<le> t0"
    and "\<forall>r \<in> set rs. t0 \<le> fst r \<and> fst r \<le> t1" and "t0 \<le> t1"
  shows "of_nat (admitted key rs (fst (serve rs (snd (serve before rl0)))))
    \<le> (of_int (Burst cfg) + of_int (RequestRate cfg) * (of_int (t1 - t0) / 1000000000) :: rat)"
proof -
  let ?rl = "snd (serve before rl0)"
  note new = newTokenBucketLimiter_ok [OF assms(1,2)] and keeps = serve_keeps [of before rl0]
  define t where "t = Min (insert t0 (fst ` set before))"
  have ok: "buckets_ok t0 ?rl"
    by (rule buckets_ok_serve [of t]) (use assms new in \<open>auto simp: t_def sorted_append\<close>)
  have "(of_int (Burst cfg) :: rat) \<le> of_int (86400 * RequestRate cfg)" using assms(3) by (simp only: of_int_le_iff)
  then have "refills_between_sweeps ?rl" using keeps new by (simp add: refills_between_sweeps_def sweep_age_def)
  then have "of_nat (admitted key rs (fst (serve rs ?rl))) \<le> burst ?rl + refill (rate ?rl) t0 t1"
    using serve_bound [OF ok, of rs t1 key] level_burst [of t0 ?rl key] assms(4,6,7) by (force simp: sorted_append)
  then show ?thesis using keeps new by (simp add: refill_def mult.commute)
qed

definition demo_limit :: RateLimitConfig where
  "demo_limit = \<lparr>RequestRate = 1, Burst = 2, rlc_Key = ''ip'', Algorithm = [], SlidingWindow = 0, SlidingWindowMode = [], rlc_ConnLimit = 0\<rparr>"

definition demo_limiter :: RateLimiter where
  "demo_limiter = \<lparr>shards = (\<lambda>_. Map.empty), rl_keyFunc = ByIP, rate = 1, burst = 2, rl_trustedProxies = [], cleanupRunning = True\<rparr>"

lemma demo_limiter_new: "newTokenBucketLimiter demo_limit [] = Inr demo_limiter"
  by (simp add: newTokenBucketLimiter_def demo_limit_def demo_limiter_def)

theorem token_bucket_bounds_rate_witness:
  "of_nat (admitted ''a'' [(5, Request ''a''), (5, Request ''b''), (6, Sweep), (6, Request ''a''), (7, Request ''a'')]
      (fst (serve [(5, Request ''a''), (5, Request ''b''), (6, Sweep), (6, Request ''a''), (7, Request ''a'')]
        (snd (serve [(1, Request ''a''), (2, Sweep)] demo_limiter)))))
    \<le> (of_int 2 + of_int 1 * (of_int (7 - 5) / 1000000000) :: rat)"
  using token_bucket_bounds_rate [OF demo_limiter_new, of "[(1, Request ''a''), (2, Sweep)]"
      "[(5, Request ''a''), (5, Request ''b''), (6, Sweep), (6, Request ''a''), (7, Request ''a'')]" 5 7 "''a''"]
  by (simp add: demo_limit_def del: serve.simps)

text \<open>\<open>Retry-After\<close> is honest: a client that is refused and waits the announced number of seconds, with
  no other request of its key in between, is admitted.\<close>

theorem retry_after_sufficient:
  assumes "newTokenBucketLimiter cfg trusted = Inr rl0" and "RequestRate cfg > 0" and "sorted (map fst rs)"
    and "\<forall>r \<in> set rs. fst r \<le> now" and "Allow now key (snd (serve rs rl0)) = (False, rl)"
    and "now' \<ge> now + getRetryAfter key rl * second"
  shows "fst (Allow now' key rl)"
proof -
  let ?rl = "snd (serve rs rl0)"
  note new = newTokenBucketLimiter_ok [OF assms(1,2)]
  define t where "t = Min (insert now (fst ` set rs))"
  have ok: "buckets_ok now ?rl"
    by (rule buckets_ok_serve [of t]) (use assms new in \<open>auto simp: t_def\<close>)
  have p: "rate ?rl > 0" "burst ?rl \<ge> 1" using serve_keeps [of rs rl0] new assms(2) by simp_all
  have lv: "0 \<le> level now ?rl key" using level_nonneg [OF ok] by simp
  have rl: "rl = set_bucket key (Some \<lparr>lastUpdate = now, tokens = level now ?rl key\<rparr>) ?rl"
    using assms(5) by (auto simp: Allow_level split: if_splits)
  then have w: "getRetryAfter key rl = \<lfloor>1 / rate ?rl\<rfloor> + 1"
    using lv by (simp add: getRetryAfter_def bucket_of_def [symmetric])
  have "1 / rate ?rl \<le> of_int (getRetryAfter key rl)" unfolding w by linarith
  also have "of_int (getRetryAfter key rl) \<le> (of_int (now' - now) / 1000000000 :: rat)"
  proof -
    have "getRetryAfter key rl * 1000000000 \<le> now' - now" using assms(6) by simp
    then have "(of_int (getRetryAfter key rl * 1000000000) :: rat) \<le> of_int (now' - now)" by (simp only: of_int_le_iff)
    then show ?thesis by simp
  qed
  finally have "1 \<le> refill (rate ?rl) now now'"
    using p(1) by (simp add: refill_def divide_simps)
  then have "1 \<le> level now' rl key" using lv p(2) by (simp add: rl level_set_bucket)
  then show ?thesis by (simp add: Allow_level)
qed

theorem retry_after_sufficient_witness:
  "fst (Allow (1000 + 2 * second) ''a'' (snd (Allow 1000 ''a'' (snd (serve [(1000, Request ''a''), (1000, Request ''a'')] demo_limiter)))))"
proof -
  let ?rl = "snd (serve [(1000, Request ''a''), (1000, Request ''a'')] demo_limiter)"
  have b0: "bucket_of demo_limiter ''a'' = None" by (simp add: bucket_of_def demo_limiter_def)
  have l0: "level 1000 demo_limiter ''a'' = 2" using b0 by (simp add: level_def demo_limiter_def)
  have p: "rate demo_limiter = 1" "burst demo_limiter = 2" by (simp_all add: demo_limiter_def)
  have a: "Allow 1000 ''a'' ?rl = (False, snd (Allow 1000 ''a'' ?rl))" 
    by (simp add: limiter_step_def case_prod_beta Allow_level level_set_bucket l0 p)
  have w: "getRetryAfter ''a'' (snd (Allow 1000 ''a'' ?rl)) = 2"
    by (simp add: getRetryAfter_def bucket_of_def [symmetric] limiter_step_def case_prod_beta Allow_level l0 level_set_bucket p)
  show ?thesis
    by (rule retry_after_sufficient [OF demo_limiter_new _ _ _ a]) (simp_all add: demo_limit_def w del: serve.simps)
qed

text \<open>Dropping idle buckets is invisible. If a bucket refills within the idle time (as 24 hours do
  unless the burst exceeds a day of requests), cleaning up changes neither the answer to any later
  request nor the bucket it leaves behind.\<close>

theorem cleanup_transparent:
  assumes "buckets_ok now rl" and "now \<le> now'"
    and "burst rl \<le> of_int maxAge / 1000000000 * rate rl"
  shows "fst (Allow now' key (RateLimiter_Cleanup now maxAge rl)) = fst (Allow now' key rl)
    \<and> bucket_of (snd (Allow now' key (RateLimiter_Cleanup now maxAge rl))) key = bucket_of (snd (Allow now' key rl)) key"
  by (simp add: Allow_level level_Cleanup [OF assms])

theorem cleanup_transparent_witness:
  "fst (Allow 9000000000 ''a'' (RateLimiter_Cleanup 8000000000 2000000000 (snd (Allow 1000 ''a'' demo_limiter))))
   = fst (Allow 9000000000 ''a'' (snd (Allow 1000 ''a'' demo_limiter)))"
proof -
  have ok: "buckets_ok 8000000000 (snd (Allow 1000 ''a'' demo_limiter))"
    by (simp add: buckets_ok_def Allow_level level_def) (simp add: bucket_of_def demo_limiter_def)
  have b: "burst (snd (Allow 1000 ''a'' demo_limiter)) \<le> of_int 2000000000 / 1000000000 * rate (snd (Allow 1000 ''a'' demo_limiter))"
    by (simp add: Allow_level) (simp add: demo_limiter_def)
  show ?thesis
    using cleanup_transparent [OF ok _ b, of 9000000000 "''a''"] by simp
qed

section \<open>Sliding windows\<close>

definition counter_of :: "SlidingWindowLimiter \<Rightarrow> string \<Rightarrow> windowCounter option" where
  "counter_of s key = sw_buckets s (getShard key) key"

lemma set_counter_simps [simp]:
  "counter_of (set_counter k c s) k' = (if k' = k then c else counter_of s k')"
  "window (set_counter k c s) = window s" "limit (set_counter k c s) = limit s" "precise (set_counter k c s) = precise s"
  by (simp_all add: counter_of_def set_counter_def)

definition stamps :: "SlidingWindowLimiter \<Rightarrow> string \<Rightarrow> nanos list" where
  "stamps s key = (case counter_of s key of None \<Rightarrow> [] | Some c \<Rightarrow> timestamps c)"

lemma allowPrecise_stamps:
  "fst (allowPrecise now key s) \<longleftrightarrow> int (length (filter (\<lambda>t. t > now - window s) (stamps s key))) < limit s"
  "stamps (snd (allowPrecise now key s)) k = (if k = key then
      filter (\<lambda>t. t > now - window s) (stamps s key) @ (if fst (allowPrecise now key s) then [now] else []) else stamps s k)"
  "window (snd (allowPrecise now key s)) = window s" "limit (snd (allowPrecise now key s)) = limit s"
  by (auto simp: allowPrecise_def stamps_def counter_of_def [symmetric] Let_def split: option.splits)

text \<open>The instants at which requests of a key were admitted, in order.\<close>

fun admit_times :: "string \<Rightarrow> (nanos \<times> string) list \<Rightarrow> SlidingWindowLimiter \<Rightarrow> nanos list" where
  "admit_times key [] s = []"
| "admit_times key ((now, k) # rs) s =
     (let (ok, s') = allowPrecise now k s
      in (if ok \<and> k = key then [now] else []) @ admit_times key rs s')"

definition in_window :: "nanos \<Rightarrow> nanos \<Rightarrow> nanos list \<Rightarrow> nat" where
  "in_window w t ts = length (filter (\<lambda>x. t - w < x \<and> x \<le> t) ts)"

definition window_inv :: "string \<Rightarrow> nanos list \<Rightarrow> nanos \<Rightarrow> SlidingWindowLimiter \<Rightarrow> bool" where
  "window_inv key hist lastt s \<longleftrightarrow> (\<forall>x \<in> set hist. x \<le> lastt)
     \<and> (\<forall>now \<ge> lastt. filter (\<lambda>x. x > now - window s) (stamps s key) = filter (\<lambda>x. x > now - window s) hist)
     \<and> (\<forall>t. int (in_window (window s) t hist) \<le> limit s)"

lemma filter_length_mono: "(\<And>x. P x \<Longrightarrow> Q x) \<Longrightarrow> length (filter P xs) \<le> length (filter Q xs)"
  by (induction xs) auto

lemma filter_later:
  assumes "(now::int) \<le> now'"
  shows "filter (\<lambda>x. x > now' - w) (filter (\<lambda>x. x > now - w) ts) = filter (\<lambda>x. x > now' - w) ts"
  using assms by (auto simp: filter_filter intro!: filter_cong)

lemma window_inv_step:
  assumes inv: "window_inv key hist lastt s" and now: "lastt \<le> now"
  shows "window_inv key (hist @ (if fst (allowPrecise now k s) \<and> k = key then [now] else [])) now (snd (allowPrecise now k s))"
proof -
  let ?W = "window s" and ?s = "snd (allowPrecise now k s)"
  let ?new = "if fst (allowPrecise now k s) \<and> k = key then [now] else []"
  have st: "filter (\<lambda>x. x > now' - ?W) (stamps s key) = filter (\<lambda>x. x > now' - ?W) hist" if "now \<le> now'" for now'
    using inv now that by (simp add: window_inv_def)
  have stamps: "filter (\<lambda>x. x > now' - ?W) (stamps ?s key) = filter (\<lambda>x. x > now' - ?W) (hist @ ?new)" if "now \<le> now'" for now'
    using st [OF that] filter_later [OF that, of ?W "stamps s key"] by (auto simp: allowPrecise_stamps(2))
  have cnt: "int (in_window ?W t (hist @ ?new)) \<le> limit s" for t
  proof (cases "?new = [] \<or> t < now")
    case True
    then show ?thesis using inv by (auto simp: window_inv_def in_window_def)
  next
    case False
    then have k: "k = key" "fst (allowPrecise now key s)" "now \<le> t" by (auto split: if_splits)
    have "in_window ?W t hist \<le> length (filter (\<lambda>x. x > now - ?W) hist)"
      unfolding in_window_def by (rule filter_length_mono) (use k(3) in simp)
    then have "int (in_window ?W t hist) < limit s"
      using k(2) st [of now] allowPrecise_stamps(1) [of now key s] by simp
    then show ?thesis using k by (simp add: in_window_def)
  qed
  have "\<forall>x \<in> set (hist @ ?new). x \<le> now" using inv now by (fastforce simp: window_inv_def)
  then show ?thesis
    unfolding window_inv_def using stamps cnt by (simp add: allowPrecise_stamps(3,4))
qed

lemma window_inv_run:
  "window_inv key hist lastt s \<Longrightarrow> sorted (map fst rs) \<Longrightarrow> \<forall>r \<in> set rs. lastt \<le> fst r
    \<Longrightarrow> int (in_window (window s) t (hist @ admit_times key rs s)) \<le> limit s"
proof (induction rs arbitrary: hist lastt s)
  case Nil
  then show ?case by (simp add: window_inv_def)
next
  case (Cons r rs)
  obtain now k where r: "r = (now, k)" by (cases r)
  have "window_inv key (hist @ (if fst (allowPrecise now k s) \<and> k = key then [now] else [])) now (snd (allowPrecise now k s))"
    by (rule window_inv_step [OF Cons.prems(1)]) (use Cons.prems(3) r in simp)
  from Cons.IH [OF this] show ?case
    using Cons.prems(2) r by (simp add: allowPrecise_stamps(3,4) case_prod_beta Let_def)
qed

text \<open>C30. The precise sliding window is exact: of the requests of one key, in every window of the
  configured length, wherever it starts, at most \<open>limit\<close> are admitted.\<close>

theorem precise_window_bounds:
  assumes "sorted (map fst rs)" and "0 \<le> lmt"
  shows "int (in_window (window (NewSlidingWindowLimiter w lmt True)) t (admit_times key rs (NewSlidingWindowLimiter w lmt True))) \<le> lmt"
proof -
  let ?s = "NewSlidingWindowLimiter w lmt True"
  have s: "limit ?s = lmt" "\<And>k. stamps ?s k = []"
    by (simp_all add: NewSlidingWindowLimiter_def stamps_def counter_of_def)
  define t0 where "t0 = Min (insert 0 (fst ` set rs))"
  have "window_inv key [] t0 ?s" using s assms(2) by (simp add: window_inv_def in_window_def)
  moreover have "\<forall>r \<in> set rs. t0 \<le> fst r" by (simp add: t0_def)
  ultimately show ?thesis using window_inv_run [of key "[]" t0 ?s rs t] assms(1) s by simp
qed

theorem precise_window_bounds_witness:
  "int (in_window second 3 (admit_times ''a'' [(1, ''a''), (2, ''b''), (3, ''a''), (3, ''a'')] (NewSlidingWindowLimiter 0 2 True))) \<le> 2"
proof -
  have h: "sorted (map fst [(1::int, ''a''), (2, ''b''), (3, ''a''), (3, ''a'')])" "0 \<le> (2::int)" by simp_all
  have w: "window (NewSlidingWindowLimiter 0 2 True) = second" by (simp add: NewSlidingWindowLimiter_def)
  show ?thesis using precise_window_bounds [OF h, of 0 3 "''a''"] unfolding w .
qed

text \<open>The approximate mode scales its own count by the part of the clock-aligned window that is left, so
  it stops limiting towards the end of each window.\<close>

fun approx_burst :: "nanos \<Rightarrow> string \<Rightarrow> nat \<Rightarrow> SlidingWindowLimiter \<Rightarrow> bool list \<times> SlidingWindowLimiter" where
  "approx_burst now key 0 s = ([], s)"
| "approx_burst now key (Suc n) s =
     (case allowApproximate now key s of
        (ok, s1) \<Rightarrow> (case approx_burst now key n s1 of (oks, s2) \<Rightarrow> (ok # oks, s2)))"

lemma approx_step:
  assumes st: "stamps s key = replicate m now" and cn: "\<forall>c. counter_of s key = Some c \<longrightarrow> wc_count c = int m"
    and w: "0 < window s" and e: "now mod window s = window s - 1" and small: "int (max m 1) < limit s * window s"
  shows "fst (allowApproximate now key s)
    \<and> stamps (snd (allowApproximate now key s)) key = replicate (Suc (max m 1)) now
    \<and> (\<forall>c. counter_of (snd (allowApproximate now key s)) key = Some c \<longrightarrow> wc_count c = int (Suc (max m 1)))
    \<and> window (snd (allowApproximate now key s)) = window s \<and> limit (snd (allowApproximate now key s)) = limit s"
proof -
  let ?c = "case counter_of s key of Some c \<Rightarrow> c | None \<Rightarrow> \<lparr>timestamps = [], wc_count = 0\<rparr>"
  let ?c' = "if wc_count ?c = 0 \<or> timestamps ?c = [] then ?c\<lparr>timestamps := [now]\<rparr>
    else if now - timestamps ?c ! 0 > window s then ?c\<lparr>wc_count := 0, timestamps := []\<rparr> else ?c"
  have c: "timestamps ?c = replicate m now" "wc_count ?c = int m"
    using st cn by (auto simp: stamps_def split: option.splits)
  have c': "timestamps ?c' = replicate (max m 1) now" using c w by (cases m) auto
  have "of_int (int (max m 1)) * (1 - of_int (now mod window s) / of_int (window s)) = (of_nat (max m 1) / of_int (window s) :: rat)"
    using w unfolding e by (simp add: field_simps)
  also have "\<dots> < of_int (limit s)"
  proof -
    have "(of_int (int (max m 1)) :: rat) < of_int (limit s * window s)" using small by (simp only: of_int_less_iff)
    then show ?thesis using w by (simp add: divide_simps)
  qed
  finally have lt: "\<lfloor>of_int (int (max m 1)) * (1 - of_int (now mod window s) / of_int (window s)) :: rat\<rfloor> < limit s"
    by (simp only: floor_less_iff)
  have al: "allowApproximate now key s =
    (True, set_counter key (Some \<lparr>timestamps = timestamps ?c' @ [now], wc_count = int (length (timestamps ?c' @ [now]))\<rparr>) s)"
    unfolding allowApproximate_def Let_def counter_of_def [symmetric] using lt unfolding c' by simp
  show ?thesis unfolding al unfolding c'
    by (simp add: stamps_def replicate_append_same)
qed

lemma approx_burst_all:
  assumes "stamps s key = replicate m now" and "\<forall>c. counter_of s key = Some c \<longrightarrow> wc_count c = int m"
    and "0 < window s" and "now mod window s = window s - 1" and "int (max m 1 + n) \<le> limit s * window s"
  shows "fst (approx_burst now key n s) = replicate n True"
  using assms
proof (induction n arbitrary: m s)
  case (Suc n)
  let ?s = "snd (allowApproximate now key s)"
  have small: "int (max m 1) < limit s * window s" using Suc.prems(5) by simp
  note step = approx_step [OF Suc.prems(1-4) small]
  have "fst (approx_burst now key n ?s) = replicate n True"
    by (rule Suc.IH [of _ "Suc (max m 1)"]) (use step Suc.prems in auto)
  then show ?case using step by (simp add: case_prod_beta)
qed simp

text \<open>The approximate sliding window does not limit. In the last nanosecond of each clock-aligned
  window it admits \<open>limit * window - 1\<close> requests of one key at once, with the window in nanoseconds: a thousand million
  times the limit for a window of one second.\<close>

theorem approximate_window_unbounded:
  assumes "0 < w" and "0 < lmt" and "now mod w = w - 1" and "int n < lmt * w"
  shows "fst (approx_burst now key n (NewSlidingWindowLimiter w lmt False)) = replicate n True"
proof -
  let ?s = "NewSlidingWindowLimiter w lmt False"
  have s: "stamps ?s key = replicate 0 now" "\<forall>c. counter_of ?s key = Some c \<longrightarrow> wc_count c = int 0" "window ?s = w" "limit ?s = lmt"
    using assms(1) by (simp_all add: NewSlidingWindowLimiter_def stamps_def counter_of_def)
  show ?thesis by (rule approx_burst_all [OF s(1,2)]) (use s(3,4) assms in simp_all)
qed

theorem approximate_window_unbounded_witness:
  "fst (approx_burst (5 * second - 1) ''a'' 1000 (NewSlidingWindowLimiter second 1 False)) = replicate 1000 True"
  by (rule approximate_window_unbounded) simp_all

section \<open>Concurrent connection slots\<close>

text \<open>\<open>Acquire\<close> without keys is an atomic increment, a test of the value it returned and, if that was too
  large, an atomic decrement: threads interleave between them. A thread is idle, has incremented (with the value it
  got), holds a slot, or is about to decrement after a refusal.\<close>

datatype phase = Idle | Tested int | Holding | Backing

record slots =
  sl_current :: int
  sl_phase :: "nat \<Rightarrow> phase"

inductive slot_step :: "int \<Rightarrow> slots \<Rightarrow> slots \<Rightarrow> bool" for mx where
  inc: "sl_phase s i = Idle \<Longrightarrow>
    slot_step mx s (s\<lparr>sl_current := sl_current s + 1, sl_phase := (sl_phase s)(i := Tested (sl_current s + 1))\<rparr>)"
| accept: "sl_phase s i = Tested v \<Longrightarrow> \<not> v > mx \<Longrightarrow> slot_step mx s (s\<lparr>sl_phase := (sl_phase s)(i := Holding)\<rparr>)"
| refuse: "sl_phase s i = Tested v \<Longrightarrow> v > mx \<Longrightarrow> slot_step mx s (s\<lparr>sl_phase := (sl_phase s)(i := Backing)\<rparr>)"
| undo: "sl_phase s i = Backing \<Longrightarrow>
    slot_step mx s (s\<lparr>sl_current := sl_current s - 1, sl_phase := (sl_phase s)(i := Idle)\<rparr>)"
| release: "sl_phase s i = Holding \<Longrightarrow>
    slot_step mx s (s\<lparr>sl_current := sl_current s - 1, sl_phase := (sl_phase s)(i := Idle)\<rparr>)"

definition slots_init :: slots where
  "slots_init = \<lparr>sl_current = 0, sl_phase = (\<lambda>_. Idle)\<rparr>"

definition busy :: "slots \<Rightarrow> nat set" where
  "busy s = {i. sl_phase s i \<noteq> Idle}"

definition granted :: "int \<Rightarrow> slots \<Rightarrow> nat set" where
  "granted mx s = {i. sl_phase s i = Holding \<or> (\<exists>v \<le> mx. sl_phase s i = Tested v)}"

definition slots_inv :: "int \<Rightarrow> slots \<Rightarrow> bool" where
  "slots_inv mx s \<longleftrightarrow> finite (busy s) \<and> sl_current s = int (card (busy s)) \<and> int (card (granted mx s)) \<le> mx"

lemma granted_busy: "granted mx s \<subseteq> busy s"
  by (auto simp: granted_def busy_def)

lemma busy_upd: "busy (s\<lparr>sl_current := c, sl_phase := (sl_phase s)(i := p)\<rparr>) = (if p = Idle then busy s - {i} else insert i (busy s))"
  by (auto simp: busy_def)

lemma int_card_remove: "finite B \<Longrightarrow> i \<in> B \<Longrightarrow> int (card (B - {i})) = int (card B) - 1"
  by (metis card_Suc_Diff1 add_diff_cancel_left' of_nat_Suc)

lemma slots_inv_step:
  assumes "slots_inv mx s" and "slot_step mx s s'"
  shows "slots_inv mx s'"
  using assms(2)
proof cases
  case (inc i)
  have nb: "i \<notin> busy s" using inc(2) by (simp add: busy_def)
  have b: "busy s' = insert i (busy s)" using inc by (simp add: busy_upd)
  have fin: "finite (busy s')" using b assms(1) by (simp add: slots_inv_def)
  have cur: "sl_current s' = int (card (busy s'))" using inc b nb assms(1) by (simp add: slots_inv_def)
  have "int (card (granted mx s')) \<le> mx"
  proof (cases "sl_current s + 1 \<le> mx")
    case True
    have "card (granted mx s') \<le> card (busy s')" by (rule card_mono [OF fin granted_busy])
    then show ?thesis using True cur inc by simp
  next
    case False
    have "granted mx s' = granted mx s" using False inc by (auto simp: granted_def)
    then show ?thesis using assms(1) by (simp add: slots_inv_def)
  qed
  with fin cur show ?thesis by (simp add: slots_inv_def)
next
  case (accept i v)
  have "busy s' = busy s" "granted mx s' = granted mx s" using accept by (auto simp: busy_def granted_def)
  then show ?thesis using assms(1) accept by (simp add: slots_inv_def)
next
  case (refuse i v)
  have "busy s' = busy s" "granted mx s' = granted mx s" using refuse by (auto simp: busy_def granted_def)
  then show ?thesis using assms(1) refuse by (simp add: slots_inv_def)
next
  case (undo i)
  have b: "i \<in> busy s" "busy s' = busy s - {i}" "granted mx s' = granted mx s" using undo by (auto simp: busy_def granted_def)
  then show ?thesis using assms(1) undo by (simp add: slots_inv_def int_card_remove del: card_Diff_insert card_Diff_singleton)
next
  case (release i)
  have b: "i \<in> busy s" "busy s' = busy s - {i}" "granted mx s' = granted mx s - {i}" using release by (auto simp: busy_def granted_def)
  have "card (granted mx s') \<le> card (granted mx s)" unfolding b(3) by (rule card_Diff1_le)
  then show ?thesis using assms(1) release b by (simp add: slots_inv_def int_card_remove del: card_Diff_insert card_Diff_singleton)
qed

text \<open>C21. The connection limit holds under every interleaving. However the increments, tests and
  decrements of concurrent requests interleave, at most \<open>max\<close> requests hold a connection slot at a time, and
  when no request is in flight the counter is back at zero.\<close>

theorem connection_limit_interleaved:
  assumes "(slot_step mx)\<^sup>*\<^sup>* slots_init s" and "0 \<le> mx"
  shows "int (card {i. sl_phase s i = Holding}) \<le> mx \<and> ((\<forall>i. sl_phase s i = Idle) \<longrightarrow> sl_current s = 0)"
proof -
  have "slots_inv mx slots_init" using assms(2) by (simp add: slots_inv_def slots_init_def busy_def granted_def)
  with assms(1) have inv: "slots_inv mx s" by (induction) (auto intro: slots_inv_step)
  have "finite (granted mx s)" using inv granted_busy finite_subset unfolding slots_inv_def by blast
  then have "card {i. sl_phase s i = Holding} \<le> card (granted mx s)" by (rule card_mono) (auto simp: granted_def)
  moreover have "(\<forall>i. sl_phase s i = Idle) \<longrightarrow> sl_current s = 0" using inv by (auto simp: slots_inv_def busy_def)
  ultimately show ?thesis using inv by (simp add: slots_inv_def)
qed

theorem connection_limit_interleaved_witness:
  "\<exists>s. (slot_step 1)\<^sup>*\<^sup>* slots_init s \<and> sl_phase s 7 = Holding \<and> sl_phase s 8 = Tested 2
     \<and> int (card {i. sl_phase s i = Holding}) \<le> 1"
proof -
  define s1 where "s1 = slots_init\<lparr>sl_current := sl_current slots_init + 1, sl_phase := (sl_phase slots_init)(7 := Tested (sl_current slots_init + 1))\<rparr>"
  define s2 where "s2 = s1\<lparr>sl_current := sl_current s1 + 1, sl_phase := (sl_phase s1)(8 := Tested (sl_current s1 + 1))\<rparr>"
  define s3 where "s3 = s2\<lparr>sl_phase := (sl_phase s2)(7 := Holding)\<rparr>"
  have st1: "slot_step 1 slots_init s1" unfolding s1_def by (rule slot_step.inc) (simp add: slots_init_def)
  have st2: "slot_step 1 s1 s2" unfolding s2_def by (rule slot_step.inc) (simp add: s1_def slots_init_def)
  have st3: "slot_step 1 s2 s3" unfolding s3_def
    by (rule slot_step.accept [of s2 7 1]) (simp_all add: s2_def s1_def slots_init_def)
  have r: "(slot_step 1)\<^sup>*\<^sup>* slots_init s3"
    by (rule converse_rtranclp_into_rtranclp [of "slot_step 1", OF st1
        converse_rtranclp_into_rtranclp [of "slot_step 1", OF st2 r_into_rtranclp [of "slot_step 1", OF st3]]])
  have "sl_phase s3 7 = Holding" "sl_phase s3 8 = Tested 2" by (simp_all add: s3_def s2_def s1_def slots_init_def)
  then show ?thesis using r connection_limit_interleaved [OF r] by auto
qed

text \<open>Limits by key are exact: a request of a key is admitted exactly while fewer than the
  maximum of that key's slots are taken, refusals change nothing, and an admitted request that
  completes gives back exactly its slot, whatever other keys do.\<close>

theorem connection_limit_per_key:
  assumes "NewConnLimiter mx True kt = Inr cl0" and "cl_keyFunc cl = cl_keyFunc cl0" and "perKey cl" and "cl_max cl = cl_max cl0"
    and "\<forall>k. 0 \<le> counts cl k"
  shows "\<exists>kf ok cl'. cl_keyFunc cl = Some kf \<and> Acquire cl ctx = Inr (ok, cl')
    \<and> (ok \<longleftrightarrow> counts cl (package_key kf ctx) < mx) \<and> (\<not> ok \<longrightarrow> cl' = cl)
    \<and> (ok \<longrightarrow> Release cl' ctx = Inr cl \<and> (\<forall>k. counts cl' k = counts cl k + (if k = package_key kf ctx then 1 else 0)))"
proof -
  obtain kf where kf: "cl_keyFunc cl0 = Some kf" "cl_max cl0 = mx"
    using assms(1) by (auto simp: NewConnLimiter_def Let_def split: if_splits sum.splits)
  have nn: "0 < counts cl (package_key kf ctx) + 1" using assms(5) by (smt (verit))
  show ?thesis
    using assms(2-4) kf nn by (cases "counts cl (package_key kf ctx) < mx") (auto simp: Acquire_def Release_def Let_def)
qed

theorem connection_limit_per_key_witness:
  "\<exists>cl ok cl'. NewConnLimiter 5 True ''ip'' = Inr cl \<and> Acquire cl (proxied_ctx []) = Inr (ok, cl') \<and> ok \<and> Release cl' (proxied_ctx []) = Inr cl"
proof -
  obtain cl where cl: "NewConnLimiter 5 True ''ip'' = Inr cl" "perKey cl" "\<forall>k. counts cl k = 0"
    by (simp add: NewConnLimiter_def parseKeyFunc_def)
  then show ?thesis using connection_limit_per_key [OF cl(1) refl cl(2) refl, of "proxied_ctx []"] by fastforce
qed

text \<open>The sliding-window and connection limiters can be dodged: with the key set to the client address, a
  client chooses its own key by sending a forwarding header, whatever connection the
  request arrives on and whatever proxies are trusted.\<close>

theorem package_key_chosen_by_client:
  fixes ctx :: RequestCtx
  shows "package_key ByIP (ctx\<lparr>Peek := (Peek ctx)(''X-Forwarded-For'' := formatIPv4 w)\<rparr>) = formatIPv4 w"
proof -
  let ?x = "formatIPv4 w"
  let ?ctx = "ctx\<lparr>Peek := (Peek ctx)(''X-Forwarded-For'' := ?x)\<rparr>"
  have ne: "?x \<noteq> []" by (simp add: formatIPv4_def)
  have s: "Split ?x (CHR '','') = [?x]" by (rule Split_no_sep) (rule formatIPv4_sep, simp)
  have ws: "writeUint8 v = show_nat v" if "v < 256" for v by (rule writeUint8_show [OF that])
  have t: "TrimSpace ?x = ?x"
  proof (rule TrimSpace_id)
    have "hd ?x = hd (show_nat (octet w 0))" "last ?x = last (show_nat (octet w 3))"
      using show_nat_digits ws [OF octet_less] by (simp_all add: formatIPv4_def hd_append)
    then show "?x = [] \<or> \<not> trims (hd ?x) \<and> \<not> trims (last ?x)"
      using show_nat_digits show_nat_chars is_digit_not_trims by (metis hd_in_set last_in_set)
  qed
  have p: "ParseIP ?x = Some (V4 w)"
    using formatIPv4_sep [of "CHR '':''" w] by (simp add: ParseIP_def parseIPv4_format) (simp add: formatIPv4_def)
  show "package_key ByIP ?ctx = ?x"
    using ne s t p by (simp add: package_key_def keyByIP_def ExtractClientIPNet_def or_unknown_def IP_String_def Let_def)
qed

end
