(* ===== verification/FileCache.thy ===== *)
theory FileCache
  imports GoStrings
begin

text \<open>
  \<open>FileCache\<close> of \<^verbatim>\<open>internal/cache/file_cache.go\<close> and \<^verbatim>\<open>internal/utils/etag.go\<close>. The
  code hands out pointers to entries and recycles entries through a pool, so the model has
  an explicit store from addresses to entries; the LRU list and the pool are lists of
  addresses, most recently used and most recently returned first. The eviction loops are partial functions, so that
  their termination is a theorem. An operation reads the clock once.
\<close>

section \<open>Data\<close>

definition hex_char :: "nat \<Rightarrow> char" where
  "hex_char d = (if d < 10 then char_of (48 + d) else char_of (87 + d))"

fun show_hex :: "nat \<Rightarrow> string" where
  "show_hex n = (if n < 16 then [hex_char n] else show_hex (n div 16) @ [hex_char (n mod 16)])"

declare show_hex.simps [simp del]

definition AppendInt16 :: "int \<Rightarrow> string" where
  "AppendInt16 i = (if i < 0 then CHR ''-'' # show_hex (nat (- i)) else show_hex (nat i))"

definition GenerateETag :: "nanos \<Rightarrow> int \<Rightarrow> string" where
  "GenerateETag modTime sz =
     [CHR 0x22] @ AppendInt16 (modTime div 1000000000) @ ''-'' @ AppendInt16 sz @ [CHR 0x22]"

record FileEntry =
  ModTime :: nanos
  CachedAt :: nanos
  LastAccess :: nanos
  Path :: string
  Data :: string
  fe_Size :: int
  ETag :: string
  ContentType :: string

text \<open>The zero value; the zero time is 0.\<close>

definition zero_entry :: FileEntry where
  "zero_entry = \<lparr>ModTime = 0, CachedAt = 0, LastAccess = 0, Path = [], Data = [], fe_Size = 0, ETag = [], ContentType = []\<rparr>"

record FileCache =
  entries :: "string \<rightharpoonup> ptr"
  lruList :: "ptr list"
  maxEntries :: int
  maxSize :: int
  inactive :: nanos
  currentSize :: int
  entryPool :: "ptr list"
  store :: "ptr \<Rightarrow> FileEntry"
  next_ptr :: ptr

definition NewFileCache :: "int \<Rightarrow> int \<Rightarrow> nanos \<Rightarrow> FileCache" where
  "NewFileCache mxE mxS inact =
     \<lparr>entries = Map.empty, lruList = [], maxEntries = mxE, maxSize = mxS, inactive = inact, currentSize = 0,
      entryPool = [], store = (\<lambda>_. zero_entry), next_ptr = 0\<rparr>"

section \<open>Operations\<close>

definition removeEntry :: "ptr \<Rightarrow> FileCache \<Rightarrow> FileCache" where
  "removeEntry a c =
     c\<lparr>lruList := remove1 a (lruList c), entries := (entries c)(Path (store c a) := None),
       currentSize := currentSize c - fe_Size (store c a),
       store := (store c)(a := zero_entry), entryPool := a # entryPool c\<rparr>"

definition MoveToFront :: "ptr \<Rightarrow> FileCache \<Rightarrow> FileCache" where
  "MoveToFront a c = c\<lparr>lruList := a # remove1 a (lruList c)\<rparr>"

definition evictLRU :: "FileCache \<Rightarrow> FileCache" where
  "evictLRU c = (if lruList c = [] then c else removeEntry (last (lruList c)) c)"

partial_function (option) evict_entries :: "FileCache \<Rightarrow> FileCache option" where
  "evict_entries c =
     (if int (length (lruList c)) > maxEntries c \<and> maxEntries c > 0 then evict_entries (evictLRU c) else Some c)"

partial_function (option) evict_size :: "FileCache \<Rightarrow> FileCache option" where
  "evict_size c = (if currentSize c > maxSize c \<and> maxSize c > 0 then evict_size (evictLRU c) else Some c)"

definition evictIfNeeded :: "FileCache \<Rightarrow> FileCache option" where
  "evictIfNeeded c = (case evict_entries c of None \<Rightarrow> None | Some c1 \<Rightarrow> evict_size c1)"

text \<open>\<open>entryPool.Get\<close> takes a recycled entry or allocates one.\<close>

definition pool_get :: "FileCache \<Rightarrow> ptr \<times> FileCache" where
  "pool_get c =
     (case entryPool c of
        a # rest \<Rightarrow> (a, c\<lparr>entryPool := rest\<rparr>)
      | [] \<Rightarrow> (next_ptr c, c\<lparr>store := (store c)(next_ptr c := zero_entry), next_ptr := next_ptr c + 1\<rparr>))"

definition FileCache_Set ::
  "nanos \<Rightarrow> string \<Rightarrow> string \<Rightarrow> int \<Rightarrow> nanos \<Rightarrow> string \<Rightarrow> FileCache \<Rightarrow> FileCache option" where
  "FileCache_Set now path data sz modTime contentType c =
     (let etag = GenerateETag modTime sz;
          e = \<lparr>ModTime = modTime, CachedAt = now, LastAccess = now, Path = path, Data = data, fe_Size = sz,
               ETag = etag, ContentType = contentType\<rparr>
      in case entries c path of
           Some a \<Rightarrow>
             let c = c\<lparr>currentSize := currentSize c - fe_Size (store c a)\<rparr>;
                 c = c\<lparr>store := (store c)(a := e\<lparr>Path := Path (store c a)\<rparr>), currentSize := currentSize c + sz\<rparr>
             in evictIfNeeded (MoveToFront a c)
         | None \<Rightarrow>
             (case pool_get c of
                (a, c) \<Rightarrow>
                  evictIfNeeded (c\<lparr>store := (store c)(a := e), lruList := a # lruList c,
                    entries := (entries c)(path \<mapsto> a), currentSize := currentSize c + sz\<rparr>)))"

definition FileCache_Get :: "nanos \<Rightarrow> string \<Rightarrow> FileCache \<Rightarrow> ptr option \<times> FileCache" where
  "FileCache_Get now path c =
     (case entries c path of
        None \<Rightarrow> (None, c)
      | Some a \<Rightarrow>
          let entry = store c a
          in if now - LastAccess entry > inactive c then (None, removeEntry a c)
             else if CachedAt entry = 0 then
               (Some a, MoveToFront a (c\<lparr>store := (store c)(a := entry\<lparr>CachedAt := now, LastAccess := now\<rparr>)\<rparr>))
             else if now - LastAccess entry > 5 * second then
               (Some a, MoveToFront a (c\<lparr>store := (store c)(a := entry\<lparr>LastAccess := now\<rparr>)\<rparr>))
             else (Some a, c))"

definition FileCache_Delete :: "string \<Rightarrow> FileCache \<Rightarrow> FileCache" where
  "FileCache_Delete path c = (case entries c path of None \<Rightarrow> c | Some a \<Rightarrow> removeEntry a c)"

definition RefreshCachedAt :: "nanos \<Rightarrow> string \<Rightarrow> FileCache \<Rightarrow> FileCache" where
  "RefreshCachedAt now path c =
     (case entries c path of
        None \<Rightarrow> c
      | Some a \<Rightarrow> MoveToFront a (c\<lparr>store := (store c)(a := (store c a)\<lparr>CachedAt := now, LastAccess := now\<rparr>)\<rparr>))"

section \<open>Invariant\<close>

definition cache_inv :: "FileCache \<Rightarrow> bool" where
  "cache_inv c \<longleftrightarrow> distinct (lruList c) \<and> distinct (entryPool c) \<and> set (lruList c) \<inter> set (entryPool c) = {}
     \<and> (\<forall>a \<in> set (lruList c) \<union> set (entryPool c). a < next_ptr c)
     \<and> (\<forall>p a. entries c p = Some a \<longleftrightarrow> a \<in> set (lruList c) \<and> Path (store c a) = p)
     \<and> currentSize c = sum_list (map (\<lambda>a. fe_Size (store c a)) (lruList c))"

lemma cache_inv_new: "cache_inv (NewFileCache mxE mxS inact)"
  by (simp add: cache_inv_def NewFileCache_def)

lemma sum_list_remove1:
  "a \<in> set xs \<Longrightarrow> sum_list (map f (remove1 a xs)) = sum_list (map f xs) - (f a :: int)"
  by (induction xs) auto

lemma map_upd_other: "a \<notin> set xs \<Longrightarrow> map (\<lambda>x. f (if x = a then v else g x)) xs = map (\<lambda>x. f (g x)) xs"
  by (rule map_cong) auto

lemma cache_inv_removeEntry:
  assumes "cache_inv c" and "a \<in> set (lruList c)"
  shows "cache_inv (removeEntry a c)"
proof -
  have d: "distinct (lruList c)" and other: "a \<notin> set (remove1 a (lruList c))"
    using assms by (auto simp: cache_inv_def)
  have uniq: "Path (store c b) = Path (store c a) \<Longrightarrow> b \<in> set (lruList c) \<Longrightarrow> b = a" for b
  proof -
    assume b: "Path (store c b) = Path (store c a)" "b \<in> set (lruList c)"
    then have "entries c (Path (store c a)) = Some b" "entries c (Path (store c a)) = Some a"
      using assms by (auto simp: cache_inv_def)
    then show "b = a" by simp
  qed
  have e: "\<forall>p b. entries (removeEntry a c) p = Some b \<longleftrightarrow> b \<in> set (lruList (removeEntry a c)) \<and> Path (store (removeEntry a c) b) = p"
    using assms uniq d by (auto simp: removeEntry_def cache_inv_def)
  have s: "currentSize (removeEntry a c) = sum_list (map (\<lambda>b. fe_Size (store (removeEntry a c) b)) (lruList (removeEntry a c)))"
  proof -
    have "(\<Sum>b\<leftarrow>remove1 a (lruList c). fe_Size (if b = a then zero_entry else store c b))
        = (\<Sum>b\<leftarrow>remove1 a (lruList c). fe_Size (store c b))"
      by (simp only: map_upd_other [OF other])
    then show ?thesis
      using assms sum_list_remove1 [OF assms(2), of "\<lambda>b. fe_Size (store c b)"]
      by (simp add: removeEntry_def cache_inv_def)
  qed
  show ?thesis
    using assms(1,2) d e s by (auto simp: cache_inv_def removeEntry_def)
qed

section \<open>Eviction\<close>

definition trimmed :: "FileCache \<Rightarrow> FileCache \<Rightarrow> bool" where
  "trimmed c c' \<longleftrightarrow> cache_inv c' \<and> (\<exists>k. lruList c' = take k (lruList c))
     \<and> (\<forall>a \<in> set (lruList c'). store c' a = store c a)
     \<and> maxEntries c' = maxEntries c \<and> maxSize c' = maxSize c \<and> inactive c' = inactive c"

lemma trimmed_refl: "cache_inv c \<Longrightarrow> trimmed c c"
  by (auto simp: trimmed_def intro: exI [of _ "length (lruList c)"])

lemma trimmed_trans:
  assumes "trimmed c1 c2" and "trimmed c2 c3"
  shows "trimmed c1 c3"
proof -
  obtain k k' where k: "lruList c2 = take k (lruList c1)" "lruList c3 = take k' (lruList c2)"
    using assms unfolding trimmed_def by blast
  then have "set (lruList c3) \<subseteq> set (lruList c2)" by (simp only: k(2) set_take_subset)
  then have "\<forall>a \<in> set (lruList c3). store c3 a = store c1 a"
    using assms unfolding trimmed_def by auto
  moreover have "lruList c3 = take (min k' k) (lruList c1)" by (simp only: k take_take)
  ultimately show ?thesis using assms unfolding trimmed_def by auto
qed

lemma remove1_last: "distinct xs \<Longrightarrow> xs \<noteq> [] \<Longrightarrow> remove1 (last xs) xs = butlast xs"
  by (cases xs rule: rev_cases) (auto simp: remove1_append)

lemma trimmed_evictLRU:
  assumes "cache_inv c" and "lruList c \<noteq> []"
  shows "trimmed c (evictLRU c)" and "lruList (evictLRU c) = butlast (lruList c)"
proof -
  have l: "last (lruList c) \<in> set (lruList c)" using assms(2) by simp
  have d: "distinct (lruList c)" using assms(1) by (simp add: cache_inv_def)
  show b: "lruList (evictLRU c) = butlast (lruList c)"
    using assms(2) d by (simp add: evictLRU_def removeEntry_def remove1_last)
  have "last (lruList c) \<notin> set (butlast (lruList c))"
    using d assms(2) by (cases "lruList c" rule: rev_cases) auto
  then show "trimmed c (evictLRU c)"
    using assms cache_inv_removeEntry [OF assms(1) l] b
    by (auto simp: trimmed_def evictLRU_def removeEntry_def butlast_conv_take split: if_splits)
qed

lemma evict_entries_returns:
  "cache_inv c \<Longrightarrow> \<exists>c'. evict_entries c = Some c' \<and> trimmed c c'
     \<and> (maxEntries c > 0 \<longrightarrow> int (length (lruList c')) \<le> maxEntries c)
     \<and> (maxEntries c \<le> 0 \<or> int (length (lruList c)) \<le> maxEntries c \<longrightarrow> c' = c)
     \<and> (maxEntries c > 0 \<longrightarrow> int (length (lruList c')) \<ge> min (maxEntries c) (int (length (lruList c))))"
proof (induction "length (lruList c)" arbitrary: c)
  case 0
  then show ?case by (subst evict_entries.simps) (auto simp: trimmed_refl)
next
  case (Suc n)
  show ?case
  proof (cases "int (length (lruList c)) > maxEntries c \<and> maxEntries c > 0")
    case False
    then show ?thesis using Suc.prems by (subst evict_entries.simps) (auto simp: trimmed_refl)
  next
    case True
    have ne: "lruList c \<noteq> []" using Suc.hyps(2) by auto
    note ev = trimmed_evictLRU [OF Suc.prems ne]
    have m: "maxEntries (evictLRU c) = maxEntries c" "cache_inv (evictLRU c)" using ev(1) by (auto simp: trimmed_def)
    have n: "length (lruList (evictLRU c)) = n" using ev(2) Suc.hyps(2) by simp
    obtain c' where c': "evict_entries (evictLRU c) = Some c'" "trimmed (evictLRU c) c'"
      "int (length (lruList c')) \<le> maxEntries c" "int (length (lruList c')) \<ge> min (maxEntries c) (int n)"
      using Suc.hyps(1) [of "evictLRU c"] n m True by auto
    have "evict_entries c = Some c'" using c'(1) True by (subst evict_entries.simps) simp
    then show ?thesis using c' trimmed_trans [OF ev(1) c'(2)] True Suc.hyps(2) by auto
  qed
qed

text \<open>The size loop ends because an empty cache has size zero, which is within any positive bound.\<close>

lemma evict_size_returns:
  "cache_inv c \<Longrightarrow> \<exists>c'. evict_size c = Some c' \<and> trimmed c c' \<and> (maxSize c > 0 \<longrightarrow> currentSize c' \<le> maxSize c)
     \<and> (maxSize c \<le> 0 \<or> currentSize c \<le> maxSize c \<longrightarrow> c' = c)"
proof (induction "length (lruList c)" arbitrary: c)
  case 0
  then have "currentSize c = 0" by (simp add: cache_inv_def)
  then show ?case using 0 by (subst evict_size.simps) (auto simp: trimmed_refl)
next
  case (Suc n)
  show ?case
  proof (cases "currentSize c > maxSize c \<and> maxSize c > 0")
    case False
    then show ?thesis using Suc.prems by (subst evict_size.simps) (auto simp: trimmed_refl)
  next
    case True
    have ne: "lruList c \<noteq> []" using Suc.hyps(2) by auto
    note ev = trimmed_evictLRU [OF Suc.prems ne]
    have m: "maxSize (evictLRU c) = maxSize c" "cache_inv (evictLRU c)" using ev(1) by (auto simp: trimmed_def)
    have n: "length (lruList (evictLRU c)) = n" using ev(2) Suc.hyps(2) by simp
    obtain c' where c': "evict_size (evictLRU c) = Some c'" "trimmed (evictLRU c) c'" "currentSize c' \<le> maxSize c"
      using Suc.hyps(1) [of "evictLRU c"] n m True by auto
    have "evict_size c = Some c'" using c'(1) True by (subst evict_size.simps) simp
    then show ?thesis using c' trimmed_trans [OF ev(1) c'(2)] True by auto
  qed
qed

lemma evictIfNeeded_returns:
  assumes "cache_inv c"
  shows "\<exists>c'. evictIfNeeded c = Some c' \<and> trimmed c c'
    \<and> (maxEntries c > 0 \<longrightarrow> int (length (lruList c')) \<le> maxEntries c) \<and> (maxSize c > 0 \<longrightarrow> currentSize c' \<le> maxSize c)"
proof -
  obtain c1 where c1: "evict_entries c = Some c1" "trimmed c c1" "maxEntries c > 0 \<longrightarrow> int (length (lruList c1)) \<le> maxEntries c"
    using evict_entries_returns [OF assms] by blast
  have i: "cache_inv c1" "maxSize c1 = maxSize c" using c1(2) by (auto simp: trimmed_def)
  obtain c2 where c2: "evict_size c1 = Some c2" "trimmed c1 c2" "maxSize c > 0 \<longrightarrow> currentSize c2 \<le> maxSize c"
    using evict_size_returns [OF i(1)] i(2) by auto
  have "length (lruList c2) \<le> length (lruList c1)" using c2(2) by (auto simp: trimmed_def)
  then show ?thesis
    using c1 c2 trimmed_trans [OF c1(2) c2(2)] by (auto simp: evictIfNeeded_def)
qed

section \<open>What the operations do to the cache\<close>

text \<open>The cached entries, most recently used first.\<close>

definition view :: "FileCache \<Rightarrow> FileEntry list" where
  "view c = map (store c) (lruList c)"

definition new_entry :: "nanos \<Rightarrow> string \<Rightarrow> string \<Rightarrow> int \<Rightarrow> nanos \<Rightarrow> string \<Rightarrow> FileEntry" where
  "new_entry now path data sz modTime contentType =
     \<lparr>ModTime = modTime, CachedAt = now, LastAccess = now, Path = path, Data = data, fe_Size = sz,
      ETag = GenerateETag modTime sz, ContentType = contentType\<rparr>"

lemma entries_inv: "cache_inv c \<Longrightarrow> entries c p = Some a \<longleftrightarrow> a \<in> set (lruList c) \<and> Path (store c a) = p"
  by (simp add: cache_inv_def)

lemma filter_neq: "filter (\<lambda>b. b \<noteq> a) xs = removeAll a xs"
  by (induction xs) auto

lemma filter_lru_path:
  assumes "cache_inv c" and "entries c path = Some a"
  shows "filter (\<lambda>b. Path (store c b) \<noteq> path) (lruList c) = remove1 a (lruList c)"
proof -
  have d: "distinct (lruList c)" using assms(1) by (simp add: cache_inv_def)
  have "Path (store c b) \<noteq> path \<longleftrightarrow> b \<noteq> a" if "b \<in> set (lruList c)" for b
    using entries_inv [OF assms(1), of path b] entries_inv [OF assms(1), of path a] assms(2) that by auto
  then have "filter (\<lambda>b. Path (store c b) \<noteq> path) (lruList c) = filter (\<lambda>b. b \<noteq> a) (lruList c)"
    by (intro filter_cong) auto
  then show ?thesis by (simp only: filter_neq distinct_remove1_removeAll [OF d])
qed

text \<open>Replacing one entry by another of the same path and moving it to the front.\<close>

lemma cache_inv_touch:
  assumes inv: "cache_inv c" and a: "a \<in> set (lruList c)" and p: "Path e = Path (store c a)"
    and c': "lruList c' = a # remove1 a (lruList c)" "store c' = (store c)(a := e)" "entries c' = entries c"
      "currentSize c' = currentSize c - fe_Size (store c a) + fe_Size e" "entryPool c' = entryPool c" "next_ptr c' = next_ptr c"
  shows "cache_inv c'"
    and "view c' = e # filter (\<lambda>x. Path x \<noteq> Path e) (view c)"
proof -
  have d: "distinct (lruList c)" using inv by (simp add: cache_inv_def)
  have na: "a \<notin> set (remove1 a (lruList c))" using d by simp
  have s: "(\<Sum>b\<leftarrow>remove1 a (lruList c). fe_Size (if b = a then e else store c b)) = (\<Sum>b\<leftarrow>remove1 a (lruList c). fe_Size (store c b))"
    by (simp only: map_upd_other [OF na])
  have ent: "\<forall>q b. entries c' q = Some b \<longleftrightarrow> b \<in> set (lruList c') \<and> Path (store c' b) = q"
    using entries_inv [OF inv] a p d by (auto simp: c')
  have siz: "currentSize c' = (\<Sum>b\<leftarrow>lruList c'. fe_Size (store c' b))"
    using inv s sum_list_remove1 [OF a, of "\<lambda>b. fe_Size (store c b)"] by (simp add: c' cache_inv_def)
  have "distinct (lruList c')" "set (lruList c') = set (lruList c)" using d a by (auto simp: c')
  then show "cache_inv c'" using inv ent siz unfolding cache_inv_def by (simp add: c')
  have en: "entries c (Path e) = Some a" using entries_inv [OF inv, of "Path e" a] a p by simp
  have "view c' = e # map (store c) (remove1 a (lruList c))"
    using na by (auto simp: view_def c' intro: map_cong)
  then show "view c' = e # filter (\<lambda>x. Path x \<noteq> Path e) (view c)"
    using filter_lru_path [OF inv en] by (simp add: view_def filter_map comp_def)
qed

lemma cache_inv_add:
  assumes inv: "cache_inv c" and p: "entries c (Path e) = None" and a: "a \<notin> set (lruList c)" "a < next_ptr c'"
    and c': "lruList c' = a # lruList c" "store c' = (store c)(a := e)" "entries c' = (entries c)(Path e \<mapsto> a)"
      "currentSize c' = currentSize c + fe_Size e" "next_ptr c \<le> next_ptr c'"
      "distinct (entryPool c')" "set (entryPool c') \<subseteq> set (entryPool c) - {a}"
  shows "cache_inv c'" and "view c' = e # filter (\<lambda>x. Path x \<noteq> Path e) (view c)"
proof -
  have np: "Path (store c b) \<noteq> Path e" if "b \<in> set (lruList c)" for b
    using entries_inv [OF inv, of "Path e" b] p that by auto
  have s: "(\<Sum>b\<leftarrow>lruList c. fe_Size (if b = a then e else store c b)) = (\<Sum>b\<leftarrow>lruList c. fe_Size (store c b))"
    by (simp only: map_upd_other [OF a(1)])
  have ent: "\<forall>q b. entries c' q = Some b \<longleftrightarrow> b \<in> set (lruList c') \<and> Path (store c' b) = q"
    using entries_inv [OF inv] a(1) np by (auto simp: c')
  have siz: "currentSize c' = (\<Sum>b\<leftarrow>lruList c'. fe_Size (store c' b))"
    using inv s by (simp add: c' cache_inv_def)
  have lt: "\<forall>b \<in> set (lruList c') \<union> set (entryPool c'). b < next_ptr c'"
  proof -
    have "b < next_ptr c'" if "b \<in> set (lruList c) \<union> set (entryPool c)" for b
    proof -
      have "b < next_ptr c" using inv that by (simp add: cache_inv_def)
      then show ?thesis using c'(5) by simp
    qed
    then show ?thesis using a(2) c'(1,7) by auto
  qed
  have dis: "distinct (lruList c')" "set (lruList c') \<inter> set (entryPool c') = {}"
    using inv a(1) c'(1,7) unfolding cache_inv_def by auto
  show "cache_inv c'" using dis lt ent siz c'(6) unfolding cache_inv_def by simp
  have "filter (\<lambda>b. Path (store c b) \<noteq> Path e) (lruList c) = lruList c" using np by (simp add: filter_id_conv)
  then show "view c' = e # filter (\<lambda>x. Path x \<noteq> Path e) (view c)"
    using a(1) by (auto simp: view_def c' filter_map comp_def intro: map_cong)
qed

text \<open>\<open>Set\<close> puts the new entry in front of the others and then evicts.\<close>

lemma Set_evicts:
  assumes "cache_inv c"
  shows "\<exists>c1. FileCache_Set now path data sz modTime contentType c = evictIfNeeded c1 \<and> cache_inv c1
    \<and> view c1 = new_entry now path data sz modTime contentType # filter (\<lambda>x. Path x \<noteq> path) (view c)
    \<and> maxEntries c1 = maxEntries c \<and> maxSize c1 = maxSize c \<and> inactive c1 = inactive c"
proof -
  let ?e = "new_entry now path data sz modTime contentType"
  have pe: "Path ?e = path" by (simp add: new_entry_def)
  show ?thesis
  proof (cases "entries c path")
    case (Some a)
    then have a: "a \<in> set (lruList c)" "Path (store c a) = path" using entries_inv [OF assms] by auto
    let ?c = "c\<lparr>store := (store c)(a := ?e), currentSize := currentSize c - fe_Size (store c a) + sz,
      lruList := a # remove1 a (lruList c)\<rparr>"
    have eq: "FileCache_Set now path data sz modTime contentType c = evictIfNeeded ?c"
      using Some a(2) by (simp add: FileCache_Set_def MoveToFront_def new_entry_def Let_def)
    have fe: "fe_Size ?e = sz" by (simp add: new_entry_def)
    have "cache_inv ?c"
      by (rule cache_inv_touch(1) [OF assms a(1), where e = ?e]) (simp_all add: a(2) pe fe)
    moreover have "view ?c = ?e # filter (\<lambda>x. Path x \<noteq> Path ?e) (view c)"
      by (rule cache_inv_touch(2) [OF assms a(1), where e = ?e]) (simp_all add: a(2) pe fe)
    ultimately show ?thesis using eq unfolding pe by (intro exI [of _ ?c]) simp
  next
    case None
    obtain a c0 where g: "pool_get c = (a, c0)" by fastforce
    let ?c = "c0\<lparr>store := (store c0)(a := ?e), lruList := a # lruList c0, entries := (entries c0)(path \<mapsto> a),
      currentSize := currentSize c0 + sz\<rparr>"
    have eq: "FileCache_Set now path data sz modTime contentType c = evictIfNeeded ?c"
      using None g by (simp add: FileCache_Set_def new_entry_def Let_def)
    have c0: "lruList c0 = lruList c" "(store c0)(a := ?e) = (store c)(a := ?e)" "entries c0 = entries c"
      "currentSize c0 = currentSize c" "next_ptr c \<le> next_ptr c0" "maxEntries c0 = maxEntries c" "maxSize c0 = maxSize c"
      "inactive c0 = inactive c"
      using g by (auto simp: pool_get_def split: list.splits)
    have fresh: "a \<notin> set (lruList c)" "a < next_ptr c0" "distinct (entryPool c0)" "set (entryPool c0) \<subseteq> set (entryPool c) - {a}"
      using g assms by (auto simp: pool_get_def cache_inv_def split: list.splits)
    have fe: "fe_Size ?e = sz" by (simp add: new_entry_def)
    have "cache_inv ?c"
      by (rule cache_inv_add(1) [OF assms _ fresh(1), where e = ?e]) (simp_all add: None c0 fresh pe fe)
    moreover have "view ?c = ?e # filter (\<lambda>x. Path x \<noteq> Path ?e) (view c)"
      by (rule cache_inv_add(2) [OF assms _ fresh(1), where e = ?e]) (simp_all add: None c0 fresh pe fe)
    ultimately show ?thesis using eq c0 unfolding pe by (intro exI [of _ ?c]) simp
  qed
qed

lemma trimmed_view: "trimmed c c' \<Longrightarrow> \<exists>k. view c' = take k (view c)"
proof -
  assume "trimmed c c'"
  then obtain k where k: "lruList c' = take k (lruList c)" "\<forall>a \<in> set (lruList c'). store c' a = store c a"
    unfolding trimmed_def by blast
  then have "view c' = map (store c) (take k (lruList c))" by (simp add: view_def)
  then show ?thesis by (auto simp: view_def take_map)
qed

lemma currentSize_view: "cache_inv c \<Longrightarrow> currentSize c = sum_list (map fe_Size (view c))"
  by (simp add: cache_inv_def view_def comp_def)

definition within_limits :: "FileCache \<Rightarrow> bool" where
  "within_limits c \<longleftrightarrow> (maxEntries c > 0 \<longrightarrow> int (length (lruList c)) \<le> maxEntries c) \<and> (maxSize c > 0 \<longrightarrow> currentSize c \<le> maxSize c)"

text \<open>Entries within the limits, and the longest part of a list from its front that is: what has to go is the
  shortest part at the end after which the rest fits.\<close>

definition fits :: "FileCache \<Rightarrow> FileEntry list \<Rightarrow> bool" where
  "fits c es \<longleftrightarrow> (maxEntries c > 0 \<longrightarrow> int (length es) \<le> maxEntries c) \<and> (maxSize c > 0 \<longrightarrow> sum_list (map fe_Size es) \<le> maxSize c)"

definition longest_fit :: "FileCache \<Rightarrow> FileEntry list \<Rightarrow> FileEntry list \<Rightarrow> bool" where
  "longest_fit c es kept \<longleftrightarrow> fits c kept
     \<and> (\<exists>k \<le> length es. kept = take k es \<and> (\<forall>j. k < j \<and> j \<le> length es \<longrightarrow> \<not> fits c (take j es)))"

lemma view_evictLRU: "cache_inv c \<Longrightarrow> lruList c \<noteq> [] \<Longrightarrow> view (evictLRU c) = butlast (view c)"
proof -
  assume c: "cache_inv c" "lruList c \<noteq> []"
  note ev = trimmed_evictLRU [OF c]
  have "map (store (evictLRU c)) (butlast (lruList c)) = map (store c) (butlast (lruList c))"
    using ev by (auto simp: trimmed_def)
  then show ?thesis using ev(2) by (simp add: view_def map_butlast)
qed

lemma evict_size_needed:
  "cache_inv c \<Longrightarrow> evict_size c = Some c' \<Longrightarrow> length (view c') < j \<Longrightarrow> j \<le> length (view c)
    \<Longrightarrow> maxSize c > 0 \<and> sum_list (map fe_Size (take j (view c))) > maxSize c"
proof (induction "length (lruList c)" arbitrary: c)
  case 0
  then show ?case by (simp add: view_def)
next
  case (Suc n)
  show ?case
  proof (cases "currentSize c > maxSize c \<and> maxSize c > 0")
    case False
    then have "c' = c" using Suc.prems(2) by (subst (asm) evict_size.simps) (auto split: if_splits)
    then show ?thesis using Suc.prems by simp
  next
    case True
    have ne: "lruList c \<noteq> []" using Suc.hyps(2) by auto
    note ev = trimmed_evictLRU [OF Suc.prems(1) ne] and v = view_evictLRU [OF Suc.prems(1) ne]
    have e: "evict_size (evictLRU c) = Some c'" using Suc.prems(2) True by (subst (asm) evict_size.simps) simp
    have m: "maxSize (evictLRU c) = maxSize c" "cache_inv (evictLRU c)" using ev(1) by (auto simp: trimmed_def)
    show ?thesis
    proof (cases "j = length (view c)")
      case True': True
      then show ?thesis using True currentSize_view [OF Suc.prems(1)] by simp
    next
      case False
      then have j: "j \<le> length (view (evictLRU c))" using Suc.prems(4) v by simp
      have "take j (view (evictLRU c)) = take j (view c)" using j v by (simp add: butlast_conv_take min_absorb1)
      moreover have "n = length (lruList (evictLRU c))" using ev(2) Suc.hyps(2) by simp
      ultimately show ?thesis using Suc.hyps(1) [OF _ m(2) e Suc.prems(3) j] m(1) by simp
    qed
  qed
qed

lemma evictIfNeeded_longest:
  assumes "cache_inv c"
  shows "\<exists>c'. evictIfNeeded c = Some c' \<and> trimmed c c' \<and> longest_fit c (view c) (view c')"
proof -
  obtain c1 where c1: "evict_entries c = Some c1" "trimmed c c1"
      "maxEntries c > 0 \<longrightarrow> int (length (lruList c1)) \<le> maxEntries c"
      "maxEntries c \<le> 0 \<or> int (length (lruList c)) \<le> maxEntries c \<longrightarrow> c1 = c"
      "maxEntries c > 0 \<longrightarrow> int (length (lruList c1)) \<ge> min (maxEntries c) (int (length (lruList c)))"
    using evict_entries_returns [OF assms] by blast
  have i: "cache_inv c1" "maxSize c1 = maxSize c" using c1(2) by (auto simp: trimmed_def)
  obtain c2 where c2: "evict_size c1 = Some c2" "trimmed c1 c2" "maxSize c > 0 \<longrightarrow> currentSize c2 \<le> maxSize c"
    using evict_size_returns [OF i(1)] i(2) by auto
  note tr = trimmed_trans [OF c1(2) c2(2)]
  obtain k1 k2 where v: "view c1 = take k1 (view c)" "view c2 = take k2 (view c1)"
    using trimmed_view [OF c1(2)] trimmed_view [OF c2(2)] by blast
  have l: "length (view c2) \<le> length (view c1)" "length (view c1) \<le> length (view c)" using v by simp_all
  have pre: "view c1 = take (length (view c1)) (view c)" "view c2 = take (length (view c2)) (view c)"
    using v by (simp_all add: min_def)
  have "fits c (view c2)"
    using c1(3) c2(3) l(1) currentSize_view [of c2] c2(2) by (auto simp: fits_def view_def trimmed_def)
  moreover have "\<not> fits c (take j (view c))" if j: "length (view c2) < j" "j \<le> length (view c)" for j
  proof (cases "j \<le> length (view c1)")
    case True
    then have "take j (view c1) = take j (view c)" using pre(1) by (metis min.absorb1 take_take)
    then show ?thesis using evict_size_needed [OF i(1) c2(1) j(1) True] i(2) by (simp add: fits_def)
  next
    case False
    then have "c1 \<noteq> c" using j(2) by auto
    then have "maxEntries c > 0" "maxEntries c < int (length (lruList c))" using c1(4) by auto
    then have "int (length (lruList c1)) = maxEntries c" using c1(3,5) by simp
    then show ?thesis using False j(2) \<open>maxEntries c > 0\<close> by (simp add: fits_def view_def)
  qed
  ultimately have "longest_fit c (view c) (view c2)"
    unfolding longest_fit_def using pre(2) l by (metis le_trans)
  then show ?thesis using c1(1) c2(1) tr by (auto simp: evictIfNeeded_def)
qed

text \<open>C11. The file cache is an LRU cache. Storing a file always returns and keeps the cache consistent and
  within its limits of entries and bytes; the new entry goes in front of the other entries, which keep their order,
  and of this list the cache keeps the longest part from the front that is within the limits. So what is
  evicted is what was used least recently, nothing if the limits allow it, and never an entry more than needed.\<close>

theorem file_cache_set_lru:
  assumes "cache_inv c"
  shows "\<exists>c'. FileCache_Set now path data sz modTime contentType c = Some c' \<and> cache_inv c' \<and> within_limits c'
    \<and> longest_fit c (new_entry now path data sz modTime contentType # filter (\<lambda>x. Path x \<noteq> path) (view c)) (view c')"
proof -
  obtain c1 where c1: "FileCache_Set now path data sz modTime contentType c = evictIfNeeded c1" "cache_inv c1"
    "view c1 = new_entry now path data sz modTime contentType # filter (\<lambda>x. Path x \<noteq> path) (view c)"
    "maxEntries c1 = maxEntries c" "maxSize c1 = maxSize c"
    using Set_evicts [OF assms] by blast
  obtain c' where c': "evictIfNeeded c1 = Some c'" "trimmed c1 c'" "longest_fit c1 (view c1) (view c')"
    using evictIfNeeded_longest [OF c1(2)] by blast
  have inv: "cache_inv c'" and m: "maxEntries c' = maxEntries c1" "maxSize c' = maxSize c1"
    using c'(2) by (auto simp: trimmed_def)
  have "fits c1 (view c')" using c'(3) by (simp add: longest_fit_def)
  then have "within_limits c'"
    using m currentSize_view [OF inv] by (simp add: fits_def within_limits_def view_def)
  moreover have "longest_fit c = longest_fit c1" using c1(4,5) by (intro ext) (simp add: longest_fit_def fits_def)
  ultimately show ?thesis using c1 c' inv by simp
qed

definition demo_cache :: FileCache where
  "demo_cache = NewFileCache 1 100 60"

lemma demo_cache_inv: "cache_inv demo_cache"
  unfolding demo_cache_def by (rule cache_inv_new)

theorem file_cache_set_lru_witness:
  "\<exists>c'. FileCache_Set 5 ''/a'' ''x'' 1 0 ''text/plain'' demo_cache = Some c' \<and> cache_inv c' \<and> within_limits c'
     \<and> view c' = [new_entry 5 ''/a'' ''x'' 1 0 ''text/plain'']"
proof -
  let ?e = "new_entry 5 ''/a'' ''x'' 1 0 ''text/plain''"
  have v: "view demo_cache = []" by (simp add: view_def demo_cache_def NewFileCache_def)
  obtain c' where c': "FileCache_Set 5 ''/a'' ''x'' 1 0 ''text/plain'' demo_cache = Some c'" "cache_inv c'" "within_limits c'"
      "longest_fit demo_cache [?e] (view c')"
    using file_cache_set_lru [OF demo_cache_inv, of 5 "''/a''" "''x''" 1 0 "''text/plain''"] v by auto
  have "fits demo_cache [?e]" by (simp add: fits_def demo_cache_def NewFileCache_def new_entry_def)
  then have "view c' = [?e]" using c'(4) by (force simp: longest_fit_def le_Suc_eq)
  then show ?thesis using c' by blast
qed

section \<open>Reading back\<close>

lemma evict_entries_keeps_front:
  assumes "cache_inv c" and "lruList c \<noteq> []"
  shows "\<exists>c'. evict_entries c = Some c' \<and> trimmed c c' \<and> lruList c' \<noteq> []"
proof -
  obtain c' where c': "evict_entries c = Some c'" "trimmed c c'" "maxEntries c \<le> 0 \<longrightarrow> c' = c"
    "maxEntries c > 0 \<longrightarrow> int (length (lruList c')) \<ge> min (maxEntries c) (int (length (lruList c)))"
    using evict_entries_returns [OF assms(1)] by blast
  then show ?thesis using assms(2) by (cases "maxEntries c \<le> 0") (auto simp: min_def split: if_splits)
qed

lemma evict_size_keeps_front:
  "cache_inv c \<Longrightarrow> lruList c \<noteq> [] \<Longrightarrow> maxSize c \<le> 0 \<or> fe_Size (store c (hd (lruList c))) \<le> maxSize c
    \<Longrightarrow> \<exists>c'. evict_size c = Some c' \<and> trimmed c c' \<and> lruList c' \<noteq> []"
proof (induction "length (lruList c)" arbitrary: c)
  case (Suc n)
  show ?case
  proof (cases "currentSize c > maxSize c \<and> maxSize c > 0")
    case False
    then show ?thesis using Suc.prems by (subst evict_size.simps) (auto simp: trimmed_refl)
  next
    case True
    note ev = trimmed_evictLRU [OF Suc.prems(1,2)]
    have two: "butlast (lruList c) \<noteq> []"
    proof
      assume "butlast (lruList c) = []"
      then have "lruList c = [hd (lruList c)]" using Suc.prems(2) by (cases "lruList c") (auto split: if_splits)
      then have "currentSize c = fe_Size (store c (hd (lruList c)))"
        using Suc.prems(1) unfolding cache_inv_def by (metis (no_types, lifting) add.right_neutral list.simps(8,9) sum_list.Cons sum_list.Nil)
      then show False using True Suc.prems(3) by auto
    qed
    have hd: "hd (lruList (evictLRU c)) = hd (lruList c)" using ev(2) two by (cases "lruList c") (auto split: if_splits)
    have e: "cache_inv (evictLRU c)" "maxSize (evictLRU c) = maxSize c" using ev(1) by (auto simp: trimmed_def)
    have "store (evictLRU c) (hd (lruList c)) = store c (hd (lruList c))"
      using ev two hd unfolding trimmed_def by (metis hd_in_set)
    moreover have n: "n = length (lruList (evictLRU c))" using ev(2) Suc.hyps(2) by simp
    ultimately obtain c' where "evict_size (evictLRU c) = Some c'" "trimmed (evictLRU c) c'" "lruList c' \<noteq> []"
      using Suc.hyps(1) [OF n e(1)] Suc.prems(3) e(2) hd ev(2) two by metis
    moreover have "evict_size c = evict_size (evictLRU c)" using True by (subst evict_size.simps) simp
    ultimately show ?thesis using trimmed_trans [OF ev(1)] by auto
  qed
qed simp

lemma Set_keeps_new:
  assumes "cache_inv c" and "maxSize c \<le> 0 \<or> sz \<le> maxSize c"
  shows "\<exists>c' a rest. FileCache_Set now path data sz modTime contentType c = Some c' \<and> cache_inv c'
    \<and> lruList c' = a # rest \<and> store c' a = new_entry now path data sz modTime contentType \<and> inactive c' = inactive c"
proof -
  let ?e = "new_entry now path data sz modTime contentType"
  obtain c1 where c1: "FileCache_Set now path data sz modTime contentType c = evictIfNeeded c1" "cache_inv c1"
    "view c1 = ?e # filter (\<lambda>x. Path x \<noteq> path) (view c)" "maxSize c1 = maxSize c" "inactive c1 = inactive c"
    using Set_evicts [OF assms(1)] by blast
  obtain a as where a: "lruList c1 = a # as" "store c1 a = ?e" using c1(3) by (cases "lruList c1") (auto simp: view_def)
  obtain c2 where c2: "evict_entries c1 = Some c2" "trimmed c1 c2" "lruList c2 \<noteq> []"
    using evict_entries_keeps_front [OF c1(2)] a(1) by auto
  have front: "hd (lruList d) = a \<and> store d a = ?e" if tr: "trimmed c1 d" and ne: "lruList d \<noteq> []" for d
  proof -
    obtain k where k: "lruList d = take k (lruList c1)" using tr unfolding trimmed_def by blast
    then have "hd (lruList d) = a" using ne a(1) by (cases k) auto
    moreover have "store d (hd (lruList d)) = store c1 (hd (lruList d))" using tr ne unfolding trimmed_def by auto
    ultimately show ?thesis using a(2) by simp
  qed
  have i2: "cache_inv c2" "maxSize c2 = maxSize c" using c2(2) c1(4) by (auto simp: trimmed_def)
  obtain c3 where c3: "evict_size c2 = Some c3" "trimmed c2 c3" "lruList c3 \<noteq> []"
    using evict_size_keeps_front [OF i2(1) c2(3)] front [OF c2(2,3)] assms(2) i2(2) by (auto simp: new_entry_def)
  have tr: "trimmed c1 c3" by (rule trimmed_trans [OF c2(2) c3(2)])
  show ?thesis
    using c1 c2(1) c3 front [OF tr c3(3)] tr
    by (cases "lruList c3") (auto simp: evictIfNeeded_def trimmed_def)
qed

text \<open>What was stored is read back: unless the file alone exceeds the byte limit, a lookup
  within the inactivity time returns an entry with the data, size, type and validator that were stored.\<close>

theorem file_cache_roundtrip:
  assumes "cache_inv c" and "maxSize c \<le> 0 \<or> sz \<le> maxSize c" and "now' - now \<le> inactive c"
  shows "\<exists>c' a c''. FileCache_Set now path data sz modTime contentType c = Some c'
    \<and> FileCache_Get now' path c' = (Some a, c'')
    \<and> Data (store c'' a) = data \<and> fe_Size (store c'' a) = sz \<and> Path (store c'' a) = path
    \<and> ContentType (store c'' a) = contentType \<and> ETag (store c'' a) = GenerateETag modTime sz"
proof -
  obtain c' a rest where c': "FileCache_Set now path data sz modTime contentType c = Some c'" "cache_inv c'"
    "lruList c' = a # rest" "store c' a = new_entry now path data sz modTime contentType" "inactive c' = inactive c"
    using Set_keeps_new [OF assms(1,2)] by blast
  have "entries c' path = Some a" using entries_inv [OF c'(2)] c'(3,4) by (simp add: new_entry_def)
  then show ?thesis
    using c' assms(3) by (auto simp: FileCache_Get_def MoveToFront_def new_entry_def Let_def)
qed

theorem file_cache_roundtrip_witness:
  "\<exists>c' a c''. FileCache_Set 5 ''/a'' ''x'' 1 0 ''text/plain'' demo_cache = Some c'
    \<and> FileCache_Get 30 ''/a'' c' = (Some a, c'') \<and> Data (store c'' a) = ''x''"
proof -
  have h: "maxSize demo_cache \<le> 0 \<or> 1 \<le> maxSize demo_cache" "30 - 5 \<le> inactive demo_cache"
    by (simp_all add: demo_cache_def NewFileCache_def)
  show ?thesis
    using file_cache_roundtrip [OF demo_cache_inv h, of "''/a''" "''x''" 0 "''text/plain''"] by blast
qed

text \<open>A sequence of operations, with the instant of each.\<close>

datatype cache_op =
    OpSet nanos string string int nanos string
  | OpGet nanos string
  | OpDelete string
  | OpRefresh nanos string

fun apply_op :: "cache_op \<Rightarrow> FileCache \<Rightarrow> FileCache option" where
  "apply_op (OpSet now path data sz modTime ct) c = FileCache_Set now path data sz modTime ct c"
| "apply_op (OpGet now path) c = Some (snd (FileCache_Get now path c))"
| "apply_op (OpDelete path) c = Some (FileCache_Delete path c)"
| "apply_op (OpRefresh now path) c = Some (RefreshCachedAt now path c)"

fun apply_ops :: "cache_op list \<Rightarrow> FileCache \<Rightarrow> FileCache option" where
  "apply_ops [] c = Some c"
| "apply_ops (op # ops) c = (case apply_op op c of None \<Rightarrow> None | Some c' \<Rightarrow> apply_ops ops c')"

text \<open>Touching an entry keeps its size, so the limits hold as before.\<close>

lemma touch_keeps:
  assumes "cache_inv c" and "a \<in> set (lruList c)" and "Path e = Path (store c a)" and "fe_Size e = fe_Size (store c a)"
    and "within_limits c"
  shows "cache_inv (MoveToFront a (c\<lparr>store := (store c)(a := e)\<rparr>)) \<and> within_limits (MoveToFront a (c\<lparr>store := (store c)(a := e)\<rparr>))"
proof
  show "cache_inv (MoveToFront a (c\<lparr>store := (store c)(a := e)\<rparr>))"
    by (rule cache_inv_touch(1) [OF assms(1,2,3)]) (simp_all add: MoveToFront_def assms(4))
  have "length (a # remove1 a (lruList c)) = length (lruList c)" using assms(2) length_pos_if_in_set [OF assms(2)] by (simp add: length_remove1)
  then show "within_limits (MoveToFront a (c\<lparr>store := (store c)(a := e)\<rparr>))"
    using assms(5) unfolding within_limits_def MoveToFront_def by simp
qed

definition sizes_ok :: "FileCache \<Rightarrow> bool" where
  "sizes_ok c \<longleftrightarrow> (\<forall>x \<in> set (view c). 0 \<le> fe_Size x)"

lemma removeEntry_keeps:
  assumes "cache_inv c" and "a \<in> set (lruList c)" and "within_limits c" and "sizes_ok c"
  shows "cache_inv (removeEntry a c) \<and> within_limits (removeEntry a c) \<and> sizes_ok (removeEntry a c)"
proof (intro conjI)
  show "cache_inv (removeEntry a c)" by (rule cache_inv_removeEntry [OF assms(1,2)])
  have "0 \<le> fe_Size (store c a)" using assms(2,4) by (simp add: sizes_ok_def view_def)
  moreover have "length (remove1 a (lruList c)) \<le> length (lruList c)" by (simp add: length_remove1)
  ultimately show "within_limits (removeEntry a c)"
    using assms(3) unfolding within_limits_def removeEntry_def by auto
  show "sizes_ok (removeEntry a c)"
    using assms(1,4) notin_set_remove1 [of _ "lruList c" a]
    by (auto simp: sizes_ok_def view_def removeEntry_def zero_entry_def)
qed

definition op_size_ok :: "cache_op \<Rightarrow> bool" where
  "op_size_ok op = (case op of OpSet _ _ _ sz _ _ \<Rightarrow> 0 \<le> sz | _ \<Rightarrow> True)"

lemma touch_sizes:
  "sizes_ok c \<Longrightarrow> a \<in> set (lruList c) \<Longrightarrow> fe_Size e = fe_Size (store c a) \<Longrightarrow>
    sizes_ok (MoveToFront a (c\<lparr>store := (store c)(a := e)\<rparr>))"
  using notin_set_remove1 [of _ "lruList c" a] by (auto simp: sizes_ok_def view_def MoveToFront_def)

lemma apply_op_keeps:
  assumes inv: "cache_inv c" "within_limits c" "sizes_ok c" and ok: "op_size_ok op"
  shows "\<exists>c'. apply_op op c = Some c' \<and> cache_inv c' \<and> within_limits c' \<and> sizes_ok c'"
proof (cases op)
  case (OpSet now path data sz modTime ct)
  obtain c' k where c': "FileCache_Set now path data sz modTime ct c = Some c'" "cache_inv c'" "within_limits c'"
    "view c' = take k (new_entry now path data sz modTime ct # filter (\<lambda>x. Path x \<noteq> path) (view c))"
  proof -
    obtain c1 where c1: "FileCache_Set now path data sz modTime ct c = evictIfNeeded c1" "cache_inv c1"
      "view c1 = new_entry now path data sz modTime ct # filter (\<lambda>x. Path x \<noteq> path) (view c)"
      using Set_evicts [OF inv(1)] by blast
    obtain c2 where c2: "evictIfNeeded c1 = Some c2" "trimmed c1 c2"
      "maxEntries c1 > 0 \<longrightarrow> int (length (lruList c2)) \<le> maxEntries c1" "maxSize c1 > 0 \<longrightarrow> currentSize c2 \<le> maxSize c1"
      using evictIfNeeded_returns [OF c1(2)] by blast
    then have "cache_inv c2" "within_limits c2" by (auto simp: trimmed_def within_limits_def)
    then show ?thesis using that c1 c2(1) trimmed_view [OF c2(2)] by auto
  qed
  have "0 \<le> fe_Size x" if "x \<in> set (view c')" for x
    using that c'(4) inv(3) ok OpSet by (auto simp: sizes_ok_def op_size_ok_def new_entry_def dest!: in_set_takeD)
  then show ?thesis using OpSet c' by (auto simp: sizes_ok_def)
next
  case (OpGet now path)
  show ?thesis
  proof (cases "entries c path")
    case (Some a)
    then have a: "a \<in> set (lruList c)" using entries_inv [OF inv(1)] by auto
    show ?thesis
      using OpGet Some inv a removeEntry_keeps [OF inv(1) a inv(2,3)] touch_keeps [OF inv(1) a _ _ inv(2)] touch_sizes [OF inv(3) a]
      by (simp add: FileCache_Get_def Let_def)
  qed (use OpGet inv in \<open>simp add: FileCache_Get_def\<close>)
next
  case (OpDelete path)
  show ?thesis
  proof (cases "entries c path")
    case (Some a)
    then have a: "a \<in> set (lruList c)" using entries_inv [OF inv(1)] by auto
    then show ?thesis using OpDelete Some removeEntry_keeps [OF inv(1) a inv(2,3)] by (simp add: FileCache_Delete_def)
  qed (use OpDelete inv in \<open>simp add: FileCache_Delete_def\<close>)
next
  case (OpRefresh now path)
  show ?thesis
  proof (cases "entries c path")
    case (Some a)
    then have a: "a \<in> set (lruList c)" using entries_inv [OF inv(1)] by auto
    then show ?thesis using OpRefresh Some touch_keeps [OF inv(1) a _ _ inv(2)] touch_sizes [OF inv(3) a]
      by (simp add: RefreshCachedAt_def)
  qed (use OpRefresh inv in \<open>simp add: RefreshCachedAt_def\<close>)
qed

lemma apply_ops_keeps:
  "cache_inv c \<Longrightarrow> within_limits c \<Longrightarrow> sizes_ok c \<Longrightarrow> \<forall>op \<in> set ops. op_size_ok op
    \<Longrightarrow> \<exists>c'. apply_ops ops c = Some c' \<and> cache_inv c' \<and> within_limits c'"
proof (induction ops arbitrary: c)
  case (Cons op ops)
  obtain c1 where c1: "apply_op op c = Some c1" "cache_inv c1" "within_limits c1" "sizes_ok c1"
    using apply_op_keeps [OF Cons.prems(1-3)] Cons.prems(4) by auto
  then show ?case using Cons.IH [OF c1(2-4)] Cons.prems(4) by simp
qed simp

text \<open>The cache stays consistent and bounded. Every sequence of operations on a new cache, with
  non-negative file sizes, runs to its end (the eviction loops terminate), every cached path is in the LRU list exactly
  once, no live entry is in the pool, the byte counter is the sum of the cached sizes, and both limits hold.\<close>

theorem file_cache_consistent:
  assumes "\<forall>op \<in> set ops. op_size_ok op"
  shows "\<exists>c. apply_ops ops (NewFileCache mxE mxS inact) = Some c \<and> cache_inv c \<and> within_limits c"
  by (rule apply_ops_keeps [OF cache_inv_new _ _ assms])
    (simp_all add: within_limits_def sizes_ok_def view_def NewFileCache_def)

theorem file_cache_consistent_witness:
  "\<exists>c. apply_ops [OpSet 1 ''/a'' ''x'' 1 0 [], OpSet 2 ''/b'' ''yy'' 2 0 [], OpGet 3 ''/a'', OpDelete ''/b''] (NewFileCache 1 2 60) = Some c
     \<and> cache_inv c \<and> within_limits c"
proof -
  have h: "\<forall>op \<in> set [OpSet 1 ''/a'' ''x'' 1 0 [], OpSet 2 ''/b'' ''yy'' 2 0 [], OpGet 3 ''/a'', OpDelete ''/b'']. op_size_ok op"
    by (simp add: op_size_ok_def)
  show ?thesis by (rule file_cache_consistent [OF h])
qed

text \<open>An entry can change under its reader. \<open>Get\<close> hands out a pointer after the lock is released,
  and eviction recycles the entry behind it: in a cache with room for one file, a reader that looked up
  \<open>/a\<close> finds the contents of \<open>/c\<close> in its entry once \<open>/b\<close> and \<open>/c\<close> have been stored.\<close>

theorem file_cache_recycles_live_entry:
  "\<exists>c1 c2 c3 c4 p. FileCache_Set 1 ''/a'' ''A'' 1 0 [] (NewFileCache 1 0 60) = Some c1
    \<and> FileCache_Get 2 ''/a'' c1 = (Some p, c2) \<and> Data (store c2 p) = ''A''
    \<and> FileCache_Set 3 ''/b'' ''B'' 1 0 [] c2 = Some c3 \<and> FileCache_Set 4 ''/c'' ''C'' 1 0 [] c3 = Some c4
    \<and> Path (store c4 p) = ''/c'' \<and> Data (store c4 p) = ''C''"
  by (simp add: FileCache_Set_def FileCache_Get_def NewFileCache_def pool_get_def evictIfNeeded_def evictLRU_def
      removeEntry_def evict_entries.simps evict_size.simps Let_def zero_entry_def)

end
