(* ===== verification/ProxyCache.thy ===== *)
theory ProxyCache
  imports NetIP Hash
begin

text \<open>
  \<open>ProxyCache\<close> of \<^verbatim>\<open>internal/cache/file_cache.go\<close>, the cache keys and lifetimes of
  \<^verbatim>\<open>internal/proxy/cache_handler.go\<close> and the purge handler of \<^verbatim>\<open>internal/server/purge.go\<close>.
  A channel is a number; the set of closed channels is part of the state, so that closing a channel twice is the
  panic it is in Go. The outcome of waiting with a timeout is an argument. Entries are values in the
  map: the in-place updates of an entry are updates of the map.
\<close>

section \<open>Data\<close>

record ProxyCacheRule =
  pr_Path :: string
  pr_Methods :: "string list"
  pr_Statuses :: "int list"
  pr_MaxAge :: nanos

record ProxyCacheEntry =
  pe_Created :: nanos
  pe_Headers :: "string \<rightharpoonup> string"
  pe_Key :: string
  pe_OrigKey :: string
  pe_Data :: string
  pe_Status :: int
  pe_MaxAge :: nanos
  pe_Uses :: int
  pe_Updating :: bool
  pe_LastModified :: string
  pe_ETag :: string
  pe_LastValidated :: nanos

record ProxyCache =
  pc_entries :: "u64 \<rightharpoonup> ProxyCacheEntry"
  pc_pending :: "u64 \<rightharpoonup> nat"
  pc_rules :: "ProxyCacheRule list"
  staleTime :: nanos
  staleIfError :: nanos
  staleIfTimeout :: nanos
  cacheLock :: bool
  pc_closed :: "nat set"
  pc_next :: nat

definition NewProxyCache ::
  "ProxyCacheRule list \<Rightarrow> bool \<Rightarrow> nanos \<Rightarrow> nanos \<Rightarrow> nanos \<Rightarrow> ProxyCache" where
  "NewProxyCache rules lock st se sto =
     \<lparr>pc_entries = Map.empty, pc_pending = Map.empty, pc_rules = rules, staleTime = st, staleIfError = se,
      staleIfTimeout = sto, cacheLock = lock, pc_closed = {}, pc_next = 0\<rparr>"

section \<open>Lookup and storage\<close>

definition ProxyCache_Get ::
  "nanos \<Rightarrow> u64 \<Rightarrow> string \<Rightarrow> ProxyCache \<Rightarrow> (ProxyCacheEntry option \<times> bool \<times> bool) \<times> ProxyCache" where
  "ProxyCache_Get now hashKey origKey c =
     (case pc_entries c hashKey of
        None \<Rightarrow> ((None, False, False), c)
      | Some entry0 \<Rightarrow>
          if pe_OrigKey entry0 \<noteq> origKey then ((None, False, False), c)
          else
            let entry = entry0\<lparr>pe_Uses := pe_Uses entry0 + 1\<rparr>;
                c' = c\<lparr>pc_entries := (pc_entries c)(hashKey \<mapsto> entry)\<rparr>;
                expired = (now - pe_Created entry > pe_MaxAge entry)
            in if expired then
                 (if staleTime c > 0 \<and> now - pe_Created entry \<le> pe_MaxAge entry + staleTime c
                  then ((Some entry, True, True), c')
                  else ((None, False, False), c'))
               else ((Some entry, True, False), c'))"

definition GetStale :: "nanos \<Rightarrow> u64 \<Rightarrow> string \<Rightarrow> bool \<Rightarrow> ProxyCache \<Rightarrow> ProxyCacheEntry option" where
  "GetStale now hashKey origKey isTimeout c =
     (case pc_entries c hashKey of
        None \<Rightarrow> None
      | Some entry \<Rightarrow>
          if pe_OrigKey entry \<noteq> origKey then None
          else
            let expiresAt = pe_Created entry + pe_MaxAge entry
            in if \<not> now > expiresAt then Some entry
               else
                 let staleWindow = (if isTimeout then staleIfTimeout c else staleIfError c)
                 in if staleWindow \<le> 0 then None
                    else if now - expiresAt > staleWindow then None
                    else Some entry)"

text \<open>Closing the channel of the pending request, if any, and forgetting it.\<close>

definition close_pending :: "u64 \<Rightarrow> ProxyCache \<Rightarrow> go_panic + ProxyCache" where
  "close_pending hashKey c =
     (case pc_pending c hashKey of
        None \<Rightarrow> Inr c
      | Some ch \<Rightarrow>
          if ch \<in> pc_closed c then Inl SendOnClosed
          else Inr (c\<lparr>pc_closed := insert ch (pc_closed c), pc_pending := (pc_pending c)(hashKey := None)\<rparr>))"

definition ProxyCache_Set ::
  "nanos \<Rightarrow> u64 \<Rightarrow> string \<Rightarrow> string \<Rightarrow> (string \<rightharpoonup> string) \<Rightarrow> int \<Rightarrow> nanos \<Rightarrow> ProxyCache \<Rightarrow> go_panic + ProxyCache" where
  "ProxyCache_Set now hashKey origKey data headers status maxAge c =
     close_pending hashKey
       (c\<lparr>pc_entries := (pc_entries c)(hashKey \<mapsto>
          \<lparr>pe_Created = now, pe_Headers = headers, pe_Key = origKey, pe_OrigKey = origKey, pe_Data = data,
           pe_Status = status, pe_MaxAge = maxAge, pe_Uses = 0, pe_Updating = False, pe_LastModified = [],
           pe_ETag = [], pe_LastValidated = 0\<rparr>)\<rparr>)"

text \<open>The result is the wait channel and whether the wait timed out; \<open>done_first\<close> says whether the
  generating request finished within the timeout.\<close>

definition AcquireLockWithTimeout ::
  "u64 \<Rightarrow> nanos \<Rightarrow> bool \<Rightarrow> ProxyCache \<Rightarrow> (nat option \<times> bool) \<times> ProxyCache" where
  "AcquireLockWithTimeout hashKey timeout done_first c =
     (if \<not> cacheLock c then ((None, False), c)
      else if pc_entries c hashKey \<noteq> None then ((None, False), c)
      else case pc_pending c hashKey of
        Some ch \<Rightarrow> (if timeout > 0 then ((None, \<not> done_first), c) else ((Some ch, False), c))
      | None \<Rightarrow> ((None, False), c\<lparr>pc_pending := (pc_pending c)(hashKey \<mapsto> pc_next c), pc_next := pc_next c + 1\<rparr>))"

definition ReleaseLock :: "u64 \<Rightarrow> ProxyCache \<Rightarrow> go_panic + ProxyCache" where
  "ReleaseLock hashKey c = (if \<not> cacheLock c then Inr c else close_pending hashKey c)"

section \<open>Rules and patterns\<close>

definition MatchPattern :: "string \<Rightarrow> string \<Rightarrow> bool" where
  "MatchPattern pattern path =
     (if pattern = ''*'' then True
      else if HasSuffix pattern ''/'' then HasPrefix path pattern
      else if \<not> Contains pattern ''*'' then path = pattern
      else if HasSuffix pattern ''*'' then HasPrefix path (TrimSuffix pattern ''*'')
      else let parts = Split pattern (CHR ''*'')
           in if length parts = 2 then HasPrefix path (parts ! 0) \<and> HasSuffix path (parts ! 1) else False)"

definition matchPath :: "string \<Rightarrow> string \<Rightarrow> bool" where
  "matchPath rulePath path =
     (if rulePath = [] then True
      else if HasSuffix rulePath ''/'' then HasPrefix path rulePath
      else if Contains rulePath ''*'' then MatchPattern rulePath path
      else if path = rulePath then True
      else HasPrefix path (rulePath @ ''/'') \<or> HasPrefix path (rulePath @ ''?''))"

definition matchMethod :: "string list \<Rightarrow> string \<Rightarrow> bool" where
  "matchMethod methods method = (if methods = [] then True else method \<in> set methods)"

definition rule_matchStatus :: "int list \<Rightarrow> int \<Rightarrow> bool" where
  "rule_matchStatus statuses status = (if statuses = [] then True else status \<in> set statuses)"

fun match_rules :: "ProxyCacheRule list \<Rightarrow> string \<Rightarrow> string \<Rightarrow> int \<Rightarrow> ProxyCacheRule option" where
  "match_rules [] path method status = None"
| "match_rules (rule # rules) path method status =
     (if \<not> matchPath (pr_Path rule) path then match_rules rules path method status
      else if \<not> matchMethod (pr_Methods rule) method then match_rules rules path method status
      else if \<not> rule_matchStatus (pr_Statuses rule) status then match_rules rules path method status
      else Some rule)"

definition MatchRule :: "string \<Rightarrow> string \<Rightarrow> int \<Rightarrow> ProxyCache \<Rightarrow> ProxyCacheRule option" where
  "MatchRule path method status c = match_rules (pc_rules c) path method status"

section \<open>Deletion and revalidation\<close>

definition ProxyCache_Delete :: "u64 \<Rightarrow> ProxyCache \<Rightarrow> ProxyCache" where
  "ProxyCache_Delete hashKey c = c\<lparr>pc_entries := (pc_entries c)(hashKey := None)\<rparr>"

definition purged :: "string \<Rightarrow> string \<Rightarrow> ProxyCacheEntry \<Rightarrow> bool" where
  "purged pattern method entry \<longleftrightarrow> MatchPattern pattern (pe_OrigKey entry)
     \<and> (method = [] \<or> HasPrefix (pe_OrigKey entry) (method @ '':''))"

definition DeleteByPatternWithMethod :: "string \<Rightarrow> string \<Rightarrow> ProxyCache \<Rightarrow> ProxyCache" where
  "DeleteByPatternWithMethod pattern method c =
     c\<lparr>pc_entries := (\<lambda>h. case pc_entries c h of
        None \<Rightarrow> None
      | Some entry \<Rightarrow> (if purged pattern method entry then None else Some entry))\<rparr>"

definition RefreshTTL :: "nanos \<Rightarrow> u64 \<Rightarrow> string \<Rightarrow> (string \<rightharpoonup> string) option \<Rightarrow> ProxyCache \<Rightarrow> bool \<times> ProxyCache" where
  "RefreshTTL now hashKey origKey newHeaders c =
     (case pc_entries c hashKey of
        None \<Rightarrow> (False, c)
      | Some entry \<Rightarrow>
          if pe_OrigKey entry \<noteq> origKey then (False, c)
          else
            let e1 = entry\<lparr>pe_LastValidated := now\<rparr>;
                e2 = (case newHeaders of
                        None \<Rightarrow> e1
                      | Some hs \<Rightarrow>
                          let e1 = (case hs ''Last-Modified'' of Some lm \<Rightarrow> e1\<lparr>pe_LastModified := lm\<rparr> | None \<Rightarrow> e1)
                          in (case hs ''ETag'' of Some et \<Rightarrow> e1\<lparr>pe_ETag := et\<rparr> | None \<Rightarrow> e1))
            in (True, c\<lparr>pc_entries := (pc_entries c)(hashKey \<mapsto> e2)\<rparr>))"

definition SetValidationHeaders :: "u64 \<Rightarrow> string \<Rightarrow> string \<Rightarrow> string \<Rightarrow> ProxyCache \<Rightarrow> bool \<times> ProxyCache" where
  "SetValidationHeaders hashKey origKey lastModified etag c =
     (case pc_entries c hashKey of
        None \<Rightarrow> (False, c)
      | Some entry \<Rightarrow>
          if pe_OrigKey entry \<noteq> origKey then (False, c)
          else (True, c\<lparr>pc_entries := (pc_entries c)(hashKey \<mapsto> entry\<lparr>pe_LastModified := lastModified, pe_ETag := etag\<rparr>)\<rparr>))"

definition HashPathWithMethod :: "string \<Rightarrow> string \<Rightarrow> u64" where
  "HashPathWithMethod path method0 =
     (let method = (if method0 = [] then ''GET'' else method0) in FNV64a (method @ '':'' @ path))"

section \<open>Keys and lifetimes: \<open>cache_handler.go\<close>\<close>

text \<open>The request as the key functions see it; \<open>rq_header\<close> gives the empty string for an absent header.\<close>

record cache_request =
  rq_method :: string
  rq_host :: string
  rq_uri :: string
  rq_header :: "string \<Rightarrow> string"

definition key_part :: "u64 \<Rightarrow> string \<Rightarrow> u64" where
  "key_part h b = foldl fnv_step (fnv_step h (CHR '':'')) b"

definition buildCacheKeyHashWithHost :: "cache_request \<Rightarrow> string \<Rightarrow> string list \<Rightarrow> u64 \<times> string" where
  "buildCacheKeyHashWithHost r host varyHeaders =
     (let h = foldl key_part fnv_offset [rq_method r, host, rq_uri r];
          h = foldl (\<lambda>h name. key_part h (rq_header r name)) h varyHeaders;
          origKey = rq_method r @ '':'' @ host @ rq_uri r;
          origKey = foldl (\<lambda>k name. k @ '':'' @ name @ ''='' @ rq_header r name) origKey varyHeaders
      in (h, origKey))"

definition buildCacheKeyHash :: "cache_request \<Rightarrow> string list \<Rightarrow> u64 \<times> string" where
  "buildCacheKeyHash r varyHeaders = buildCacheKeyHashWithHost r (rq_host r) varyHeaders"

record ProxyCacheValidConfig =
  cv_OK :: nanos
  cv_Redirect :: nanos
  cv_NotFound :: nanos
  cv_ClientError :: nanos
  cv_ServerError :: nanos

definition getCacheDuration :: "nanos \<Rightarrow> ProxyCacheValidConfig option \<Rightarrow> int \<Rightarrow> nanos" where
  "getCacheDuration maxAge valid statusCode =
     (case valid of
        None \<Rightarrow> maxAge
      | Some cv \<Rightarrow>
          if statusCode \<ge> 200 \<and> statusCode < 300 then (if cv_OK cv > 0 then cv_OK cv else maxAge)
          else if statusCode = 301 \<or> statusCode = 302 then cv_Redirect cv
          else if statusCode = 404 then cv_NotFound cv
          else if statusCode \<ge> 400 \<and> statusCode < 500 then cv_ClientError cv
          else if statusCode \<ge> 500 then cv_ServerError cv
          else 0)"

text \<open>\<open>cacheVaryHeaders\<close>: the configured names, then those of the response's \<open>Vary\<close> header that are new, ignoring case.\<close>

fun vary_loop :: "string list \<Rightarrow> string list \<Rightarrow> string list \<Rightarrow> string list" where
  "vary_loop [] seen result = result"
| "vary_loop (part # parts) seen result =
     (let name = TrimSpace part; key = ToLower name
      in if name = [] then vary_loop parts seen result
         else if key \<in> set seen then vary_loop parts seen result
         else vary_loop parts (key # seen) (result @ [name]))"

definition cacheVaryHeaders :: "string list \<Rightarrow> string \<Rightarrow> string list" where
  "cacheVaryHeaders configured varyResponse =
     (if varyResponse = [] then configured
      else vary_loop (Split varyResponse (CHR '','')) (map ToLower configured) configured)"

section \<open>Purging: \<open>purge.go\<close>\<close>

record PurgeHandler =
  ph_auth :: CacheAPIAuthConfig
  ph_path :: string
  ph_allowed :: "IPNet list"

definition NewPurgeHandler :: "string \<Rightarrow> string list \<Rightarrow> CacheAPIAuthConfig \<Rightarrow> PurgeHandler option" where
  "NewPurgeHandler path allow auth =
     (case ParseIPAllowList allow of
        None \<Rightarrow> None
      | Some nets \<Rightarrow> Some \<lparr>ph_auth = auth, ph_path = (if path = [] then ''/_cache/purge'' else path), ph_allowed = nets\<rparr>)"

text \<open>The caches of the server's proxies; a proxy without a cache is \<open>None\<close>. The count that is returned
  is the number of caches asked.\<close>

definition purgeByPath :: "string \<Rightarrow> string \<Rightarrow> ProxyCache option list \<Rightarrow> nat \<times> ProxyCache option list" where
  "purgeByPath path method caches =
     (let hashKey = HashPathWithMethod path method
      in (length (filter (\<lambda>c. c \<noteq> None) caches), map (map_option (ProxyCache_Delete hashKey)) caches))"

definition purgeByPattern :: "string \<Rightarrow> string \<Rightarrow> ProxyCache option list \<Rightarrow> ProxyCache option list" where
  "purgeByPattern pattern method caches = map (map_option (DeleteByPatternWithMethod pattern method)) caches"

datatype purge_body = BadJSON | Purge string string string

definition Purge_ServeHTTP ::
  "PurgeHandler \<Rightarrow> RequestCtx \<Rightarrow> string \<Rightarrow> purge_body \<Rightarrow> ProxyCache option list \<Rightarrow> int \<times> ProxyCache option list" where
  "Purge_ServeHTTP h ctx method body caches =
     (if method \<noteq> ''POST'' then (405, caches)
      else if \<not> CheckIPAccess ctx (ph_allowed h) [] then (403, caches)
      else if \<not> CheckTokenAuth ctx (ph_auth h) then (401, caches)
      else case body of
        BadJSON \<Rightarrow> (400, caches)
      | Purge path pattern m \<Rightarrow>
          if path \<noteq> [] then (200, snd (purgeByPath path m caches))
          else if pattern \<noteq> [] then (200, purgeByPattern pattern m caches)
          else (400, caches))"

section \<open>Lookups\<close>

lemma close_pending_entries: "close_pending h c = Inr c' \<Longrightarrow> pc_entries c' = pc_entries c \<and> staleTime c' = staleTime c
    \<and> staleIfError c' = staleIfError c \<and> staleIfTimeout c' = staleIfTimeout c"
  by (auto simp: close_pending_def split: option.splits if_splits)

text \<open>C31. A stored response is served while it is fresh, served as stale within the stale window, and
  not served afterwards; a request whose key differs is never served from it, even when the two
  keys have the same hash.\<close>

theorem proxy_cache_freshness:
  assumes "ProxyCache_Set now h key data headers status maxAge c = Inr c'"
  shows "case fst (ProxyCache_Get now' h key' c') of (entry, found, stale) \<Rightarrow>
    (found \<longleftrightarrow> key' = key \<and> (now' - now \<le> maxAge \<or> staleTime c > 0 \<and> now' - now \<le> maxAge + staleTime c))
    \<and> (found \<longleftrightarrow> entry \<noteq> None) \<and> (stale \<longleftrightarrow> found \<and> now' - now > maxAge)
    \<and> (\<forall>e. entry = Some e \<longrightarrow> pe_OrigKey e = key' \<and> pe_Data e = data \<and> pe_Status e = status \<and> pe_Headers e = headers)"
  using close_pending_entries [OF assms [unfolded ProxyCache_Set_def]]
  by (auto simp: ProxyCache_Get_def Let_def)

definition empty_cache :: ProxyCache where
  "empty_cache = NewProxyCache [] True 10 20 30"

theorem proxy_cache_freshness_witness:
  "\<exists>c'. ProxyCache_Set 100 7 ''k'' ''d'' Map.empty 200 60 empty_cache = Inr c'
     \<and> fst (snd (fst (ProxyCache_Get 150 7 ''k'' c'))) \<and> \<not> fst (snd (fst (ProxyCache_Get 150 7 ''other'' c')))
     \<and> \<not> fst (snd (fst (ProxyCache_Get 171 7 ''k'' c')))"
proof -
  obtain c' where c': "ProxyCache_Set 100 7 ''k'' ''d'' Map.empty 200 60 empty_cache = Inr c'"
    by (simp add: ProxyCache_Set_def close_pending_def empty_cache_def NewProxyCache_def)
  have s: "staleTime empty_cache = 10" by (simp add: empty_cache_def NewProxyCache_def)
  show ?thesis
    using c' proxy_cache_freshness [OF c', where now' = 150 and key' = "''k''"]
      proxy_cache_freshness [OF c', where now' = 150 and key' = "''other''"]
      proxy_cache_freshness [OF c', where now' = 171 and key' = "''k''"] s
    by (auto simp: case_prod_beta)
qed

text \<open>Revalidation does not renew. After the upstream confirmed an entry with 304, \<open>RefreshTTL\<close>
  records the instant, but every later lookup finds the entry as fresh, as stale or as expired as
  it would have been without: the entry keeps expiring at its original time.\<close>

theorem refresh_ttl_does_not_extend:
  "snd (fst (ProxyCache_Get now' h key' (snd (RefreshTTL now h key headers c)))) = snd (fst (ProxyCache_Get now' h key' c))"
  by (auto simp: ProxyCache_Get_def RefreshTTL_def Let_def split: option.splits)

section \<open>The cache lock\<close>

datatype pc_op =
    PSet nanos u64 string string int nanos
  | PAcquire u64 nanos bool
  | PRelease u64
  | PGet nanos u64 string
  | PDelete u64
  | PPurge string string
  | PRefresh nanos u64 string
  | PValidate u64 string string string

fun pc_apply :: "pc_op \<Rightarrow> ProxyCache \<Rightarrow> go_panic + ProxyCache" where
  "pc_apply (PSet now h k d st ma) c = ProxyCache_Set now h k d Map.empty st ma c"
| "pc_apply (PAcquire h timeout df) c = Inr (snd (AcquireLockWithTimeout h timeout df c))"
| "pc_apply (PRelease h) c = ReleaseLock h c"
| "pc_apply (PGet now h k) c = Inr (snd (ProxyCache_Get now h k c))"
| "pc_apply (PDelete h) c = Inr (ProxyCache_Delete h c)"
| "pc_apply (PPurge p m) c = Inr (DeleteByPatternWithMethod p m c)"
| "pc_apply (PRefresh now h k) c = Inr (snd (RefreshTTL now h k None c))"
| "pc_apply (PValidate h k lm et) c = Inr (snd (SetValidationHeaders h k lm et c))"

fun pc_run :: "pc_op list \<Rightarrow> ProxyCache \<Rightarrow> go_panic + ProxyCache" where
  "pc_run [] c = Inr c"
| "pc_run (op # ops) c = (case pc_apply op c of Inl e \<Rightarrow> Inl e | Inr c' \<Rightarrow> pc_run ops c')"

definition lock_inv :: "ProxyCache \<Rightarrow> bool" where
  "lock_inv c \<longleftrightarrow> (\<forall>h ch. pc_pending c h = Some ch \<longrightarrow> ch \<notin> pc_closed c \<and> ch < pc_next c)
     \<and> (\<forall>h h' ch. pc_pending c h = Some ch \<longrightarrow> pc_pending c h' = Some ch \<longrightarrow> h = h')
     \<and> (\<forall>ch < pc_next c. ch \<in> pc_closed c \<or> (\<exists>h. pc_pending c h = Some ch)) \<and> (\<forall>ch \<in> pc_closed c. ch < pc_next c)"

definition lock_part :: "ProxyCache \<Rightarrow> (u64 \<rightharpoonup> nat) \<times> nat set \<times> nat" where
  "lock_part c = (pc_pending c, pc_closed c, pc_next c)"

lemma lock_inv_cong: "lock_part c' = lock_part c \<Longrightarrow> lock_inv c' = lock_inv c"
  by (simp add: lock_inv_def lock_part_def)

lemma lock_part_ops:
  "lock_part (snd (ProxyCache_Get now h k c)) = lock_part c" "lock_part (ProxyCache_Delete h c) = lock_part c"
  "lock_part (DeleteByPatternWithMethod p m c) = lock_part c" "lock_part (snd (RefreshTTL now h k hs c)) = lock_part c"
  "lock_part (snd (SetValidationHeaders h k lm et c)) = lock_part c" "lock_part (c\<lparr>pc_entries := es\<rparr>) = lock_part c"
  by (auto simp: lock_part_def ProxyCache_Get_def ProxyCache_Delete_def DeleteByPatternWithMethod_def RefreshTTL_def
      SetValidationHeaders_def Let_def split: option.splits)

lemma lock_inv_close:
  assumes "lock_inv c"
  shows "\<exists>c'. close_pending h c = Inr c' \<and> lock_inv c' \<and> pc_pending c' h = None
    \<and> (\<forall>ch. pc_pending c h = Some ch \<longrightarrow> ch \<in> pc_closed c')"
proof (cases "pc_pending c h")
  case None
  then show ?thesis using assms by (simp add: close_pending_def)
next
  case (Some ch)
  let ?c = "c\<lparr>pc_closed := insert ch (pc_closed c), pc_pending := (pc_pending c)(h := None)\<rparr>"
  have "ch \<notin> pc_closed c" "ch < pc_next c" using Some assms by (auto simp: lock_inv_def)
  moreover have "lock_inv ?c"
    unfolding lock_inv_def
  proof (intro conjI)
    show "\<forall>h' ch'. pc_pending ?c h' = Some ch' \<longrightarrow> ch' \<notin> pc_closed ?c \<and> ch' < pc_next ?c"
      using assms Some by (auto simp: lock_inv_def)
    show "\<forall>h' h'' ch'. pc_pending ?c h' = Some ch' \<longrightarrow> pc_pending ?c h'' = Some ch' \<longrightarrow> h' = h''"
      using assms by (auto simp: lock_inv_def)
    show "\<forall>ch' < pc_next ?c. ch' \<in> pc_closed ?c \<or> (\<exists>h'. pc_pending ?c h' = Some ch')"
      using assms Some unfolding lock_inv_def by (auto, metis option.inject)
    show "\<forall>ch' \<in> pc_closed ?c. ch' < pc_next ?c"
      using assms Some by (auto simp: lock_inv_def)
  qed
  ultimately show ?thesis using Some by (simp add: close_pending_def)
qed

lemma lock_inv_acquire:
  assumes "lock_inv c"
  shows "lock_inv (snd (AcquireLockWithTimeout h timeout df c))"
proof (cases "cacheLock c \<and> pc_entries c h = None \<and> pc_pending c h = None")
  case False
  then have "snd (AcquireLockWithTimeout h timeout df c) = c" by (auto simp: AcquireLockWithTimeout_def split: option.splits)
  then show ?thesis using assms by simp
next
  case True
  let ?c = "c\<lparr>pc_pending := (pc_pending c)(h \<mapsto> pc_next c), pc_next := pc_next c + 1\<rparr>"
  have "lock_inv ?c"
    unfolding lock_inv_def
  proof (intro conjI)
    show "\<forall>h' ch. pc_pending ?c h' = Some ch \<longrightarrow> ch \<notin> pc_closed ?c \<and> ch < pc_next ?c"
      using assms by (auto simp: lock_inv_def less_SucI)
    show "\<forall>h' h'' ch. pc_pending ?c h' = Some ch \<longrightarrow> pc_pending ?c h'' = Some ch \<longrightarrow> h' = h''"
      using assms by (auto simp: lock_inv_def)
    show "\<forall>ch < pc_next ?c. ch \<in> pc_closed ?c \<or> (\<exists>h'. pc_pending ?c h' = Some ch)"
    proof (intro allI impI)
      fix ch
      assume "ch < pc_next ?c"
      then consider "ch = pc_next c" | "ch < pc_next c" by fastforce
      then show "ch \<in> pc_closed ?c \<or> (\<exists>h'. pc_pending ?c h' = Some ch)"
      proof cases
        case 2
        then consider "ch \<in> pc_closed c" | h' where "pc_pending c h' = Some ch" using assms by (auto simp: lock_inv_def)
        then show ?thesis
        proof cases
          case (2 h')
          then have "h' \<noteq> h" using True by auto
          then have "pc_pending ?c h' = Some ch" using 2 by simp
          then show ?thesis by blast
        qed simp
      qed auto
    qed
    show "\<forall>ch \<in> pc_closed ?c. ch < pc_next ?c" using assms by (auto simp: lock_inv_def less_SucI)
  qed
  then show ?thesis using True by (simp add: AcquireLockWithTimeout_def)
qed

lemma lock_inv_apply: "lock_inv c \<Longrightarrow> \<exists>c'. pc_apply op c = Inr c' \<and> lock_inv c'"
proof (cases op)
  case (PSet now h k d st ma)
  assume "lock_inv c"
  then have "lock_inv (c\<lparr>pc_entries := es\<rparr>)" for es using lock_inv_cong [OF lock_part_ops(6)] by blast
  then show ?thesis using PSet lock_inv_close by (fastforce simp: ProxyCache_Set_def)
next
  case (PRelease h)
  assume "lock_inv c"
  then show ?thesis using PRelease lock_inv_close by (fastforce simp: ReleaseLock_def)
qed (simp_all add: lock_inv_acquire lock_inv_cong [OF lock_part_ops(1)] lock_inv_cong [OF lock_part_ops(2)]
    lock_inv_cong [OF lock_part_ops(3)] lock_inv_cong [OF lock_part_ops(4)] lock_inv_cong [OF lock_part_ops(5)])

lemma lock_inv_run: "lock_inv c \<Longrightarrow> \<exists>c'. pc_run ops c = Inr c' \<and> lock_inv c'"
proof (induction ops arbitrary: c)
  case (Cons op ops)
  obtain c1 where "pc_apply op c = Inr c1" "lock_inv c1" using lock_inv_apply [OF Cons.prems] by blast
  then show ?case using Cons.IH by simp
qed simp

text \<open>C23. The cache lock is safe. No sequence of operations on a new cache closes a channel twice, every wait
  channel that is still open belongs to exactly one pending key, and both the release of that key and
  the store of a response under it close the channel and forget the key, so that no waiter is left behind.\<close>

theorem cache_lock_safe:
  "\<exists>c. pc_run ops (NewProxyCache rules lock st se sto) = Inr c
     \<and> (\<forall>ch < pc_next c. ch \<in> pc_closed c \<or> (\<exists>!h. pc_pending c h = Some ch))
     \<and> (\<forall>h ch. pc_pending c h = Some ch \<longrightarrow> ch \<notin> pc_closed c
          \<and> (cacheLock c \<longrightarrow> (\<exists>c'. ReleaseLock h c = Inr c' \<and> ch \<in> pc_closed c' \<and> pc_pending c' h = None))
          \<and> (\<forall>now k d hs status ma. \<exists>c'. ProxyCache_Set now h k d hs status ma c = Inr c' \<and> ch \<in> pc_closed c' \<and> pc_pending c' h = None))"
proof -
  have "lock_inv (NewProxyCache rules lock st se sto)" by (simp add: lock_inv_def NewProxyCache_def)
  then obtain c where c: "pc_run ops (NewProxyCache rules lock st se sto) = Inr c" "lock_inv c"
    using lock_inv_run by blast
  have "\<forall>ch < pc_next c. ch \<in> pc_closed c \<or> (\<exists>!h. pc_pending c h = Some ch)"
    using c(2) unfolding lock_inv_def by blast
  moreover have "\<exists>c'. ReleaseLock h c = Inr c' \<and> ch \<in> pc_closed c' \<and> pc_pending c' h = None"
    if "pc_pending c h = Some ch" "cacheLock c" for h ch
    using lock_inv_close [OF c(2), of h] that by (auto simp: ReleaseLock_def)
  moreover have "\<exists>c'. ProxyCache_Set now h k d hs status ma c = Inr c' \<and> ch \<in> pc_closed c' \<and> pc_pending c' h = None"
    if "pc_pending c h = Some ch" for h ch now k d hs status ma
  proof -
    have "lock_inv (c\<lparr>pc_entries := es\<rparr>)" for es using c(2) lock_inv_cong [OF lock_part_ops(6)] by blast
    from lock_inv_close [OF this, where h = h] that show ?thesis unfolding ProxyCache_Set_def by fastforce
  qed
  moreover have "ch \<notin> pc_closed c" if "pc_pending c h = Some ch" for h ch
    using c(2) that unfolding lock_inv_def by blast
  ultimately show ?thesis using c(1) by blast
qed

theorem cache_lock_safe_witness:
  "\<exists>c. pc_run [PAcquire 7 0 True] (NewProxyCache [] True 0 0 0) = Inr c \<and> pc_pending c 7 = Some 0
     \<and> (\<exists>c'. ProxyCache_Set 5 7 ''k'' ''body'' Map.empty 200 60 c = Inr c' \<and> 0 \<in> pc_closed c' \<and> pc_pending c' 7 = None)"
proof -
  note safe = cache_lock_safe [of "[PAcquire 7 0 True]" "[]" True 0 0 0]
  obtain c where c: "pc_run [PAcquire 7 0 True] (NewProxyCache [] True 0 0 0) = Inr c" by simp
  then have p: "pc_pending c 7 = Some 0"
    by (auto simp: AcquireLockWithTimeout_def NewProxyCache_def)
  have "\<exists>c'. ProxyCache_Set 5 7 ''k'' ''body'' Map.empty 200 60 c = Inr c' \<and> 0 \<in> pc_closed c' \<and> pc_pending c' 7 = None"
    using safe c p by (elim exE conjE) (simp only: sum.inject)
  then show ?thesis using c p by blast
qed

text \<open>Waiting on the lock saves nothing. With a lock timeout, and \<open>ServeHTTP\<close> passes one when the lock is
  on unless \<open>cache_lock_timeout\<close> is negative, the acquisition never returns a wait channel, so the caller never looks at the cache again
  after the generating request finished: every waiter goes on to the upstream.\<close>

theorem lock_with_timeout_never_waits:
  assumes "timeout > 0"
  shows "fst (fst (AcquireLockWithTimeout h timeout df c)) = None"
  using assms by (simp add: AcquireLockWithTimeout_def split: option.split)

theorem lock_with_timeout_never_waits_witness:
  "fst (fst (AcquireLockWithTimeout 7 (5 * second) True (snd (AcquireLockWithTimeout 7 (5 * second) True empty_cache)))) = None"
  by (rule lock_with_timeout_never_waits) simp

section \<open>Keys\<close>

lemma foldl_key_part: "foldl key_part h parts = foldl fnv_step h (concat (map (\<lambda>b. CHR '':'' # b) parts))"
  by (induction parts arbitrary: h) (simp_all add: key_part_def)

text \<open>The unrolled hash of a cache key is the FNV-1a hash of the method, the host, the URI and the
  varying header values, each after a colon.\<close>

theorem cache_key_is_fnv:
  "fst (buildCacheKeyHashWithHost r host vary) =
     FNV64a (concat (map (\<lambda>b. CHR '':'' # b) ([rq_method r, host, rq_uri r] @ map (rq_header r) vary)))"
proof -
  have "fst (buildCacheKeyHashWithHost r host vary) = foldl key_part fnv_offset ([rq_method r, host, rq_uri r] @ map (rq_header r) vary)"
    by (simp add: buildCacheKeyHashWithHost_def Let_def foldl_map)
  then show ?thesis by (simp only: foldl_key_part FNV64a_def)
qed

section \<open>Purging\<close>

lemma foldl_key_prefix: "HasPrefix (foldl (\<lambda>k name. k @ g name) k0 vary) k0"
proof (induction vary arbitrary: k0)
  case (Cons v vary)
  have "HasPrefix (foldl (\<lambda>k name. k @ g name) (k0 @ g v) vary) (k0 @ g v)" by (rule Cons.IH)
  then show ?case by (simp add: HasPrefix_append_iff)
qed simp

lemma HasPrefix_hd: "HasPrefix s p \<Longrightarrow> p \<noteq> [] \<Longrightarrow> s \<noteq> [] \<and> hd s = hd p"
  by (cases p; cases s) (auto simp: HasPrefix_def)

text \<open>A pattern that starts with a slash purges nothing. The stored keys start with the method, so
  such a pattern, the form the purge interface documents, deletes no entry that \<open>ServeHTTP\<close> can have
  stored for a request with a method.\<close>

theorem purge_pattern_misses:
  assumes "hd pattern = CHR ''/''" and "pattern \<noteq> []" and "rq_method r \<noteq> []" and "hd (rq_method r) \<noteq> CHR ''/''"
    and "pc_entries c h = Some e" and "pe_OrigKey e = snd (buildCacheKeyHashWithHost r host vary)"
  shows "pc_entries (DeleteByPatternWithMethod pattern method c) h = Some e"
proof -
  let ?k = "pe_OrigKey e"
  have k0: "HasPrefix ?k (rq_method r @ '':'' @ host @ rq_uri r)"
    unfolding assms(6) buildCacheKeyHashWithHost_def Let_def snd_conv
    by (rule foldl_key_prefix [where g = "\<lambda>name. '':'' @ name @ ''='' @ rq_header r name"])
  have "hd ?k = hd (rq_method r)" "?k \<noteq> []" using HasPrefix_hd [OF k0] assms(3) by auto
  then have k: "?k \<noteq> []" "hd ?k \<noteq> CHR ''/''" using assms(4) by auto
  have no: "\<not> HasPrefix ?k p" if "p \<noteq> []" "hd p = CHR ''/''" for p using HasPrefix_hd [of ?k p] that k by auto
  have "\<not> MatchPattern pattern ?k"
  proof -
    obtain q where q: "pattern = CHR ''/'' # q" using assms(1,2) by (cases pattern) auto
    have s: "TrimSuffix pattern ''*'' \<noteq> [] \<and> hd (TrimSuffix pattern ''*'') = CHR ''/''"
      unfolding q by (cases q rule: rev_cases) (auto simp: TrimSuffix_def HasSuffix_def)
    have f: "Split pattern (CHR ''*'') ! 0 \<noteq> [] \<and> hd (Split pattern (CHR ''*'') ! 0) = CHR ''/''"
      unfolding q by (simp split: list.split)
    have "pattern \<noteq> ''*''" "?k \<noteq> pattern" using q k by auto
    then show ?thesis
      using no [of pattern] no [of "TrimSuffix pattern ''*''"] no [of "Split pattern (CHR ''*'') ! 0"] s f assms(1,2)
      by (simp add: MatchPattern_def Let_def)
  qed
  then show ?thesis using assms(5) by (simp add: DeleteByPatternWithMethod_def purged_def)
qed

definition demo_request :: cache_request where
  "demo_request = \<lparr>rq_method = ''GET'', rq_host = ''h'', rq_uri = ''/a'', rq_header = (\<lambda>_. [])\<rparr>"

definition demo_entry :: ProxyCacheEntry where
  "demo_entry = \<lparr>pe_Created = 0, pe_Headers = Map.empty, pe_Key = ''GET:h/a'', pe_OrigKey = ''GET:h/a'', pe_Data = [],
     pe_Status = 200, pe_MaxAge = 60, pe_Uses = 0, pe_Updating = False, pe_LastModified = [], pe_ETag = [], pe_LastValidated = 0\<rparr>"

theorem purge_pattern_misses_witness:
  "pc_entries (DeleteByPatternWithMethod ''/a*'' [] (empty_cache\<lparr>pc_entries := [7 \<mapsto> demo_entry]\<rparr>)) 7 = Some demo_entry"
  by (rule purge_pattern_misses [where r = demo_request and host = "''h''" and vary = "[]"])
    (simp_all add: demo_request_def demo_entry_def buildCacheKeyHashWithHost_def)

text \<open>Purging by path misses too. The purge hashes the method and the path, the proxy the method, the host and the
  URI: after \<open>GET http://h/a\<close> was cached, purging the path \<open>/a\<close> reports one cache and leaves the response in it.\<close>

theorem purge_path_misses:
  "\<exists>c. ProxyCache_Set 0 (fst (buildCacheKeyHash demo_request [])) (snd (buildCacheKeyHash demo_request [])) ''d'' Map.empty 200 60 empty_cache = Inr c
    \<and> fst (purgeByPath ''/a'' ''GET'' [Some c]) = 1
    \<and> map (map_option (\<lambda>c. fst (snd (fst (ProxyCache_Get 1 (fst (buildCacheKeyHash demo_request [])) (snd (buildCacheKeyHash demo_request [])) c)))))
        (snd (purgeByPath ''/a'' ''GET'' [Some c])) = [Some True]"
proof -
  have ne: "fst (buildCacheKeyHash demo_request []) \<noteq> HashPathWithMethod ''/a'' ''GET''" by code_simp
  show ?thesis
    using ne by (simp add: ProxyCache_Set_def close_pending_def empty_cache_def NewProxyCache_def purgeByPath_def
        ProxyCache_Delete_def ProxyCache_Get_def Let_def)
qed

end
