(* ===== verification/Config.thy ===== *)
theory Config
  imports HealthCheck ProxyCache Sticky ConsistentHash
begin

text \<open>
  The proxy part of the configuration: the types of \<^verbatim>\<open>internal/config/proxy_config.go\<close> and
  \<^verbatim>\<open>cache_config.go\<close>, with the size parser of \<^verbatim>\<open>config.go\<close>. Pointers that may be nil are options;
  a Go map read by key is a map; \<open>HealthCheckConfig\<close>, \<open>HealthMatchConfig\<close> and
  \<open>ProxyCacheValidConfig\<close> are in the theories of the components that read them.
\<close>

section \<open>Types\<close>

record ProxyTarget =
  pt_URL :: string
  pt_Weight :: int
  pt_MaxConns :: int
  pt_MaxFails :: int
  pt_FailTimeout :: nanos
  pt_Backup :: bool
  pt_Down :: bool
  pt_ProxyURI :: string

record BalancerByLuaConfig =
  bl_Script :: string
  bl_Fallback :: string
  bl_Timeout :: nanos
  bl_Enabled :: bool

record ProxyTimeout =
  to_Dial :: nanos
  to_Connect :: nanos
  to_Read :: nanos
  to_Write :: nanos

record ProxyHeaders =
  ph_SetRequest :: "(string \<times> string) list"
  ph_SetResponse :: "(string \<times> string) list"
  ph_Remove :: "string list"
  ph_HideResponse :: "string list"
  ph_PassResponse :: "string list"
  ph_IgnoreHeaders :: "string list"
  ph_CookieDomain :: string
  ph_CookiePath :: string
  ph_SetForwardedHost :: "bool option"
  ph_SetForwardedProto :: "bool option"

record RedirectRewriteRule =
  rrr_Pattern :: string
  rrr_Replacement :: string

record RedirectRewriteConfig =
  rrc_Mode :: string
  rrc_Rules :: "RedirectRewriteRule list"

record LeastTimeConfig =
  ltc_Metric :: string
  ltc_DefaultTime :: nanos

text \<open>\<open>config.StickyConfig\<close>: the cookie settings of \<open>loadbalance.StickyConfig\<close> and the fallback algorithm.\<close>

record ProxyStickyConfig =
  psc_cookie :: StickyConfig
  psc_FallbackAlgo :: string

record NextUpstreamConfig =
  nu_HTTPCodes :: "int list"
  nu_Tries :: int

record ProxyCacheConfig =
  pcc_MaxAge :: nanos
  pcc_StaleWhileRevalidate :: nanos
  pcc_StaleIfError :: nanos
  pcc_StaleIfTimeout :: nanos
  pcc_Enabled :: bool
  pcc_CacheLock :: bool
  pcc_Methods :: "string list"
  pcc_MinUses :: int
  pcc_CacheLockTimeout :: nanos
  pcc_BackgroundUpdateDisable :: bool
  pcc_CacheIgnoreHeaders :: "string list"
  pcc_Vary :: "string list"
  pcc_Revalidate :: bool

record ProxyBufferingConfig =
  bf_Mode :: string
  bf_BufferSize :: int
  bf_Buffers :: string
  bf_BufferCount :: int
  bf_BufferSizeEach :: int

record ProxyConfig =
  px_RedirectRewrite :: "RedirectRewriteConfig option"
  px_CacheValid :: "ProxyCacheValidConfig option"
  px_Targets :: "ProxyTarget list"
  px_Path :: string
  px_LoadBalance :: string
  px_HashKey :: string
  px_ClientMaxBodySize :: string
  px_ProxyBind :: string
  px_Headers :: ProxyHeaders
  px_BalancerByLua :: BalancerByLuaConfig
  px_HealthCheck :: HealthCheckConfig
  px_NextUpstream :: NextUpstreamConfig
  px_Cache :: ProxyCacheConfig
  px_Timeout :: ProxyTimeout
  px_LeastTime :: LeastTimeConfig
  px_Sticky :: ProxyStickyConfig
  px_VirtualNodes :: int
  px_LocationType :: string
  px_LocationName :: string
  px_Internal :: bool
  px_Buffering :: "ProxyBufferingConfig option"

section \<open>Zero values\<close>

text \<open>A proxy entry with every field at Go's zero value, as decoding a configuration file starts from.\<close>

definition zero_ProxyHeaders :: ProxyHeaders where
  "zero_ProxyHeaders =
     \<lparr>ph_SetRequest = [], ph_SetResponse = [], ph_Remove = [], ph_HideResponse = [], ph_PassResponse = [], ph_IgnoreHeaders = [],
      ph_CookieDomain = [], ph_CookiePath = [], ph_SetForwardedHost = None, ph_SetForwardedProto = None\<rparr>"

definition zero_StickyConfig :: StickyConfig where
  "zero_StickyConfig =
     \<lparr>sc_Enabled = False, sc_Name = [], sc_Expires = 0, sc_Domain = [], sc_Path = [], sc_Secure = False, sc_HttpOnly = False,
      sc_SameSite = []\<rparr>"

definition zero_ProxyCacheConfig :: ProxyCacheConfig where
  "zero_ProxyCacheConfig =
     \<lparr>pcc_MaxAge = 0, pcc_StaleWhileRevalidate = 0, pcc_StaleIfError = 0, pcc_StaleIfTimeout = 0, pcc_Enabled = False,
      pcc_CacheLock = False, pcc_Methods = [], pcc_MinUses = 0, pcc_CacheLockTimeout = 0, pcc_BackgroundUpdateDisable = False,
      pcc_CacheIgnoreHeaders = [], pcc_Vary = [], pcc_Revalidate = False\<rparr>"

definition zero_ProxyTarget :: ProxyTarget where
  "zero_ProxyTarget =
     \<lparr>pt_URL = [], pt_Weight = 0, pt_MaxConns = 0, pt_MaxFails = 0, pt_FailTimeout = 0, pt_Backup = False, pt_Down = False,
      pt_ProxyURI = []\<rparr>"

definition zero_ProxyConfig :: ProxyConfig where
  "zero_ProxyConfig =
     \<lparr>px_RedirectRewrite = None, px_CacheValid = None, px_Targets = [], px_Path = [], px_LoadBalance = [], px_HashKey = [],
      px_ClientMaxBodySize = [], px_ProxyBind = [], px_Headers = zero_ProxyHeaders,
      px_BalancerByLua = \<lparr>bl_Script = [], bl_Fallback = [], bl_Timeout = 0, bl_Enabled = False\<rparr>,
      px_HealthCheck = \<lparr>hcc_Interval = 0, hcc_Timeout = 0, hcc_Path = [], hcc_Match = None, hcc_SlowStart = 0\<rparr>,
      px_NextUpstream = \<lparr>nu_HTTPCodes = [], nu_Tries = 0\<rparr>, px_Cache = zero_ProxyCacheConfig,
      px_Timeout = \<lparr>to_Dial = 0, to_Connect = 0, to_Read = 0, to_Write = 0\<rparr>,
      px_LeastTime = \<lparr>ltc_Metric = [], ltc_DefaultTime = 0\<rparr>,
      px_Sticky = \<lparr>psc_cookie = zero_StickyConfig, psc_FallbackAlgo = []\<rparr>, px_VirtualNodes = 0, px_LocationType = [],
      px_LocationName = [], px_Internal = False, px_Buffering = None\<rparr>"

section \<open>Sizes\<close>

text \<open>Go's \<open>int\<close> product wraps at 64 bits.\<close>

definition wrap64 :: "int \<Rightarrow> int" where
  "wrap64 i = (i + 2 ^ 63) mod 2 ^ 64 - 2 ^ 63"

definition parseSize :: "string \<Rightarrow> int option" where
  "parseSize s0 =
     (let s = TrimSpace s0
      in if s = [] then None
         else let u = lower_char (last s);
                  (multiplier, numStr) =
                    (if u = CHR ''k'' then (1024, butlast s) else if u = CHR ''m'' then (1024 * 1024, butlast s) else (1, s))
              in case Atoi numStr of None \<Rightarrow> None | Some value \<Rightarrow> Some (wrap64 (value * multiplier)))"

lemma dropWhile_shorter: "dropWhile is_space s \<noteq> [] \<Longrightarrow>
    length (dropWhile (\<lambda>c. \<not> is_space c) (dropWhile is_space s)) < length s"
proof -
  assume ne: "dropWhile is_space s \<noteq> []"
  then obtain c t where ct: "dropWhile is_space s = c # t" by (cases "dropWhile is_space s") auto
  then have "\<not> is_space c" using hd_dropWhile [OF ne] by simp
  then have "length (dropWhile (\<lambda>c. \<not> is_space c) (c # t)) \<le> length t"
    using length_dropWhile_le [of "\<lambda>c. \<not> is_space c" t] by simp
  moreover have "length (c # t) \<le> length s" using ct length_dropWhile_le [of is_space s] by simp
  ultimately show ?thesis using ct by simp
qed

text \<open>\<open>strings.Fields\<close>: the words between white space.\<close>

function Fields :: "string \<Rightarrow> string list" where
  "Fields s =
     (let t = dropWhile is_space s
      in if t = [] then [] else takeWhile (\<lambda>c. \<not> is_space c) t # Fields (dropWhile (\<lambda>c. \<not> is_space c) t))"
  by pat_completeness auto

termination
  by (relation "measure length") (simp_all add: dropWhile_shorter)

declare Fields.simps [simp del]

definition ParseBuffers :: "ProxyBufferingConfig \<Rightarrow> ProxyBufferingConfig" where
  "ParseBuffers c =
     (if bf_Buffers c = [] then
        (if bf_BufferSize c > 0 then c\<lparr>bf_BufferCount := 1, bf_BufferSizeEach := bf_BufferSize c\<rparr> else c)
      else
        let parts = Fields (bf_Buffers c)
        in if length parts < 2 then c
           else case Atoi (parts ! 0) of
                  None \<Rightarrow> c
                | Some count \<Rightarrow>
                    if count \<le> 0 then c
                    else case parseSize (parts ! 1) of
                           None \<Rightarrow> c
                         | Some sizeEach \<Rightarrow>
                             if sizeEach \<le> 0 then c
                             else c\<lparr>bf_BufferCount := count, bf_BufferSizeEach := sizeEach\<rparr>)"

text \<open>A size printed with its unit is read back, as long as the product fits the machine word; beyond that it
  wraps around and may even become negative.\<close>

lemma wrap64_id: "in_int64 i \<Longrightarrow> wrap64 i = i"
  by (simp add: in_int64_def wrap64_def)

lemma parseSize_unit:
  assumes "in_int64 (int n)"
  shows "parseSize (show_nat n) = Some (int n)"
    and "parseSize (show_nat n @ ''k'') = Some (wrap64 (int n * 1024))"
    and "parseSize (show_nat n @ ''m'') = Some (wrap64 (int n * (1024 * 1024)))"
proof -
  have d: "c \<in> set (show_nat n) \<Longrightarrow> is_digit c \<and> \<not> trims c" for c
    using show_nat_chars is_digit_not_trims by blast
  have ne: "show_nat n \<noteq> []" using show_nat_digits by blast
  have h: "\<not> trims (hd (show_nat n))" "\<not> trims (last (show_nat n))" "is_digit (last (show_nat n))"
    using d ne by auto
  have "lower_char c = c" "c \<noteq> CHR ''k''" "c \<noteq> CHR ''m''" if "is_digit c" for c
    using that by (auto simp: is_digit_def lower_char_def)
  then have l: "lower_char (last (show_nat n)) \<noteq> CHR ''k''" "lower_char (last (show_nat n)) \<noteq> CHR ''m''"
    using h(3) by metis+
  have a: "Atoi (show_nat n) = Some (int n)"
    using Atoi_show_int [OF assms] by (simp add: show_int_def)
  have sp: "\<not> trims (CHR ''k'')" "\<not> trims (CHR ''m'')" by code_simp+
  have lk: "lower_char (CHR ''k'') = CHR ''k''" "lower_char (CHR ''m'') = CHR ''m''" by code_simp+
  show "parseSize (show_nat n) = Some (int n)"
    using ne h l a assms by (simp add: parseSize_def TrimSpace_id Let_def wrap64_id)
  show "parseSize (show_nat n @ ''k'') = Some (wrap64 (int n * 1024))"
    using ne h a sp lk by (simp add: parseSize_def TrimSpace_id Let_def hd_append)
  show "parseSize (show_nat n @ ''m'') = Some (wrap64 (int n * (1024 * 1024)))"
    using ne h a sp lk by (simp add: parseSize_def TrimSpace_id Let_def hd_append)
qed

end
