(* ===== verification/Variable.thy ===== *)
theory Variable
  imports Complex_Main NetIP
begin

text \<open>
  \<^verbatim>\<open>internal/variable/variable.go\<close> and \<^verbatim>\<open>builtin.go\<close>: the variables of a request and the expansion of
  templates, with \<open>FormatRemoteAddr\<close> of \<^verbatim>\<open>internal/netutil/ip.go\<close>. What the getters read of the
  fasthttp context is the record \<open>var_ctx\<close>: the parsed request, the two socket addresses, the user values,
  the formatted clock, a fresh UUID and the process-wide address cache. Times in
  seconds are exact rationals. Pooled contexts are a list.
\<close>

section \<open>What a request offers\<close>

datatype user_value = UStr string | UInt int | UInt64 int

record var_ctx =
  vx_host :: string
  vx_request_uri :: string
  vx_path :: string
  vx_args :: string
  vx_method :: string
  vx_tls :: bool
  vx_remote_ip :: "IP option"
  vx_remote_addr :: "string option"
  vx_local_addr :: "string option"
  vx_user :: "string \<rightharpoonup> user_value"
  vx_time_local :: string
  vx_time_iso8601 :: string
  vx_uuid :: string
  vx_addr_cache :: "(string \<times> string) list"

definition addr_cache_max :: nat where
  "addr_cache_max = 1024"

definition FormatRemoteAddr :: "var_ctx \<Rightarrow> string \<times> var_ctx" where
  "FormatRemoteAddr ctx =
     (case vx_remote_ip ctx of
        None \<Rightarrow> (case vx_remote_addr ctx of None \<Rightarrow> ''-'' | Some a \<Rightarrow> a, ctx)
      | Some (V4 w) \<Rightarrow> (formatIPv4 w, ctx)
      | Some (V6 w) \<Rightarrow>
          let ipStr = formatIPv6 w
          in case map_of (vx_addr_cache ctx) ipStr of
               Some cached \<Rightarrow> (cached, ctx)
             | None \<Rightarrow>
                 (case vx_remote_addr ctx of
                    None \<Rightarrow> (''-'', ctx)
                  | Some result \<Rightarrow>
                      (result, if length (vx_addr_cache ctx) < addr_cache_max
                               then ctx\<lparr>vx_addr_cache := (ipStr, result) # vx_addr_cache ctx\<rparr> else ctx)))"

text \<open>\<open>strconv.FormatFloat(x, 'f', 3, 64)\<close> of a non-negative number.\<close>

definition format3 :: "rat \<Rightarrow> string" where
  "format3 x =
     (let n = nat \<lfloor>x * 1000 + 1 / 2\<rfloor>; f = n mod 1000
      in show_nat (n div 1000) @ ''.'' @ [digit_char (f div 100), digit_char ((f div 10) mod 10), digit_char (f mod 10)])"

definition formatRequestTime :: "int \<Rightarrow> string" where
  "formatRequestTime ns = format3 (of_int ns / 1000000000)"

definition after_colon :: "string \<Rightarrow> string" where
  "after_colon s = (case LastIndexByte s (CHR '':'') of None \<Rightarrow> ''-'' | Some i \<Rightarrow> drop (i + 1) s)"

definition user_string :: "user_value option \<Rightarrow> string option" where
  "user_string v = (case v of Some (UStr s) \<Rightarrow> Some s | _ \<Rightarrow> None)"

definition user_int :: "user_value option \<Rightarrow> int option" where
  "user_int v = (case v of Some (UInt i) \<Rightarrow> Some i | _ \<Rightarrow> None)"

definition user_int64 :: "user_value option \<Rightarrow> int option" where
  "user_int64 v = (case v of Some (UInt64 i) \<Rightarrow> Some i | _ \<Rightarrow> None)"

text \<open>The client certificate variables of \<^verbatim>\<open>ssl.go\<close> read what the TLS layer left in the request.\<close>

definition GetSSLClientVerify :: "var_ctx \<Rightarrow> string" where
  "GetSSLClientVerify c =
     (if \<not> vx_tls c then ''NONE''
      else case user_string (vx_user c ''ssl_client_verify'') of
        Some s \<Rightarrow> s
      | None \<Rightarrow> (if vx_user c ''tls_peer_cert_present'' \<noteq> None then ''SUCCESS'' else ''NONE''))"

definition ssl_client_value :: "string \<Rightarrow> var_ctx \<Rightarrow> string" where
  "ssl_client_value name c = (case user_string (vx_user c name) of Some s \<Rightarrow> s | None \<Rightarrow> [])"

definition ssl_client_names :: "string list" where
  "ssl_client_names = [''ssl_client_serial'', ''ssl_client_subject'', ''ssl_client_issuer'', ''ssl_client_fingerprint'',
     ''ssl_client_notbefore'', ''ssl_client_notafter'', ''ssl_client_email'']"

definition ssl_getter :: "string \<Rightarrow> (var_ctx \<Rightarrow> string \<times> var_ctx) option" where
  "ssl_getter name =
     (if name = ''ssl_client_verify'' then Some (\<lambda>c. (GetSSLClientVerify c, c))
      else if name = ''ssl_client_s_dn'' then Some (\<lambda>c. (ssl_client_value ''ssl_client_subject'' c, c))
      else if name \<in> set ssl_client_names then Some (\<lambda>c. (ssl_client_value name c, c))
      else None)"

text \<open>The table of built-in variables: \<open>None\<close> for a name that is not registered.\<close>

definition builtin_getter :: "string \<Rightarrow> (var_ctx \<Rightarrow> string \<times> var_ctx) option" where
  "builtin_getter name =
     (if name = ''host'' then Some (\<lambda>c. (vx_host c, c))
      else if name = ''remote_addr'' then Some FormatRemoteAddr
      else if name = ''remote_port'' then
        Some (\<lambda>c. case vx_remote_addr c of
            None \<Rightarrow> (''-'', c)
          | Some _ \<Rightarrow> (case FormatRemoteAddr c of (s, c') \<Rightarrow> (after_colon s, c')))
      else if name = ''request_uri'' then Some (\<lambda>c. (vx_request_uri c, c))
      else if name = ''uri'' then Some (\<lambda>c. (vx_path c, c))
      else if name = ''args'' then Some (\<lambda>c. (vx_args c, c))
      else if name = ''request_method'' then Some (\<lambda>c. (vx_method c, c))
      else if name = ''scheme'' then Some (\<lambda>c. (if vx_tls c then ''https'' else ''http'', c))
      else if name = ''server_name'' then
        Some (\<lambda>c. (case user_string (vx_user c ''server_name'') of Some s \<Rightarrow> s | None \<Rightarrow> ''-'', c))
      else if name = ''server_port'' then
        Some (\<lambda>c. (case vx_local_addr c of None \<Rightarrow> ''-'' | Some s \<Rightarrow> after_colon s, c))
      else if name = ''status'' then
        Some (\<lambda>c. (case user_int (vx_user c ''status'') of Some i \<Rightarrow> show_int i | None \<Rightarrow> ''-'', c))
      else if name = ''body_bytes_sent'' then
        Some (\<lambda>c. (case user_int64 (vx_user c ''body_bytes_sent'') of Some i \<Rightarrow> show_int i | None \<Rightarrow> ''0'', c))
      else if name = ''request_time'' then
        Some (\<lambda>c. (case user_int64 (vx_user c ''request_time'') of Some i \<Rightarrow> formatRequestTime i | None \<Rightarrow> ''0.000'', c))
      else if name = ''time_local'' then Some (\<lambda>c. (vx_time_local c, c))
      else if name = ''time_iso8601'' then Some (\<lambda>c. (vx_time_iso8601 c, c))
      else if name = ''request_id'' then
        Some (\<lambda>c. case user_string (vx_user c ''request_id'') of
            Some s \<Rightarrow> (s, c)
          | None \<Rightarrow> (vx_uuid c, c\<lparr>vx_user := (vx_user c)(''request_id'' \<mapsto> UStr (vx_uuid c))\<rparr>))
      else ssl_getter name)"

definition SetResponseInfoInContext :: "int \<Rightarrow> int \<Rightarrow> int \<Rightarrow> var_ctx \<Rightarrow> var_ctx" where
  "SetResponseInfoInContext status bodySize durationNs c =
     c\<lparr>vx_user := (vx_user c)(''status'' \<mapsto> UInt status, ''body_bytes_sent'' \<mapsto> UInt64 bodySize,
        ''request_time'' \<mapsto> UInt64 durationNs)\<rparr>"

section \<open>Contexts\<close>

record Context =
  vc_ctx :: "var_ctx option"
  vc_store :: "string \<rightharpoonup> string"
  vc_cache :: "string \<rightharpoonup> string"
  vc_bytesCache :: "string \<rightharpoonup> string"
  vc_serverName :: string
  vc_upstreamAddr :: string
  vc_status :: int
  vc_bodySize :: int
  vc_duration :: int
  vc_upstreamStatus :: int
  vc_upstreamResponseTime :: rat
  vc_upstreamConnectTime :: rat
  vc_upstreamHeaderTime :: rat

definition fresh_context :: "var_ctx option \<Rightarrow> Context" where
  "fresh_context ctx =
     \<lparr>vc_ctx = ctx, vc_store = Map.empty, vc_cache = Map.empty, vc_bytesCache = Map.empty, vc_serverName = [],
      vc_upstreamAddr = [], vc_status = 0, vc_bodySize = 0, vc_duration = 0, vc_upstreamStatus = 0,
      vc_upstreamResponseTime = 0, vc_upstreamConnectTime = 0, vc_upstreamHeaderTime = 0\<rparr>"

definition NewContext :: "Context list \<Rightarrow> var_ctx \<Rightarrow> Context \<times> Context list" where
  "NewContext pool ctx =
     (case pool of
        [] \<Rightarrow> (fresh_context (Some ctx), [])
      | vc # rest \<Rightarrow>
          (vc\<lparr>vc_ctx := Some ctx, vc_status := 0, vc_bodySize := 0, vc_duration := 0, vc_serverName := [],
             vc_upstreamAddr := [], vc_upstreamStatus := 0, vc_upstreamResponseTime := 0,
             vc_upstreamConnectTime := 0, vc_upstreamHeaderTime := 0, vc_cache := Map.empty,
             vc_bytesCache := Map.empty, vc_store := Map.empty\<rparr>, rest))"

definition ReleaseContext :: "Context \<Rightarrow> Context list \<Rightarrow> Context list" where
  "ReleaseContext vc pool =
     vc\<lparr>vc_ctx := None, vc_status := 0, vc_bodySize := 0, vc_duration := 0, vc_serverName := [],
        vc_upstreamAddr := [], vc_upstreamStatus := 0, vc_upstreamResponseTime := 0,
        vc_upstreamConnectTime := 0, vc_upstreamHeaderTime := 0\<rparr> # pool"

definition SetResponseInfo :: "int \<Rightarrow> int \<Rightarrow> int \<Rightarrow> Context \<Rightarrow> Context" where
  "SetResponseInfo status bodySize durationNs vc =
     vc\<lparr>vc_status := status, vc_bodySize := bodySize, vc_duration := durationNs\<rparr>"

definition SetServerName :: "string \<Rightarrow> Context \<Rightarrow> Context" where
  "SetServerName name vc = vc\<lparr>vc_serverName := name\<rparr>"

definition SetUpstreamVars :: "string \<Rightarrow> int \<Rightarrow> rat \<Rightarrow> rat \<Rightarrow> rat \<Rightarrow> Context \<Rightarrow> Context" where
  "SetUpstreamVars addr status rt ct ht vc =
     vc\<lparr>vc_upstreamAddr := addr, vc_upstreamStatus := status, vc_upstreamResponseTime := rt,
        vc_upstreamConnectTime := ct, vc_upstreamHeaderTime := ht\<rparr>"

definition Variable_Set :: "string \<Rightarrow> string \<Rightarrow> Context \<Rightarrow> Context" where
  "Variable_Set name value vc = vc\<lparr>vc_store := (vc_store vc)(name \<mapsto> value)\<rparr>"

definition context_user :: "Context \<Rightarrow> string \<Rightarrow> user_value option" where
  "context_user vc name = (case vc_ctx vc of None \<Rightarrow> None | Some c \<Rightarrow> vx_user c name)"

definition evalBuiltin :: "Context \<Rightarrow> string \<Rightarrow> string option \<times> Context" where
  "evalBuiltin vc name =
     (case (builtin_getter name, vc_ctx vc) of
        (Some g, Some c) \<Rightarrow> (case g c of (v, c') \<Rightarrow> (Some v, vc\<lparr>vc_ctx := Some c'\<rparr>))
      | _ \<Rightarrow> (None, vc))"

text \<open>The \<open>switch\<close> of \<open>Get\<close> over the variables the context holds itself: \<open>None\<close> where the code falls out of the
  switch and goes on.\<close>

definition response_variable :: "Context \<Rightarrow> string \<Rightarrow> string option" where
  "response_variable vc name =
     (if name = ''status'' then
        (if vc_status vc > 0 then Some (show_int (vc_status vc))
         else map_option show_int (user_int (context_user vc ''status'')))
      else if name = ''body_bytes_sent'' then
        Some (if vc_bodySize vc > 0 then show_int (vc_bodySize vc)
              else case user_int64 (context_user vc ''body_bytes_sent'') of Some i \<Rightarrow> show_int i | None \<Rightarrow> ''0'')
      else if name = ''request_time'' then
        Some (if vc_duration vc > 0 then format3 (of_int (vc_duration vc) / 1000000000)
              else case user_int64 (context_user vc ''request_time'') of
                     Some i \<Rightarrow> format3 (of_int i / 1000000000) | None \<Rightarrow> ''0.000'')
      else if name = ''server_name'' then (if vc_serverName vc \<noteq> [] then Some (vc_serverName vc) else None)
      else if name = ''upstream_addr'' then Some (if vc_upstreamAddr vc \<noteq> [] then vc_upstreamAddr vc else ''-'')
      else if name = ''upstream_status'' then
        Some (if vc_upstreamStatus vc > 0 then show_int (vc_upstreamStatus vc) else ''-'')
      else if name = ''upstream_response_time'' then
        Some (if vc_upstreamResponseTime vc > 0 then format3 (vc_upstreamResponseTime vc) else ''-'')
      else if name = ''upstream_connect_time'' then
        Some (if vc_upstreamConnectTime vc > 0 then format3 (vc_upstreamConnectTime vc) else ''-'')
      else if name = ''upstream_header_time'' then
        Some (if vc_upstreamHeaderTime vc > 0 then format3 (vc_upstreamHeaderTime vc) else ''-'')
      else None)"

definition Variable_Get :: "(string \<rightharpoonup> string) \<Rightarrow> Context \<Rightarrow> string \<Rightarrow> string option \<times> Context" where
  "Variable_Get globals vc name =
     (case vc_store vc name of
        Some v \<Rightarrow> (Some v, vc)
      | None \<Rightarrow>
          (case globals name of
             Some v \<Rightarrow> (Some v, vc)
           | None \<Rightarrow>
               (case response_variable vc name of
                  Some v \<Rightarrow> (Some v, vc)
                | None \<Rightarrow>
                    (case vc_cache vc name of
                       Some v \<Rightarrow> (Some v, vc)
                     | None \<Rightarrow>
                         (case evalBuiltin vc name of
                            (Some v, vc') \<Rightarrow> (Some v, vc'\<lparr>vc_cache := (vc_cache vc')(name \<mapsto> v)\<rparr>)
                          | (None, vc') \<Rightarrow> (None, vc'))))))"

text \<open>\<open>EphemeralGet\<close> looks into the byte cache before the response variables, and stores in it what it formats
  or evaluates, but not the default of an upstream variable and not the server name or upstream address.\<close>

definition uncached_variable :: "Context \<Rightarrow> string \<Rightarrow> bool" where
  "uncached_variable vc name \<longleftrightarrow> name = ''server_name'' \<or> name = ''upstream_addr''
     \<or> (name = ''upstream_status'' \<and> \<not> vc_upstreamStatus vc > 0)
     \<or> (name = ''upstream_response_time'' \<and> \<not> vc_upstreamResponseTime vc > 0)
     \<or> (name = ''upstream_connect_time'' \<and> \<not> vc_upstreamConnectTime vc > 0)
     \<or> (name = ''upstream_header_time'' \<and> \<not> vc_upstreamHeaderTime vc > 0)"

definition EphemeralGet :: "(string \<rightharpoonup> string) \<Rightarrow> Context \<Rightarrow> string \<Rightarrow> string option \<times> Context" where
  "EphemeralGet globals vc name =
     (let keep = (\<lambda>v vc. vc\<lparr>vc_bytesCache := (vc_bytesCache vc)(name \<mapsto> v)\<rparr>)
      in case vc_store vc name of
        Some v \<Rightarrow> (Some v, vc)
      | None \<Rightarrow>
          (case globals name of
             Some v \<Rightarrow> (Some v, vc)
           | None \<Rightarrow>
               (case vc_bytesCache vc name of
                  Some v \<Rightarrow> (Some v, vc)
                | None \<Rightarrow>
                    (case response_variable vc name of
                       Some v \<Rightarrow> (Some v, if uncached_variable vc name then vc else keep v vc)
                     | None \<Rightarrow>
                         (case evalBuiltin vc name of
                            (Some v, vc') \<Rightarrow> (Some v, keep v vc')
                          | (None, vc') \<Rightarrow> (None, vc'))))))"

definition PersistentGet :: "(string \<rightharpoonup> string) \<Rightarrow> Context \<Rightarrow> string \<Rightarrow> string \<times> Context" where
  "PersistentGet globals vc name =
     (case Variable_Get globals vc name of (Some v, vc') \<Rightarrow> (v, vc') | (None, vc') \<Rightarrow> ([], vc'))"

section \<open>Expansion\<close>

definition is_ident :: "char \<Rightarrow> bool" where
  "is_ident c \<longleftrightarrow> (let n = (of_char c :: nat) in
     (97 \<le> n \<and> n \<le> 122) \<or> (65 \<le> n \<and> n \<le> 90) \<or> (48 \<le> n \<and> n \<le> 57) \<or> c = CHR ''_'')"

text \<open>One round of the scanning loop of \<open>expandCore\<close>: either text is written, or a variable is substituted, whose
  original spelling is kept for the case that it is unknown; with the rest of the template.\<close>

datatype piece = Write string | Substitute string string

fun next_piece :: "char \<Rightarrow> string \<Rightarrow> piece \<times> string" where
  "next_piece c cs =
     (if c \<noteq> CHR ''$'' then (Write [c], cs)
      else
        (case cs of
           [] \<Rightarrow> (Write [c], cs)
         | d # ds \<Rightarrow>
             if d = CHR ''{'' then
               (case IndexByte ds (CHR ''}'') of
                  None \<Rightarrow> (Write [c], cs)
                | Some e \<Rightarrow>
                    if take e ds = [] then (Write ''${}'', drop (e + 1) ds)
                    else (Substitute (take e ds) (c # d # take e ds @ ''}''), drop (e + 1) ds))
             else
               let varName = takeWhile is_ident cs
               in if varName = [] then (Write [c], cs) else (Substitute varName (c # varName), dropWhile is_ident cs)))"

lemma next_piece_shorter: "length (snd (next_piece c cs)) \<le> length cs"
  by (auto simp: Let_def length_dropWhile_le le_SucI split: list.split option.split)

text \<open>The lookup may change its state, as \<open>Get\<close> does. The written text is the first component.\<close>

function expand_loop ::
  "('s \<Rightarrow> string \<Rightarrow> string option \<times> 's) \<Rightarrow> bool \<Rightarrow> 's \<Rightarrow> string \<Rightarrow> string \<times> 's" where
  "expand_loop lookup keepOriginal s [] = ([], s)"
| "expand_loop lookup keepOriginal s (c # cs) =
     (let rest = snd (next_piece c cs);
          (written, s1) =
            (case fst (next_piece c cs) of
               Write t \<Rightarrow> (t, s)
             | Substitute varName original \<Rightarrow>
                 (case lookup s varName of
                    (Some v, s1) \<Rightarrow> (v, s1)
                  | (None, s1) \<Rightarrow> (if keepOriginal then original else [], s1)))
      in case expand_loop lookup keepOriginal s1 rest of (out, s2) \<Rightarrow> (written @ out, s2))"
  by pat_completeness auto

termination
  by (relation "measure (\<lambda>(_, _, _, t). length t)") (use next_piece_shorter in \<open>auto simp: le_imp_less_Suc simp del: next_piece.simps\<close>)

declare next_piece.simps [simp del]

definition expandCore ::
  "string \<Rightarrow> ('s \<Rightarrow> string \<Rightarrow> string option \<times> 's) \<Rightarrow> bool \<Rightarrow> 's \<Rightarrow> string \<times> 's" where
  "expandCore template lookup keepOriginal s =
     (if template = [] then ([], s)
      else if CHR ''$'' \<notin> set template then (template, s)
      else expand_loop lookup keepOriginal s template)"

definition Variable_Expand :: "(string \<rightharpoonup> string) \<Rightarrow> Context \<Rightarrow> string \<Rightarrow> string \<times> Context" where
  "Variable_Expand globals vc template = expandCore template (Variable_Get globals) True vc"

section \<open>What expansion means\<close>

text \<open>A template as a sequence of literal text and variables, in either spelling.\<close>

datatype part = Lit string | Var string | Braced string

fun render :: "part list \<Rightarrow> string" where
  "render [] = []"
| "render (Lit t # ps) = t @ render ps"
| "render (Var n # ps) = CHR ''$'' # n @ render ps"
| "render (Braced n # ps) = ''${'' @ n @ ''}'' @ render ps"

fun denote ::
  "('s \<Rightarrow> string \<Rightarrow> string option \<times> 's) \<Rightarrow> 's \<Rightarrow> part list \<Rightarrow> string \<times> 's" where
  "denote lookup s [] = ([], s)"
| "denote lookup s (Lit t # ps) = (case denote lookup s ps of (out, s') \<Rightarrow> (t @ out, s'))"
| "denote lookup s (Var n # ps) =
     (case lookup s n of (r, s1) \<Rightarrow> (case denote lookup s1 ps of (out, s2) \<Rightarrow>
        ((case r of Some v \<Rightarrow> v | None \<Rightarrow> CHR ''$'' # n) @ out, s2)))"
| "denote lookup s (Braced n # ps) =
     (case lookup s n of (r, s1) \<Rightarrow> (case denote lookup s1 ps of (out, s2) \<Rightarrow>
        ((case r of Some v \<Rightarrow> v | None \<Rightarrow> ''${'' @ n @ ''}'') @ out, s2)))"

fun wf_parts :: "part list \<Rightarrow> bool" where
  "wf_parts [] = True"
| "wf_parts (Lit t # ps) \<longleftrightarrow> CHR ''$'' \<notin> set t \<and> wf_parts ps"
| "wf_parts (Var n # ps) \<longleftrightarrow> n \<noteq> [] \<and> list_all is_ident n \<and> (render ps = [] \<or> \<not> is_ident (hd (render ps))) \<and> wf_parts ps"
| "wf_parts (Braced n # ps) \<longleftrightarrow> n \<noteq> [] \<and> CHR ''}'' \<notin> set n \<and> wf_parts ps"

lemma next_literal: "c \<noteq> CHR ''$'' \<Longrightarrow> next_piece c cs = (Write [c], cs)"
  by (simp add: next_piece.simps)

lemma expand_literal: "CHR ''$'' \<notin> set t \<Longrightarrow>
    expand_loop lk keep s (t @ u) = (case expand_loop lk keep s u of (out, s') \<Rightarrow> (t @ out, s'))"
  by (induction t) (auto simp: case_prod_beta next_literal)

lemma is_ident_not_brace: "is_ident c \<Longrightarrow> c \<noteq> CHR ''{'' \<and> c \<noteq> CHR ''$''"
  by (auto simp: is_ident_def Let_def)

lemma next_variable:
  assumes "n \<noteq> []" "list_all is_ident n" "u = [] \<or> \<not> is_ident (hd u)"
  shows "next_piece (CHR ''$'') (n @ u) = (Substitute n (CHR ''$'' # n), u)"
proof -
  obtain d ds where n: "n = d # ds" using assms(1) by (cases n) auto
  have d: "is_ident d" "d \<noteq> CHR ''{''" using assms(2) is_ident_not_brace by (auto simp: n)
  have a: "\<forall>c \<in> set ds. is_ident c" using assms(2) by (simp add: n list_all_iff)
  have tw: "takeWhile is_ident (ds @ u) = ds" "dropWhile is_ident (ds @ u) = u"
    using a assms(3) by (cases u; simp add: takeWhile_append dropWhile_append)+
  show ?thesis using d tw by (simp add: n Let_def next_piece.simps)
qed

lemma next_braced:
  assumes "n \<noteq> []" "CHR ''}'' \<notin> set n"
  shows "next_piece (CHR ''$'') (CHR ''{'' # n @ CHR ''}'' # u) = (Substitute n (''${'' @ n @ ''}''), u)"
  using assms IndexByte_append [of "CHR ''}''" n u] by (simp add: next_piece.simps)

lemma expand_loop_denote: "wf_parts ps \<Longrightarrow> expand_loop lk True s (render ps) = denote lk s ps"
proof (induction ps arbitrary: s rule: wf_parts.induct)
  case (2 t ps)
  then show ?case by (simp add: expand_literal)
next
  case (3 n ps)
  then show ?case by (auto simp: next_variable split: prod.split option.split)
next
  case (4 n ps)
  then show ?case using next_braced [of n "render ps"] by (auto split: prod.split option.split)
qed simp

text \<open>C28. Templates mean what they say: a template made of literal text and of variables in either spelling expands to
  its parts in order, each variable looked up once, from left to right and with the state earlier lookups left, its
  value copied verbatim (a dollar sign in a value is not expanded again) and an unknown variable kept as
  it was written.\<close>

theorem expand_denotes:
  assumes "wf_parts ps"
  shows "expandCore (render ps) lookup True s = denote lookup s ps"
proof (cases "CHR ''$'' \<in> set (render ps)")
  case True
  then show ?thesis using expand_loop_denote [OF assms] by (auto simp: expandCore_def)
next
  case False
  then have "expand_loop lookup True s (render ps) = (render ps, s)"
    using expand_literal [OF False, of lookup True s "[]"] by simp
  then show ?thesis using expand_loop_denote [OF assms, of lookup s] False by (auto simp: expandCore_def)
qed

definition demo_var_ctx :: var_ctx where
  "demo_var_ctx = \<lparr>vx_host = ''h'', vx_request_uri = ''/a?b'', vx_path = ''/a'', vx_args = ''b'', vx_method = ''GET'', vx_tls = True,
     vx_remote_ip = Some (V4 0x0A000001), vx_remote_addr = Some ''10.0.0.1:5555'', vx_local_addr = Some ''1.2.3.4:443'',
     vx_user = Map.empty, vx_time_local = [], vx_time_iso8601 = [], vx_uuid = ''u'', vx_addr_cache = []\<rparr>"

theorem expand_denotes_witness:
  "fst (Variable_Expand Map.empty (fresh_context (Some demo_var_ctx)) ''$scheme://${host}/$nope'') = ''https://h/$nope''"
proof -
  let ?ps = "[Var ''scheme'', Lit ''://'', Braced ''host'', Lit ''/'', Var ''nope'']"
  have h: "wf_parts ?ps" by code_simp
  have "''$scheme://${host}/$nope'' = render ?ps" by simp
  moreover have "fst (denote (Variable_Get Map.empty) (fresh_context (Some demo_var_ctx)) ?ps) = ''https://h/$nope''"
    by code_simp
  ultimately show ?thesis
    using expand_denotes [OF h, of "Variable_Get Map.empty" "fresh_context (Some demo_var_ctx)"]
    by (simp add: Variable_Expand_def)
qed

section \<open>Lookups\<close>

text \<open>Requests are isolated: whatever an earlier request left in a pooled context, a new one starts from nothing.\<close>

lemma NewContext_fresh: "NewContext pool ctx = (fresh_context (Some ctx), tl pool)"
  by (cases pool) (simp_all add: NewContext_def fresh_context_def)

text \<open>The zero-copy lookup agrees with the ordinary one on a context that has not cached anything yet.\<close>

lemma EphemeralGet_agrees:
  "vc_cache vc name = None \<Longrightarrow> vc_bytesCache vc name = None \<Longrightarrow>
    fst (EphemeralGet globals vc name) = fst (Variable_Get globals vc name)"
  by (auto simp: EphemeralGet_def Variable_Get_def Let_def split: option.splits prod.splits)

text \<open>An IPv4 client has no port: \<open>remote_port\<close> searches the formatted address for a colon, but the formatter
  prints the address alone.\<close>

lemma remote_port_v4:
  assumes "vx_remote_ip c = Some (V4 w)" and "builtin_getter ''remote_port'' = Some g"
  shows "fst (g c) = ''-''"
proof -
  have "LastIndexByte (formatIPv4 w) (CHR '':'') = None"
    using formatIPv4_sep [of "CHR '':''" w] by (simp add: LastIndexByte_None)
  then have "after_colon (formatIPv4 w) = ''-''" by (simp add: after_colon_def)
  then show ?thesis using assms by (auto simp: builtin_getter_def FormatRemoteAddr_def split: option.split)
qed

end
