(* ===== verification/HttpMsg.thy ===== *)
theory HttpMsg
  imports Variable ProxyCache
begin

text \<open>
  HTTP messages as the proxy sees them, with \<^verbatim>\<open>internal/netutil/url.go\<close>, \<^verbatim>\<open>internal/netutil/host.go\<close>,
  \<^verbatim>\<open>internal/utils/bytes.go\<close>, \<^verbatim>\<open>internal/proxy/headers.go\<close> and the upgrade test of \<^verbatim>\<open>proxy.go\<close>. A header block is a list of
  names and values; fasthttp normalises header names, so names are compared without regard to case. The
  request keeps its URI parsed, as fasthttp caches it: rewriting the \<open>Host\<close> header does not change it,
  setting a new request URI does. \<open>hr_RawURI\<close> is the request line's URI.
\<close>

section \<open>Header blocks\<close>

type_synonym headers = "(string \<times> string) list"

definition EqualFold :: "string \<Rightarrow> string \<Rightarrow> bool" where
  "EqualFold a b \<longleftrightarrow> ToLower a = ToLower b"

fun hdr_Peek :: "headers \<Rightarrow> string \<Rightarrow> string" where
  "hdr_Peek [] name = []"
| "hdr_Peek ((k, v) # hs) name = (if EqualFold k name then v else hdr_Peek hs name)"

definition hdr_Del :: "string \<Rightarrow> headers \<Rightarrow> headers" where
  "hdr_Del name hs = filter (\<lambda>(k, _). \<not> EqualFold k name) hs"

fun hdr_Set :: "string \<Rightarrow> string \<Rightarrow> headers \<Rightarrow> headers" where
  "hdr_Set name v [] = [(name, v)]"
| "hdr_Set name v ((k, w) # hs) = (if EqualFold k name then (k, v) # hs else (k, w) # hdr_Set name v hs)"

definition hdr_Add :: "string \<Rightarrow> string \<Rightarrow> headers \<Rightarrow> headers" where
  "hdr_Add name v hs = hs @ [(name, v)]"

lemma EqualFold_refl [simp]: "EqualFold a a"
  by (simp add: EqualFold_def)

lemma Peek_Set [simp]: "hdr_Peek (hdr_Set n v hs) m = (if EqualFold n m then v else hdr_Peek hs m)"
  by (induction n v hs rule: hdr_Set.induct) (auto simp: EqualFold_def)

lemma Peek_Del [simp]: "hdr_Peek (hdr_Del n hs) m = (if EqualFold n m then [] else hdr_Peek hs m)"
  by (induction hs) (auto simp: hdr_Del_def EqualFold_def)

lemma Peek_not_in: "\<forall>(k, v) \<in> set hs. \<not> EqualFold k m \<Longrightarrow> hdr_Peek hs m = []"
  by (induction hs) auto

section \<open>Requests and responses\<close>

record request =
  hr_Method :: string
  hr_Headers :: headers
  hr_Host :: string
  hr_Path :: string
  hr_Query :: string
  hr_RawURI :: string
  hr_IsTLS :: bool
  hr_Remote :: "remote_addr option"
  hr_User :: "string \<rightharpoonup> user_value"

record response =
  rs_Status :: int
  rs_Headers :: headers
  rs_Body :: string

text \<open>\<open>URI().RequestURI()\<close>: path and query.\<close>

definition RequestURI :: "request \<Rightarrow> string" where
  "RequestURI r = hr_Path r @ (if hr_Query r = [] then [] else CHR ''?'' # hr_Query r)"

definition ctx_of :: "request \<Rightarrow> RequestCtx" where
  "ctx_of r = \<lparr>Peek = hdr_Peek (hr_Headers r), RemoteAddr = hr_Remote r\<rparr>"

definition cache_request_of :: "request \<Rightarrow> cache_request" where
  "cache_request_of r =
     \<lparr>rq_method = hr_Method r, rq_host = hdr_Peek (hr_Headers r) ''Host'', rq_uri = RequestURI r,
      rq_header = hdr_Peek (hr_Headers r)\<rparr>"

section \<open>Targets and hosts\<close>

definition ParseTargetURL :: "string \<Rightarrow> bool \<Rightarrow> string \<times> bool" where
  "ParseTargetURL targetURL addDefaultPort =
     (let (addr, isTLS) =
            (if HasPrefix targetURL ''http://'' then (drop 7 targetURL, False)
             else if HasPrefix targetURL ''https://'' then (drop 8 targetURL, True)
             else (targetURL, False));
          addr = (case IndexByte addr (CHR ''/'') of Some idx \<Rightarrow> take idx addr | None \<Rightarrow> addr);
          addr = (if addDefaultPort \<and> \<not> Contains addr '':''
                  then (if isTLS then addr @ '':443'' else addr @ '':80'') else addr)
      in (addr, isTLS))"

definition ExtractHost :: "string \<Rightarrow> string" where
  "ExtractHost targetURL = fst (ParseTargetURL targetURL True)"

fun strip_v6 :: "string \<Rightarrow> string option" where
  "strip_v6 (a # b # cs) =
     (if a = CHR '']'' \<and> b = CHR '':'' then Some [a] else map_option (\<lambda>p. a # p) (strip_v6 (b # cs)))"
| "strip_v6 _ = None"

definition StripPort :: "string \<Rightarrow> string" where
  "StripPort host =
     (case host of
        [] \<Rightarrow> host
      | c # _ \<Rightarrow>
          if c = CHR ''['' then (case strip_v6 host of Some h \<Rightarrow> h | None \<Rightarrow> host)
          else (case IndexByte host (CHR '':'') of Some i \<Rightarrow> take i host | None \<Rightarrow> host))"

text \<open>The address a client connects to is read back from the URL it was written in, with the port the scheme
  implies.\<close>

lemma StrIndex_single: "StrIndex s [c] = IndexByte s c"
  by (induction s) (auto simp: HasPrefix_def)

lemma Contains_single: "Contains s [c] \<longleftrightarrow> c \<in> set s"
  using IndexByte_None [of s c] by (auto simp: Contains_def StrIndex_single)

lemma ParseTargetURL_roundtrip:
  assumes "CHR ''/'' \<notin> set host" "CHR '':'' \<notin> set host" and "path = [] \<or> hd path = CHR ''/''"
  shows "ParseTargetURL (''http://'' @ host @ path) True = (host @ '':80'', False)"
    and "ParseTargetURL (''https://'' @ host @ path) True = (host @ '':443'', True)"
    and "ParseTargetURL (''http://'' @ host @ '':'' @ show_nat port @ path) b = (host @ '':'' @ show_nat port, False)"
    and "ParseTargetURL (''https://'' @ host @ '':'' @ show_nat port @ path) b = (host @ '':'' @ show_nat port, True)"
proof -
  have cut: "(case IndexByte (h @ path) (CHR ''/'') of Some i \<Rightarrow> take i (h @ path) | None \<Rightarrow> h @ path) = h"
    if "CHR ''/'' \<notin> set h" for h
    using that assms(3) IndexByte_append [OF that] IndexByte_None [of h "CHR ''/''"]
    by (cases path) auto
  have p: "CHR ''/'' \<notin> set (host @ '':'' @ show_nat port)"
    using assms(1) show_nat_chars [of "CHR ''/''" port] by (auto simp: is_digit_def)
  show "ParseTargetURL (''http://'' @ host @ path) True = (host @ '':80'', False)"
    "ParseTargetURL (''https://'' @ host @ path) True = (host @ '':443'', True)"
    using cut [OF assms(1)] assms(2) by (simp_all add: ParseTargetURL_def HasPrefix_def Contains_single Let_def)
  show "ParseTargetURL (''http://'' @ host @ '':'' @ show_nat port @ path) b = (host @ '':'' @ show_nat port, False)"
    "ParseTargetURL (''https://'' @ host @ '':'' @ show_nat port @ path) b = (host @ '':'' @ show_nat port, True)"
    using cut [OF p, unfolded append_assoc append_Cons append_Nil]
    by (simp_all add: ParseTargetURL_def HasPrefix_def Contains_single Let_def)
qed

section \<open>Forwarding headers: \<open>headers.go\<close>\<close>

record ForwardedHeaders =
  fh_ClientIP :: string
  fh_Host :: string
  fh_Proto :: string

definition ExtractForwardedHeaders :: "request \<Rightarrow> ForwardedHeaders" where
  "ExtractForwardedHeaders r =
     \<lparr>fh_ClientIP = ExtractClientIP (ctx_of r), fh_Host = hr_Host r, fh_Proto = (if hr_IsTLS r then ''https'' else ''http'')\<rparr>"

definition SetForwardedHeaders :: "ForwardedHeaders \<Rightarrow> bool \<Rightarrow> bool \<Rightarrow> bool \<Rightarrow> headers \<Rightarrow> headers" where
  "SetForwardedHeaders fh appendXFF setHost setProto h0 =
     (let h1 = (if fh_ClientIP fh \<noteq> [] then hdr_Set ''X-Real-IP'' (fh_ClientIP fh) h0 else h0);
          h2 = (if fh_ClientIP fh \<noteq> [] then
                  (let existingXFF = hdr_Peek h1 ''X-Forwarded-For''
                   in if appendXFF \<and> existingXFF \<noteq> []
                      then hdr_Set ''X-Forwarded-For'' (existingXFF @ '', '' @ fh_ClientIP fh) h1
                      else hdr_Set ''X-Forwarded-For'' (fh_ClientIP fh) h1)
                else h1);
          h3 = (if setHost \<and> fh_Host fh \<noteq> [] then hdr_Set ''X-Forwarded-Host'' (fh_Host fh) h2 else h2)
      in if setProto \<and> fh_Proto fh \<noteq> [] then hdr_Set ''X-Forwarded-Proto'' (fh_Proto fh) h3 else h3)"

definition SetRequestIDHeader :: "request \<Rightarrow> headers \<Rightarrow> headers" where
  "SetRequestIDHeader r h =
     (case user_string (hr_User r ''request_id'') of
        Some ident \<Rightarrow> (if ident \<noteq> [] then hdr_Set ''X-Request-ID'' ident h else h)
      | None \<Rightarrow> h)"

definition WriteForwardedHeaders :: "ForwardedHeaders \<Rightarrow> bool \<Rightarrow> bool \<Rightarrow> string" where
  "WriteForwardedHeaders fh setHost setProto =
     (let crlf = [CHR 0x0D, CHR 0x0A]
      in (if fh_ClientIP fh \<noteq> [] then ''X-Forwarded-For: '' @ fh_ClientIP fh @ crlf @ ''X-Real-IP: '' @ fh_ClientIP fh @ crlf else [])
         @ (if setHost \<and> fh_Host fh \<noteq> [] then ''X-Forwarded-Host: '' @ fh_Host fh @ crlf else [])
         @ (if setProto \<and> fh_Proto fh \<noteq> [] then ''X-Forwarded-Proto: '' @ fh_Proto fh @ crlf else []))"

section \<open>Upgrade requests\<close>

fun contains_fold_loop :: "string \<Rightarrow> string \<Rightarrow> bool" where
  "contains_fold_loop [] sub = False"
| "contains_fold_loop (c # cs) sub \<longleftrightarrow>
     length sub \<le> length (c # cs) \<and> (EqualFold (take (length sub) (c # cs)) sub \<or> contains_fold_loop cs sub)"

definition BytesContainsFold :: "string \<Rightarrow> string \<Rightarrow> bool" where
  "BytesContainsFold b sub =
     (if length sub = 0 then True else if length sub > length b then False else contains_fold_loop b sub)"

definition isWebSocketRequest :: "request \<Rightarrow> bool" where
  "isWebSocketRequest r =
     (let connection = hdr_Peek (hr_Headers r) ''Connection''
      in if connection = [] then False
         else if \<not> EqualFold connection ''upgrade'' \<and> \<not> BytesContainsFold connection ''upgrade'' then False
         else EqualFold (hdr_Peek (hr_Headers r) ''Upgrade'') ''websocket'')"

end
