(* ===== verification/Selector.thy ===== *)
theory Selector
  imports Config HttpMsg
begin

text \<open>
  The balancers behind one interface: \<open>createBalancerByName\<close> of \<^verbatim>\<open>internal/proxy/proxy.go\<close> and the target
  selection of \<^verbatim>\<open>internal/proxy/target_selector.go\<close>. The Go interface \<open>Balancer\<close> is the datatype \<open>lb\<close>, whose type
  switches are case distinctions; a sticky session and its wrapper share one fallback balancer, which is
  therefore a component of the value. A selection gets the clock and the two random draws as arguments.
\<close>

section \<open>The balancers\<close>

datatype lb =
    LB_RoundRobin RoundRobin
  | LB_WeightedRoundRobin WeightedRoundRobin
  | LB_LeastConnections
  | LB_IPHash
  | LB_ConsistentHash ConsistentHash
  | LB_Random
  | LB_LeastTime LeastTime
  | LB_Sticky StickySession lb

record draw =
  d_now :: nanos
  d_ri :: nat
  d_rj :: nat

fun lb_Select :: "draw \<Rightarrow> lb \<Rightarrow> lbstate \<Rightarrow> ptr list \<Rightarrow> ptr option \<times> lb \<times> lbstate" where
  "lb_Select d (LB_RoundRobin r) st ts = (case RoundRobin_Select r (d_now d) st ts of (p, r', st') \<Rightarrow> (p, LB_RoundRobin r', st'))"
| "lb_Select d (LB_WeightedRoundRobin w) st ts =
     (case WeightedRoundRobin_Select w (d_now d) st ts of (p, w', st') \<Rightarrow> (p, LB_WeightedRoundRobin w', st'))"
| "lb_Select d LB_LeastConnections st ts = (case LeastConnections_Select st ts of (p, st') \<Rightarrow> (p, LB_LeastConnections, st'))"
| "lb_Select d LB_IPHash st ts = (case IPHash_Select (d_now d) st ts of (p, st') \<Rightarrow> (p, LB_IPHash, st'))"
| "lb_Select d (LB_ConsistentHash c) st ts =
     (case CH_Select c (heap st) ts of (p, c', h) \<Rightarrow> (p, LB_ConsistentHash c', st\<lparr>heap := h\<rparr>))"
| "lb_Select d LB_Random st ts = (case Random_Select (d_ri d) (d_rj d) (d_now d) st ts of (p, st') \<Rightarrow> (p, LB_Random, st'))"
| "lb_Select d (LB_LeastTime l) st ts = (case LeastTime_Select l (d_now d) st ts of (p, st') \<Rightarrow> (p, LB_LeastTime l, st'))"
| "lb_Select d (LB_Sticky s f) st ts = (case lb_Select d f st ts of (p, f', st') \<Rightarrow> (p, LB_Sticky s f', st'))"

fun lb_SelectExcluding ::
  "draw \<Rightarrow> lb \<Rightarrow> lbstate \<Rightarrow> ptr list \<Rightarrow> ptr option list \<Rightarrow> (go_panic + ptr option) \<times> lb \<times> lbstate" where
  "lb_SelectExcluding d (LB_RoundRobin r) st ts ex =
     (case RoundRobin_SelectExcluding r (d_now d) st ts ex of (p, r', st') \<Rightarrow> (Inr p, LB_RoundRobin r', st'))"
| "lb_SelectExcluding d (LB_WeightedRoundRobin w) st ts ex =
     (case WeightedRoundRobin_SelectExcluding w (d_now d) st ts ex of (p, w', st') \<Rightarrow> (Inr p, LB_WeightedRoundRobin w', st'))"
| "lb_SelectExcluding d LB_LeastConnections st ts ex =
     (case LeastConnections_SelectExcluding (d_now d) st ts ex of (p, st') \<Rightarrow> (Inr p, LB_LeastConnections, st'))"
| "lb_SelectExcluding d LB_IPHash st ts ex = (case IPHash_SelectExcluding (d_now d) st ts ex of (p, st') \<Rightarrow> (Inr p, LB_IPHash, st'))"
| "lb_SelectExcluding d (LB_ConsistentHash c) st ts ex =
     (case CH_SelectExcluding c st ts ex of (r, c', st') \<Rightarrow> (r, LB_ConsistentHash c', st'))"
| "lb_SelectExcluding d LB_Random st ts ex =
     (case Random_SelectExcluding (d_ri d) (d_rj d) (d_now d) st ts ex of (p, st') \<Rightarrow> (Inr p, LB_Random, st'))"
| "lb_SelectExcluding d (LB_LeastTime l) st ts ex =
     (case LeastTime_SelectExcluding l (d_now d) st ts ex of (p, st') \<Rightarrow> (Inr p, LB_LeastTime l, st'))"
| "lb_SelectExcluding d (LB_Sticky s f) st ts ex =
     (case lb_SelectExcluding d f st ts ex of (r, f', st') \<Rightarrow> (r, LB_Sticky s f', st'))"

section \<open>Construction\<close>

datatype balancer_error = UnsupportedAlgorithm string | StickyFallback balancer_error

definition sticky_settings :: "StickyConfig \<Rightarrow> StickyConfig" where
  "sticky_settings c =
     (let c = (if sc_Name c = [] then c\<lparr>sc_Name := ''lolly_route''\<rparr> else c);
          c = (if sc_Expires c \<le> 0 then c\<lparr>sc_Expires := 3600 * second\<rparr> else c)
      in if sc_Path c = [] then c\<lparr>sc_Path := ''/''\<rparr> else c)"

text \<open>The function calls itself for the fallback of a sticky session; \<open>None\<close> is a call that does not return.\<close>

partial_function (option) createBalancerByName :: "string \<Rightarrow> ProxyConfig \<Rightarrow> (balancer_error + lb) option" where
  "createBalancerByName name cfg =
     (if name = ''round_robin'' \<or> name = [] then Some (Inr (LB_RoundRobin NewRoundRobin))
      else if name = ''weighted_round_robin'' then Some (Inr (LB_WeightedRoundRobin NewWeightedRoundRobin))
      else if name = ''least_conn'' then Some (Inr LB_LeastConnections)
      else if name = ''ip_hash'' then Some (Inr LB_IPHash)
      else if name = ''consistent_hash'' then
        Some (Inr (LB_ConsistentHash (NewConsistentHash (if px_VirtualNodes cfg \<le> 0 then 150 else px_VirtualNodes cfg) (px_HashKey cfg))))
      else if name = ''random'' then Some (Inr LB_Random)
      else if name = ''least_time'' then
        Some (Inr (LB_LeastTime (NewLeastTime
          (if ltc_Metric (px_LeastTime cfg) = [] then ''last_byte'' else ltc_Metric (px_LeastTime cfg))
          (if ltc_DefaultTime (px_LeastTime cfg) \<le> 0 then millisecond else ltc_DefaultTime (px_LeastTime cfg)))))
      else if name = ''sticky'' then
        Option.bind
          (createBalancerByName (if psc_FallbackAlgo (px_Sticky cfg) = [] then ''round_robin'' else psc_FallbackAlgo (px_Sticky cfg)) cfg)
          (\<lambda>r. Some (case r of
              Inl e \<Rightarrow> Inl (StickyFallback e)
            | Inr f \<Rightarrow> Inr (LB_Sticky (Sticky_Start (NewStickySession (sticky_settings (psc_cookie (px_Sticky cfg))))) f)))
      else Some (Inl (UnsupportedAlgorithm name)))"

definition createBalancer :: "ProxyConfig \<Rightarrow> (balancer_error + lb) option" where
  "createBalancer cfg = createBalancerByName (px_LoadBalance cfg) cfg"

section \<open>Selection for a request\<close>

definition extractHashKey :: "request \<Rightarrow> string \<Rightarrow> string" where
  "extractHashKey r hashKey =
     (if hashKey = ''ip'' \<or> hashKey = [] then ExtractClientIP (ctx_of r)
      else if hashKey = ''uri'' then hr_RawURI r
      else if HasPrefix hashKey ''header:'' then
        (let v = hdr_Peek (hr_Headers r) (TrimPrefix hashKey ''header:'')
         in if v \<noteq> [] then v else ExtractClientIP (ctx_of r))
      else ExtractClientIP (ctx_of r))"

text \<open>The result is the target, the balancer, the shared state and the cookie a sticky session sets. The cookie of
  the request is the argument \<open>cookie\<close>, a function of its name.\<close>

fun selectByBalancer ::
  "draw \<Rightarrow> (string \<Rightarrow> string) \<Rightarrow> request \<Rightarrow> lb \<Rightarrow> lbstate \<Rightarrow> ptr list \<Rightarrow> ptr option \<times> lb \<times> lbstate \<times> cookie option" where
  "selectByBalancer d cookies r (LB_Sticky s f) st ts =
     (case Sticky_Select (\<lambda>f now st ts. lb_Select d f st ts) s f (d_now d) (cookies (sc_Name (ss_config s))) st ts of
        (p, s', f', st', ck) \<Rightarrow> (p, LB_Sticky s' f', st', ck))"
| "selectByBalancer d cookies r LB_IPHash st ts =
     (case SelectByIP (d_now d) st ts (ExtractClientIP (ctx_of r)) of (p, st') \<Rightarrow> (p, LB_IPHash, st', None))"
| "selectByBalancer d cookies r (LB_ConsistentHash c) st ts =
     (case SelectByKey c (heap st) ts (extractHashKey r (ch_hashKey c)) of
        (p, c', h) \<Rightarrow> (p, LB_ConsistentHash c', st\<lparr>heap := h\<rparr>, None))"
| "selectByBalancer d cookies r b st ts = (case lb_Select d b st ts of (p, b', st') \<Rightarrow> (p, b', st', None))"

fun selectByFallback :: "draw \<Rightarrow> request \<Rightarrow> lb \<Rightarrow> lbstate \<Rightarrow> ptr list \<Rightarrow> ptr option \<times> lb \<times> lbstate" where
  "selectByFallback d r LB_IPHash st ts =
     (case SelectByIP (d_now d) st ts (ExtractClientIP (ctx_of r)) of (p, st') \<Rightarrow> (p, LB_IPHash, st'))"
| "selectByFallback d r b st ts = lb_Select d b st ts"

definition selectTargetExcluding ::
  "draw \<Rightarrow> request \<Rightarrow> lb \<Rightarrow> lbstate \<Rightarrow> ptr list \<Rightarrow> ptr option list \<Rightarrow> (go_panic + ptr option) \<times> lb \<times> lbstate" where
  "selectTargetExcluding d r b st ts ex =
     (if ts = [] then (Inr None, b, st)
      else case b of
        LB_IPHash \<Rightarrow>
          (case SelectExcludingByIP (d_now d) st ts ex (ExtractClientIP (ctx_of r)) of (p, st') \<Rightarrow> (Inr p, LB_IPHash, st'))
      | LB_ConsistentHash c \<Rightarrow>
          (case SelectExcludingByKey c st ts ex (extractHashKey r (ch_hashKey c)) of (q, c', st') \<Rightarrow> (q, LB_ConsistentHash c', st'))
      | _ \<Rightarrow> lb_SelectExcluding d b st ts ex)"

text \<open>What the Lua script of \<open>balancer_by_lua\<close> does is the argument \<open>lua\<close>: an error, no choice, or a target it chose
  with \<open>set_current_peer\<close>.\<close>

datatype lua_choice = LuaError | LuaNone | LuaPeer ptr

definition selectTarget ::
  "BalancerByLuaConfig \<Rightarrow> bool \<Rightarrow> lua_choice \<Rightarrow> draw \<Rightarrow> (string \<Rightarrow> string) \<Rightarrow> request \<Rightarrow> lb \<Rightarrow> lb \<Rightarrow> lbstate \<Rightarrow> ptr list
    \<Rightarrow> ptr option \<times> lb \<times> lb \<times> lbstate \<times> cookie option" where
  "selectTarget lcfg engine lua d cookies r b fb st ts =
     (if ts = [] then (None, b, fb, st, None)
      else if bl_Enabled lcfg \<and> bl_Script lcfg \<noteq> [] \<and> engine then
        (case lua of
           LuaPeer p \<Rightarrow> (Some p, b, fb, st, None)
         | _ \<Rightarrow> (case selectByFallback d r fb st ts of (p, fb', st') \<Rightarrow> (p, b, fb', st', None)))
      else (case selectByBalancer d cookies r b st ts of (p, b', st', ck) \<Rightarrow> (p, b', fb, st', ck)))"

section \<open>Construction returns\<close>

text \<open>Whether building a balancer ends depends on the fallback of the sticky session alone.\<close>

lemma createBalancerByName_sticky_fallback:
  "createBalancerByName name cfg = Some r \<Longrightarrow> name = ''sticky'' \<longrightarrow> psc_FallbackAlgo (px_Sticky cfg) \<noteq> ''sticky''"
proof (rule createBalancerByName.raw_induct
    [where P = "\<lambda>n c r. n = ''sticky'' \<longrightarrow> psc_FallbackAlgo (px_Sticky c) \<noteq> ''sticky''"], goal_cases)
  case step: (1 f name cfg r)
  show ?case
  proof (intro impI notI)
    assume s: "name = ''sticky''" "psc_FallbackAlgo (px_Sticky cfg) = ''sticky''"
    obtain q where "f ''sticky'' cfg = Some q"
      using step(3) unfolding s(1) by (simp add: s(2) Option.bind_eq_Some_conv) blast
    then show False using step(2) s(2) by blast
  qed
qed

lemma createBalancerByName_diverges:
  "psc_FallbackAlgo (px_Sticky cfg) = ''sticky'' \<Longrightarrow> createBalancerByName ''sticky'' cfg = None"
  using createBalancerByName_sticky_fallback [of "''sticky''" cfg] by (cases "createBalancerByName ''sticky'' cfg") auto

lemma IsValidAlgorithm_iff:
  "IsValidAlgorithm name \<longleftrightarrow> name = [] \<or> name = ''round_robin'' \<or> name = ''weighted_round_robin'' \<or> name = ''least_conn''
     \<or> name = ''ip_hash'' \<or> name = ''consistent_hash'' \<or> name = ''random'' \<or> name = ''least_time'' \<or> name = ''sticky''"
  by (simp add: IsValidAlgorithm_def validAlgorithms_def)

lemma createBalancerByName_simple:
  assumes "IsValidAlgorithm name" "name \<noteq> ''sticky''"
  shows "\<exists>b. createBalancerByName name cfg = Some (Inr b)"
  using assms unfolding IsValidAlgorithm_iff by (elim disjE) (subst createBalancerByName.simps, simp)+

lemma createBalancerByName_unknown:
  assumes "\<not> IsValidAlgorithm name"
  shows "createBalancerByName name cfg = Some (Inl (UnsupportedAlgorithm name))"
  using assms unfolding IsValidAlgorithm_iff by (subst createBalancerByName.simps) simp

lemma createBalancerByName_sticky:
  "createBalancerByName ''sticky'' cfg =
     Option.bind
       (createBalancerByName (if psc_FallbackAlgo (px_Sticky cfg) = [] then ''round_robin'' else psc_FallbackAlgo (px_Sticky cfg)) cfg)
       (\<lambda>r. Some (case r of
           Inl e \<Rightarrow> Inl (StickyFallback e)
         | Inr f \<Rightarrow> Inr (LB_Sticky (Sticky_Start (NewStickySession (sticky_settings (psc_cookie (px_Sticky cfg))))) f)))"
  by (subst createBalancerByName.simps) simp

text \<open>C12. Building a balancer returns for every name and configuration, unless a sticky session is asked to fall back
  on a sticky session; then it never does. It returns a balancer exactly for the known algorithms, where
  a sticky session's fallback has to be a known one too, and otherwise an error.\<close>

theorem create_balancer_returns:
  "(createBalancerByName name cfg = None \<longleftrightarrow> name = ''sticky'' \<and> psc_FallbackAlgo (px_Sticky cfg) = ''sticky'')
   \<and> ((\<exists>b. createBalancerByName name cfg = Some (Inr b)) \<longleftrightarrow> IsValidAlgorithm name
        \<and> (name = ''sticky'' \<longrightarrow> IsValidAlgorithm (psc_FallbackAlgo (px_Sticky cfg)) \<and> psc_FallbackAlgo (px_Sticky cfg) \<noteq> ''sticky''))"
proof (cases "name = ''sticky''")
  case False
  then show ?thesis
    using createBalancerByName_simple [of name cfg] createBalancerByName_unknown [of name cfg] by (cases "IsValidAlgorithm name") auto
next
  case True
  let ?f = "psc_FallbackAlgo (px_Sticky cfg)"
  have s: "IsValidAlgorithm ''sticky''" "IsValidAlgorithm ''round_robin''" "IsValidAlgorithm []"
    by (simp_all add: IsValidAlgorithm_iff)
  show ?thesis
  proof (cases "?f = ''sticky''")
    case True2: True
    then show ?thesis using True createBalancerByName_diverges [OF True2] by simp
  next
    case F: False
    let ?g = "if ?f = [] then ''round_robin'' else ?f"
    have g: "?g \<noteq> ''sticky''" "IsValidAlgorithm ?g = IsValidAlgorithm ?f" using F s by auto
    show ?thesis
    proof (cases "IsValidAlgorithm ?f")
      case T: True
      then obtain b where "createBalancerByName ?g cfg = Some (Inr b)" using createBalancerByName_simple [of ?g cfg] g by auto
      then show ?thesis using True T F s by (simp add: createBalancerByName_sticky)
    next
      case N: False
      then have "createBalancerByName ?g cfg = Some (Inl (UnsupportedAlgorithm ?g))"
        using createBalancerByName_unknown [of ?g cfg] g by simp
      then show ?thesis using True N F by (simp add: createBalancerByName_sticky)
    qed
  qed
qed

theorem create_balancer_returns_witness:
  "createBalancerByName ''sticky'' zero_ProxyConfig \<noteq> None"
  using create_balancer_returns [of "''sticky''" zero_ProxyConfig] by (simp add: zero_ProxyConfig_def)

section \<open>What a selection changes\<close>

text \<open>No selection changes a target's URL or its connection count.\<close>

definition frame :: "heap \<Rightarrow> heap \<Rightarrow> bool" where
  "frame h h' \<longleftrightarrow> (\<forall>p. URL (h' p) = URL (h p) \<and> Connections (h' p) = Connections (h p))"

lemma frame_refl [simp]: "frame h h"
  by (simp add: frame_def)

lemma frame_trans: "frame h h' \<Longrightarrow> frame h' h'' \<Longrightarrow> frame h h''"
  by (simp add: frame_def)

lemma frame_probe [simp]: "frame h (probe_heap now ts h)"
  by (simp add: frame_def)

lemma frame_ensureRebuilt [simp]: "frame h (snd (ensureRebuilt c h ts))"
  by (simp add: frame_def ensureRebuilt_def rebuildCircle_spec hashed_heap_def ensure_hashes_def)

lemma frame_pinned: "frame h (snd (pinned_target now h url ts))"
proof (induction ts arbitrary: h)
  case (Cons p ps)
  have "frame h (h(p := probe now (h p)))" by (simp add: frame_def)
  from frame_trans [OF this Cons.IH] this show ?case using Cons.IH by (simp add: case_prod_beta del: fun_upd_apply)
qed simp

fun lb_ok :: "lb \<Rightarrow> bool" where
  "lb_ok (LB_ConsistentHash c) = ring_ok c"
| "lb_ok (LB_Sticky s f) = lb_ok f"
| "lb_ok _ = True"

definition sel_inv :: "lb \<times> lbstate \<Rightarrow> bool" where
  "sel_inv s \<longleftrightarrow> lb_ok (fst s) \<and> pool_clean (snd s)"

definition sel_step :: "lb \<times> lbstate \<Rightarrow> lb \<times> lbstate \<Rightarrow> bool" where
  "sel_step s s' \<longleftrightarrow> sel_inv s' \<and> frame (heap (snd s)) (heap (snd s'))"

lemma sel_stepI: "lb_ok b' \<Longrightarrow> pool_clean st' \<Longrightarrow> frame (heap st) (heap st') \<Longrightarrow> sel_step (b, st) (b', st')"
  by (simp add: sel_step_def sel_inv_def)

lemma sel_step_by_heap:
  assumes "pool_clean st'" and "heap st' = probe_heap now ts (heap st) \<or> heap st' = heap st" and "lb_ok b'"
  shows "sel_step (b, st) (b', st')"
  using assms by (intro sel_stepI) auto

lemma SelectByKey_keeps [simp]:
  "ring_ok c \<Longrightarrow> ring_ok (fst (snd (SelectByKey c h ts key)))" "frame h (snd (snd (SelectByKey c h ts key)))"
  by (simp_all add: SelectByKey_def Let_def case_prod_beta ring_ok_ensure)

text \<open>Every algorithm keeps the invariant and the frame, on the first selection.\<close>

lemma lb_Select_step: "sel_inv (b, st) \<Longrightarrow> lb_Select d b st ts = (p, b', st') \<Longrightarrow> sel_step (b, st) (b', st')"
proof (induction d b st ts arbitrary: p b' st' rule: lb_Select.induct)
  case (1 d r st ts)
  then show ?case using rr.select_heap [of st r "d_now d" ts] rr.select_pool [of st r "d_now d" ts]
    by (auto simp: sel_inv_def case_prod_beta intro!: sel_step_by_heap)
next
  case (2 d w st ts)
  then show ?case using wrr.select_heap [of st w "d_now d" ts] wrr.select_pool [of st w "d_now d" ts]
    by (auto simp: sel_inv_def case_prod_beta intro!: sel_step_by_heap)
next
  case (3 d st ts)
  then show ?case by (auto simp: LeastConnections_Select_def sel_inv_def intro!: sel_stepI)
next
  case (4 d st ts)
  then show ?case using iphash.select_heap [of st "d_now d" ts "[]"] iphash.select_pool [of st "d_now d" ts "[]"]
    by (auto simp: IPHash_Select_def sel_inv_def case_prod_beta intro!: sel_step_by_heap)
next
  case (5 d c st ts)
  then show ?case by (auto simp: CH_Select_def sel_inv_def pool_clean_def case_prod_beta intro!: sel_stepI)
next
  case (6 d st ts)
  then show ?case
    using random.select_heap [of st "(d_ri d, d_rj d)" "d_now d" ts] random.select_pool [of st "(d_ri d, d_rj d)" "d_now d" ts]
    by (auto simp: sel_inv_def case_prod_beta intro!: sel_step_by_heap)
next
  case (7 d l st ts)
  then show ?case using ltime.select_heap [of st l "d_now d" ts] ltime.select_pool [of st l "d_now d" ts]
    by (auto simp: sel_inv_def case_prod_beta intro!: sel_step_by_heap)
next
  case (8 d s f st ts)
  obtain q f1 st1 where f: "lb_Select d f st ts = (q, f1, st1)" by (cases "lb_Select d f st ts")
  then have "sel_step (f, st) (f1, st1)" using 8 by (simp add: sel_inv_def)
  then show ?case using 8(3) f by (auto simp: sel_step_def sel_inv_def)
qed

text \<open>The same for failover: every algorithm returns, keeps the invariant and the frame, and never picks a
  target with the URL of an excluded one.\<close>

definition excl_ok :: "lb \<times> lbstate \<Rightarrow> ptr option list \<Rightarrow> (go_panic + ptr option) \<times> lb \<times> lbstate \<Rightarrow> bool" where
  "excl_ok s es r \<longleftrightarrow> sel_step s (snd r)
     \<and> (\<exists>p. fst r = Inr p \<and> (\<forall>t. p = Some t \<longrightarrow> \<not> excluded_urls (heap (snd s)) es (URL (heap (snd s) t))))"

lemma excl_okI:
  assumes "pool_clean st'" "heap st' = probe_heap now ts (heap st)" "lb_ok b'"
    and "picks_from p (candidates now (heap st) (excluded_urls (heap st) es) ts)"
  shows "excl_ok (b, st) es (Inr p, b', st')"
  using assms sel_step_by_heap [of st' now ts st b' b] candidates_subset [of _ now "heap st" "excluded_urls (heap st) es" ts]
  by (auto simp: excl_ok_def picks_from_def)

lemma excluded_urls_frame: "frame h h' \<Longrightarrow> excluded_urls h' es u = excluded_urls h es u"
  by (simp add: excluded_urls_def frame_def)

lemma excl_ok_ring:
  assumes "sel_inv (LB_ConsistentHash c, st)"
  shows "excl_ok (LB_ConsistentHash c, st) es (case SelectExcludingByKey c st ts es key of (r, c', st') \<Rightarrow> (r, LB_ConsistentHash c', st'))"
proof -
  from assms have "pool_clean st" "ring_ok c" by (simp_all add: sel_inv_def)
  from SelectExcludingByKey_total [OF this, of ts es key] obtain r c' st' where
    s: "SelectExcludingByKey c st ts es key = (Inr r, c', st')" "pool_clean st'" "ring_ok c'"
      "heap st' = snd (ensureRebuilt c (heap st) ts)"
      and r: "\<And>p. r = Some p \<Longrightarrow> \<not> excluded_urls (heap st') es (URL (heap st' p))" by (force split: option.splits)
  have f: "frame (heap st) (heap st')" using s(4) by simp
  then have "\<not> excluded_urls (heap st) es (URL (heap st p))" if "r = Some p" for p
    using r [OF that] excluded_urls_frame [OF f] by (simp add: frame_def)
  then show ?thesis using s f by (auto simp: excl_ok_def intro: sel_stepI)
qed

lemma excl_ok_by_ip:
  "pool_clean st \<Longrightarrow> excl_ok (b, st) es (case SelectExcludingByIP now st ts es ip of (p, st') \<Rightarrow> (Inr p, LB_IPHash, st'))"
  using iphash.excluding_picks [of st now ts es ip] iphash.excluding_heap [of st now ts es ip] iphash.excluding_pool [of st now ts es ip]
  by (auto simp: case_prod_beta intro!: excl_okI)

lemma lb_SelectExcluding_ok: "sel_inv (b, st) \<Longrightarrow> excl_ok (b, st) es (lb_SelectExcluding d b st ts es)"
proof (induction d b st ts es rule: lb_SelectExcluding.induct)
  case (1 d r st ts ex)
  then show ?case using rr.excluding_picks [of st r "d_now d" ts ex] rr.excluding_heap [of st r "d_now d" ts ex]
      rr.excluding_pool [of st r "d_now d" ts ex]
    by (auto simp: sel_inv_def case_prod_beta intro!: excl_okI)
next
  case (2 d w st ts ex)
  then show ?case using wrr.excluding_picks [of st w "d_now d" ts ex] wrr.excluding_heap [of st w "d_now d" ts ex]
      wrr.excluding_pool [of st w "d_now d" ts ex]
    by (auto simp: sel_inv_def case_prod_beta intro!: excl_okI)
next
  case (3 d st ts ex)
  then show ?case using lc.excluding_picks [of st "d_now d" ts ex] lc.excluding_heap [of st "d_now d" ts ex]
      lc.excluding_pool [of st "d_now d" ts ex]
    by (auto simp: sel_inv_def case_prod_beta intro!: excl_okI)
next
  case (4 d st ts ex)
  then show ?case using excl_ok_by_ip [of st LB_IPHash ex "d_now d" ts "[]"] by (simp add: IPHash_SelectExcluding_def sel_inv_def)
next
  case (5 d c st ts ex)
  then show ?case by (simp add: CH_SelectExcluding_def excl_ok_ring)
next
  case (6 d st ts ex)
  let ?b = "(d_ri d, d_rj d)"
  show ?case using 6 random.excluding_picks [of st ?b "d_now d" ts ex] random.excluding_heap [of st ?b "d_now d" ts ex]
      random.excluding_pool [of st ?b "d_now d" ts ex]
    by (auto simp: sel_inv_def case_prod_beta intro!: excl_okI)
next
  case (7 d l st ts ex)
  then show ?case using ltime.excluding_picks [of st l "d_now d" ts ex] ltime.excluding_heap [of st l "d_now d" ts ex]
      ltime.excluding_pool [of st l "d_now d" ts ex]
    by (auto simp: sel_inv_def case_prod_beta intro!: excl_okI)
next
  case (8 d s f st ts ex)
  then have "excl_ok (f, st) ex (lb_SelectExcluding d f st ts ex)" by (simp add: sel_inv_def)
  then show ?case by (auto simp: excl_ok_def sel_step_def sel_inv_def case_prod_beta)
qed

section \<open>The selections of a request\<close>

text \<open>What the retry loop of the proxy relies on. The state of the selection is the balancer with the shared state;
  \<open>url\<close> reads a target's URL there.\<close>

locale failover_selector =
  fixes pick :: "'s \<Rightarrow> ptr option list \<Rightarrow> (go_panic + ptr option) \<times> 's"
    and url :: "'s \<Rightarrow> ptr \<Rightarrow> string"
    and inv :: "'s \<Rightarrow> bool"
  assumes pick_inv: "inv s \<Longrightarrow> inv (snd (pick s es))"
    and pick_total: "inv s \<Longrightarrow> \<exists>p. fst (pick s es) = Inr p"
    and pick_fresh: "inv s \<Longrightarrow> fst (pick s es) = Inr (Some p) \<Longrightarrow> Some q \<in> set es \<Longrightarrow> url s q \<noteq> url s p"
    and pick_url: "inv s \<Longrightarrow> url (snd (pick s es)) = url s"
begin

lemma pick_no_panic: "inv s \<Longrightarrow> fst (pick s es) \<noteq> Inl e"
  using pick_total [of s es] by auto

lemma pick_distinct:
  assumes "inv s" "fst (pick s (map Some ps)) = Inr (Some p)" "distinct (map (url s) ps)"
  shows "distinct (map (url (snd (pick s (map Some ps)))) (ps @ [p]))"
proof -
  have "\<forall>q \<in> set ps. url s q \<noteq> url s p" using pick_fresh [OF assms(1,2)] by simp
  then show ?thesis using assms(1,3) by (auto simp: pick_url)
qed

end

definition target_url :: "lb \<times> lbstate \<Rightarrow> ptr \<Rightarrow> string" where
  "target_url s p = URL (heap (snd s) p)"

lemma selectTargetExcluding_ok:
  assumes "sel_inv (b, st)"
  shows "excl_ok (b, st) es (selectTargetExcluding d r b st ts es)"
proof (cases "ts = []")
  case True
  then show ?thesis using assms by (simp add: selectTargetExcluding_def excl_ok_def sel_step_def)
next
  case ts: False
  have ip: ?thesis if "b = LB_IPHash"
    using ts assms that excl_ok_by_ip [of st LB_IPHash es "d_now d" ts "ExtractClientIP (ctx_of r)"]
    by (simp add: selectTargetExcluding_def sel_inv_def)
  have ring: ?thesis if "b = LB_ConsistentHash c" for c
    using ts assms that by (simp add: selectTargetExcluding_def excl_ok_ring)
  have rest: ?thesis if "selectTargetExcluding d r b st ts es = lb_SelectExcluding d b st ts es"
    using lb_SelectExcluding_ok [OF assms] that by simp
  show ?thesis using ip ring rest ts by (cases b) (auto simp: selectTargetExcluding_def)
qed

interpretation failover: failover_selector "\<lambda>s. selectTargetExcluding d r (fst s) (snd s) ts" target_url sel_inv for d r ts
proof
  fix s es
  assume inv: "sel_inv s"
  let ?c = "selectTargetExcluding d r (fst s) (snd s) ts es"
  have ok: "excl_ok s es ?c" using selectTargetExcluding_ok [of "fst s" "snd s"] inv by simp
  show "sel_inv (snd ?c)" using ok by (simp add: excl_ok_def sel_step_def)
  show "\<exists>p. fst ?c = Inr p" using ok by (auto simp: excl_ok_def)
  show "target_url (snd ?c) = target_url s" using ok by (auto simp: excl_ok_def sel_step_def frame_def target_url_def)
  fix p q
  assume "fst ?c = Inr (Some p)" "Some q \<in> set es"
  then show "target_url s q \<noteq> target_url s p" using ok by (auto simp: excl_ok_def excluded_urls_def target_url_def)
qed

text \<open>The first selection: through the Lua script, its fallback or the configured balancer.\<close>

lemma selectByFallback_step:
  assumes "sel_inv (b, st)" "selectByFallback d r b st ts = (p, b', st')"
  shows "sel_step (b, st) (b', st')"
proof (cases "b = LB_IPHash")
  case True
  then show ?thesis
    using assms iphash.select_heap [of st "d_now d" ts "ExtractClientIP (ctx_of r)"]
      iphash.select_pool [of st "d_now d" ts "ExtractClientIP (ctx_of r)"]
    by (auto simp: sel_inv_def case_prod_beta intro!: sel_step_by_heap)
next
  case False
  then have "selectByFallback d r b st ts = lb_Select d b st ts" by (cases b) simp_all
  then have "lb_Select d b st ts = (p, b', st')" using assms(2) by simp
  then show ?thesis by (rule lb_Select_step [OF assms(1)])
qed

lemma Sticky_Select_step:
  assumes "sel_inv (f, st)" "Sticky_Select (\<lambda>f now st ts. lb_Select d f st ts) s f now ck st ts = (p, s', f', st', c)"
  shows "sel_step (f, st) (f', st')"
proof -
  let ?h = "snd (pinned_target now (heap st) (fst (the (decodeStickyCookie ck))) ts)"
  have fall: "sel_step (f, st) (b1, st1)" if "lb_Select d f st ts = (q, b1, st1)" for q b1 st1
    using lb_Select_step [OF assms(1) that] .
  have pin: "sel_step (f, st) (f, st\<lparr>heap := ?h\<rparr>)"
    using assms(1) frame_pinned [of "heap st"] by (auto simp: sel_inv_def pool_clean_def intro!: sel_stepI)
  then have "sel_inv (f, st\<lparr>heap := ?h\<rparr>)" by (simp add: sel_step_def)
  from lb_Select_step [OF this]
  have again: "sel_step (f, st) (b1, st1)" if "lb_Select d f (st\<lparr>heap := ?h\<rparr>) ts = (q, b1, st1)" for q b1 st1
    using that pin frame_trans by (fastforce simp: sel_step_def)
  show ?thesis
    using assms(2) fall pin again
    by (auto simp: Sticky_Select_def Let_def split: if_splits option.splits prod.splits)
qed

lemma selectByBalancer_step:
  assumes "sel_inv (b, st)" "selectByBalancer d cookies r b st ts = (p, b', st', ck)"
  shows "sel_step (b, st) (b', st')"
proof (cases b)
  case (LB_Sticky s f)
  with assms obtain s' f' where "Sticky_Select (\<lambda>f now st ts. lb_Select d f st ts) s f (d_now d) (cookies (sc_Name (ss_config s))) st ts = (p, s', f', st', ck)"
      "b' = LB_Sticky s' f'"
    by (auto split: prod.splits)
  with Sticky_Select_step [OF _ this(1)] assms(1) LB_Sticky show ?thesis by (simp add: sel_step_def sel_inv_def)
next
  case LB_IPHash
  then show ?thesis using assms selectByFallback_step [of b st d r ts p b' st'] by (auto split: prod.splits)
next
  case (LB_ConsistentHash c)
  then show ?thesis using assms by (auto simp: sel_inv_def pool_clean_def case_prod_beta intro!: sel_stepI)
qed (use assms lb_Select_step [of b st d ts p b' st'] in \<open>auto split: prod.splits\<close>)

lemma selectTarget_step:
  assumes "sel_inv (b, st)" "sel_inv (fb, st)"
    and "selectTarget lcfg eng lua d cookies r b fb st ts = (p, b', fb', st', ck)"
  shows "sel_step (b, st) (b', st') \<and> sel_inv (fb', st')"
proof -
  have same: "sel_step (b, st) (b, st)" using assms(1) by (simp add: sel_step_def)
  have fall: "sel_step (b, st) (b, st1) \<and> sel_inv (f1, st1)" if "selectByFallback d r fb st ts = (q, f1, st1)" for q f1 st1
    using selectByFallback_step [OF assms(2) that] assms(1) by (simp add: sel_step_def sel_inv_def)
  have bal: "sel_step (b, st) (b1, st1) \<and> sel_inv (fb, st1)" if "selectByBalancer d cookies r b st ts = (q, b1, st1, c)" for q b1 st1 c
    using selectByBalancer_step [OF assms(1) that] assms(2) by (simp add: sel_step_def sel_inv_def)
  show ?thesis
    using assms(3) same fall bal assms(2)
    by (auto simp: selectTarget_def split: if_splits lua_choice.splits prod.splits)
qed

end
