(* ===== verification/Redirect.thy ===== *)
theory Redirect
  imports HttpMsg Config
begin

text \<open>
  \<^verbatim>\<open>internal/proxy/redirect_rewrite.go\<close> and \<^verbatim>\<open>internal/proxy/header_modifier.go\<close>: the \<open>Location\<close> and
  \<open>Refresh\<close> headers an upstream sends are rewritten to the address the client used, and request and response headers
  are set, filtered and removed as configured. The expansion of a template is an argument \<open>expand\<close>,
  the composition of \<open>variable.NewContext\<close> and \<open>Expand\<close> of \<^theory_text>\<open>Variable\<close>; the
  \<open>regexp\<close> package is the parameter of \<^theory_text>\<open>GoStrings\<close>, with the additional argument \<open>re_index\<close> for
  \<open>FindStringIndex\<close>. Go iterates over a map in an unspecified order: the list of
  configured headers is in the order of one iteration.
\<close>

section \<open>The redirect rewriter\<close>

record compiledRule =
  cr_pattern :: "string option"
  cr_replacement :: string
  cr_exactMatch :: string
  cr_caseInsensitive :: bool

record RedirectRewriter =
  rw_proxyPath :: string
  rw_mode :: string
  rw_rules :: "compiledRule list"

fun compile_rules :: "rx \<Rightarrow> RedirectRewriteRule list \<Rightarrow> compiledRule list option" where
  "compile_rules x [] = Some []"
| "compile_rules x (rule # rest) =
     (let pat = rrr_Pattern rule;
          cr = \<lparr>cr_pattern = None, cr_replacement = rrr_Replacement rule, cr_exactMatch = [], cr_caseInsensitive = False\<rparr>;
          one = (if HasPrefix pat ''~'' then
                   (let ci = HasPrefix pat ''~*''; patternStr = (if ci then drop 2 pat else drop 1 pat)
                    in if re_compile x patternStr then Some (cr\<lparr>cr_pattern := Some patternStr, cr_caseInsensitive := ci\<rparr>) else None)
                 else Some (cr\<lparr>cr_exactMatch := pat\<rparr>))
      in case (one, compile_rules x rest) of
           (Some c, Some cs) \<Rightarrow> Some (c # cs)
         | _ \<Rightarrow> None)"

definition NewRedirectRewriter :: "rx \<Rightarrow> RedirectRewriteConfig option \<Rightarrow> string \<Rightarrow> RedirectRewriter option" where
  "NewRedirectRewriter x cfg0 proxyPath =
     (case cfg0 of
        None \<Rightarrow> Some \<lparr>rw_proxyPath = proxyPath, rw_mode = ''default'', rw_rules = []\<rparr>
      | Some cfg \<Rightarrow>
          if rrc_Mode cfg = ''custom'' then
            (case compile_rules x (rrc_Rules cfg) of
               None \<Rightarrow> None
             | Some rules \<Rightarrow> Some \<lparr>rw_proxyPath = proxyPath, rw_mode = rrc_Mode cfg, rw_rules = rules\<rparr>)
          else Some \<lparr>rw_proxyPath = proxyPath, rw_mode = rrc_Mode cfg, rw_rules = []\<rparr>)"

definition Rewriter_Mode :: "RedirectRewriter \<Rightarrow> string" where
  "Rewriter_Mode r = (if rw_mode r = [] then ''default'' else rw_mode r)"

definition rewriteDefault :: "string \<Rightarrow> bool \<Rightarrow> string \<Rightarrow> string \<Rightarrow> string" where
  "rewriteDefault headerValue isTLS targetURL originalClientHost =
     (if targetURL = [] then headerValue
      else if HasPrefix headerValue targetURL then
        (let remaining = drop (length targetURL) headerValue
         in if remaining = [] \<or> hd remaining \<in> {CHR ''/'', CHR ''?'', CHR ''#''}
            then (if isTLS then ''https'' else ''http'') @ ''://'' @ originalClientHost @ remaining
            else headerValue)
      else headerValue)"

type_synonym re_index = "string \<Rightarrow> string \<Rightarrow> (nat \<times> nat) option"

fun rewriteCustom :: "re_index \<Rightarrow> (string \<Rightarrow> string) \<Rightarrow> compiledRule list \<Rightarrow> string \<Rightarrow> string" where
  "rewriteCustom ix expand [] headerValue = headerValue"
| "rewriteCustom ix expand (rule # rules) headerValue =
     (case cr_pattern rule of
        Some pat \<Rightarrow>
          (case ix pat (if cr_caseInsensitive rule then ToLower headerValue else headerValue) of
             Some (a, b) \<Rightarrow> take a headerValue @ expand (cr_replacement rule) @ drop b headerValue
           | None \<Rightarrow> rewriteCustom ix expand rules headerValue)
      | None \<Rightarrow>
          if cr_exactMatch rule \<noteq> [] \<and> HasPrefix headerValue (cr_exactMatch rule)
          then expand (cr_replacement rule) @ TrimPrefix headerValue (cr_exactMatch rule)
          else rewriteCustom ix expand rules headerValue)"

definition rewriteURL :: "re_index \<Rightarrow> (string \<Rightarrow> string) \<Rightarrow> RedirectRewriter \<Rightarrow> bool \<Rightarrow> string \<Rightarrow> string \<Rightarrow> string \<Rightarrow> string" where
  "rewriteURL ix expand r isTLS headerValue targetURL originalClientHost =
     (if headerValue = [] then []
      else if Rewriter_Mode r = ''off'' then headerValue
      else if Rewriter_Mode r = ''custom'' then rewriteCustom ix expand (rw_rules r) headerValue
      else if Rewriter_Mode r = ''default'' then rewriteDefault headerValue isTLS targetURL originalClientHost
      else headerValue)"

definition unquote :: "string \<Rightarrow> string" where
  "unquote url =
     (if length url \<ge> 2 \<and> (hd url = CHR 0x22 \<and> last url = CHR 0x22 \<or> hd url = CHR 0x27 \<and> last url = CHR 0x27)
      then butlast (tl url) else url)"

definition parseRefreshHeader :: "string \<Rightarrow> string \<times> string \<times> bool" where
  "parseRefreshHeader value0 =
     (let value = TrimSpace value0
      in if value = [] then ([], [], False)
         else case StrIndex (ToLower value) ''url='' of
                None \<Rightarrow> (value, [], True)
              | Some urlIdx \<Rightarrow>
                  let delay = TrimSpace (TrimSuffix (TrimSpace (take urlIdx value)) '';'')
                  in if delay = [] then ([], [], False)
                     else let url = TrimSpace (drop (urlIdx + 4) value)
                          in if url = [] then (delay, [], True) else (delay, unquote url, True))"

definition rewriteRefresh :: "re_index \<Rightarrow> (string \<Rightarrow> string) \<Rightarrow> RedirectRewriter \<Rightarrow> bool \<Rightarrow> string \<Rightarrow> string \<Rightarrow> string \<Rightarrow> string" where
  "rewriteRefresh ix expand r isTLS value targetURL originalClientHost =
     (case parseRefreshHeader value of
        (delay, url, valid) \<Rightarrow>
          if \<not> valid \<or> url = [] then value
          else let rewrittenURL = rewriteURL ix expand r isTLS url targetURL originalClientHost
               in if rewrittenURL = url then value else delay @ ''; url='' @ rewrittenURL)"

definition RewriteRefreshOnly :: "re_index \<Rightarrow> (string \<Rightarrow> string) \<Rightarrow> RedirectRewriter \<Rightarrow> bool \<Rightarrow> string \<Rightarrow> string \<Rightarrow> response \<Rightarrow> response" where
  "RewriteRefreshOnly ix expand r isTLS targetURL originalClientHost resp =
     (let refresh = hdr_Peek (rs_Headers resp) ''Refresh''
      in if refresh = [] then resp
         else let rewritten = rewriteRefresh ix expand r isTLS refresh targetURL originalClientHost
              in if rewritten = [] then resp else resp\<lparr>rs_Headers := hdr_Set ''Refresh'' rewritten (rs_Headers resp)\<rparr>)"

definition RewriteResponse :: "re_index \<Rightarrow> (string \<Rightarrow> string) \<Rightarrow> RedirectRewriter \<Rightarrow> bool \<Rightarrow> string \<Rightarrow> string \<Rightarrow> response \<Rightarrow> response" where
  "RewriteResponse ix expand r isTLS targetURL originalClientHost resp =
     (let location = hdr_Peek (rs_Headers resp) ''Location'';
          resp1 = (if rs_Status resp \<ge> 300 \<and> rs_Status resp < 400 \<and> location \<noteq> [] then
                     (let rewritten = rewriteURL ix expand r isTLS location targetURL originalClientHost
                      in if rewritten = [] then resp
                         else resp\<lparr>rs_Headers := hdr_Set ''Location'' rewritten (rs_Headers resp)\<rparr>)
                   else resp)
      in RewriteRefreshOnly ix expand r isTLS targetURL originalClientHost resp1)"

section \<open>Request and response headers\<close>

definition containsCRLF :: "string \<Rightarrow> bool" where
  "containsCRLF s \<longleftrightarrow> CHR 0x0D \<in> set s \<or> CHR 0x0A \<in> set s"

fun set_expanded :: "(string \<Rightarrow> string) \<Rightarrow> (string \<times> string) list \<Rightarrow> headers \<Rightarrow> headers" where
  "set_expanded expand [] hs = hs"
| "set_expanded expand ((key, value) # kvs) hs =
     set_expanded expand kvs (if containsCRLF (expand value) then hs else hdr_Set key (expand value) hs)"

definition modifyRequestHeaders :: "(string \<Rightarrow> string) \<Rightarrow> ProxyHeaders \<Rightarrow> string \<Rightarrow> request \<Rightarrow> request" where
  "modifyRequestHeaders expand cfg url r =
     (let targetHost = fst (ParseTargetURL url False);
          h = (if targetHost \<noteq> [] then hdr_Set ''Host'' targetHost (hr_Headers r) else hr_Headers r);
          r = r\<lparr>hr_Headers := h\<rparr>;
          fh = ExtractForwardedHeaders r;
          setHost = (case ph_SetForwardedHost cfg of Some b \<Rightarrow> b | None \<Rightarrow> True);
          setProto = (case ph_SetForwardedProto cfg of Some b \<Rightarrow> b | None \<Rightarrow> True);
          h = SetForwardedHeaders fh True setHost setProto (hr_Headers r);
          h = SetRequestIDHeader r h;
          h = set_expanded expand (ph_SetRequest cfg) h;
          h = foldl (\<lambda>h key. hdr_Del key h) h (ph_Remove cfg)
      in r\<lparr>hr_Headers := h\<rparr>)"

definition isInWhitelist :: "string \<Rightarrow> string list \<Rightarrow> bool" where
  "isInWhitelist key whitelist \<longleftrightarrow> (\<exists>w \<in> set whitelist. EqualFold key w)"

definition rewriteCookieAttr :: "string \<Rightarrow> string \<Rightarrow> string \<Rightarrow> string" where
  "rewriteCookieAttr cookie attr newValue =
     (let pre = attr @ ''=''
      in case StrIndex (ToLower cookie) (ToLower pre) of
           None \<Rightarrow> cookie
         | Some idx \<Rightarrow>
             let start = idx + length pre
             in take start cookie @ newValue @ dropWhile (\<lambda>c. c \<noteq> CHR '';'' \<and> c \<noteq> CHR '' '') (drop start cookie))"

definition rewriteCookies :: "ProxyHeaders \<Rightarrow> headers \<Rightarrow> headers" where
  "rewriteCookies cfg hs =
     (if ph_CookieDomain cfg = [] \<and> ph_CookiePath cfg = [] then hs
      else
        let cookies = map (\<lambda>(_, c).
              let c = (if ph_CookieDomain cfg \<noteq> [] then rewriteCookieAttr c ''Domain'' (ph_CookieDomain cfg) else c)
              in if ph_CookiePath cfg \<noteq> [] then rewriteCookieAttr c ''Path'' (ph_CookiePath cfg) else c)
              (filter (\<lambda>(k, _). EqualFold k ''Set-Cookie'') hs)
        in if cookies = [] then hs
           else foldl (\<lambda>h c. hdr_Add ''Set-Cookie'' c h) (hdr_Del ''Set-Cookie'' hs) cookies)"

text \<open>The white list, \<open>hide_response\<close> and \<open>ignore_headers\<close>: the response headers that are left.\<close>

definition filter_response :: "ProxyHeaders \<Rightarrow> headers \<Rightarrow> headers" where
  "filter_response cfg h =
     (let pass = ph_PassResponse cfg;
          h = (if pass \<noteq> [] then
                 foldl (\<lambda>h k. hdr_Del k h) h (filter (\<lambda>k. \<not> isInWhitelist k pass) (map fst h))
               else h);
          h = foldl (\<lambda>h key. if key \<in> set pass then h else hdr_Del key h) h (ph_HideResponse cfg)
      in foldl (\<lambda>h key. if key \<in> set pass then h else hdr_Del key h) h (ph_IgnoreHeaders cfg))"

definition modifyResponseHeaders :: "(string \<Rightarrow> string) \<Rightarrow> ProxyHeaders \<Rightarrow> request \<Rightarrow> response \<Rightarrow> request \<times> response" where
  "modifyResponseHeaders expand cfg r resp =
     (let h = filter_response cfg (rs_Headers resp);
          rh = foldl (\<lambda>h key. hdr_Del key h) (hr_Headers r) (ph_IgnoreHeaders cfg);
          h = (if ph_CookieDomain cfg \<noteq> [] \<or> ph_CookiePath cfg \<noteq> [] then rewriteCookies cfg h else h);
          h = set_expanded expand (ph_SetResponse cfg) h
      in (r\<lparr>hr_Headers := rh\<rparr>, resp\<lparr>rs_Headers := h\<rparr>))"

section \<open>Redirects go to the address the client used\<close>

lemma HasPrefix_drop: "HasPrefix v u \<Longrightarrow> v = u @ drop (length u) v"
  by (metis HasPrefix_def append_take_drop_id)

text \<open>C26. Redirects do not leak the upstream. In the default mode a \<open>Location\<close> that is the upstream's URL, alone or
  followed by a path, a query or a fragment, comes back as the same place under the scheme and host the client used;
  every other value, a longer host name that starts with the upstream's included, is
  left as it is.\<close>

theorem redirect_default:
  assumes "Rewriter_Mode r = ''default''" and "u \<noteq> []" and "location \<noteq> []"
    and "300 \<le> rs_Status resp" and "rs_Status resp < 400" and "hdr_Peek (rs_Headers resp) ''Location'' = location"
  shows "hdr_Peek (rs_Headers (RewriteResponse ix expand r tls u client resp)) ''Location'' =
    (if \<exists>rest. location = u @ rest \<and> (rest = [] \<or> hd rest \<in> {CHR ''/'', CHR ''?'', CHR ''#''})
     then (if tls then ''https://'' else ''http://'') @ client @ drop (length u) location
     else location)"
proof -
  have ne: "rewriteURL ix expand r tls location u client \<noteq> []"
    using assms(1,3) by (auto simp: rewriteURL_def rewriteDefault_def Let_def)
  have "\<not> EqualFold ''Refresh'' ''Location''" by code_simp
  then have keep: "hdr_Peek (rs_Headers (RewriteRefreshOnly ix expand r tls u client q)) ''Location''
      = hdr_Peek (rs_Headers q) ''Location''" for q
    by (simp add: RewriteRefreshOnly_def Let_def)
  have pre: "(\<exists>rest. location = u @ rest \<and> (rest = [] \<or> hd rest \<in> {CHR ''/'', CHR ''?'', CHR ''#''}))
      \<longleftrightarrow> HasPrefix location u \<and> (drop (length u) location = [] \<or> hd (drop (length u) location) \<in> {CHR ''/'', CHR ''?'', CHR ''#''})"
    using HasPrefix_drop [of location u] by (auto simp: HasPrefix_def)
  have "hdr_Peek (rs_Headers (RewriteResponse ix expand r tls u client resp)) ''Location''
      = rewriteURL ix expand r tls location u client"
    using assms(3-6) ne by (simp add: RewriteResponse_def keep)
  also have "\<dots> = rewriteDefault location tls u client"
    using assms(1,3) by (simp add: rewriteURL_def)
  finally show ?thesis using assms(2) unfolding pre by (auto simp: rewriteDefault_def Let_def)
qed

definition demo_redirect :: response where
  "demo_redirect = \<lparr>rs_Status = 302, rs_Headers = [(''location'', ''http://up:80/login?x'')], rs_Body = []\<rparr>"

theorem redirect_default_witness:
  "hdr_Peek (rs_Headers (RewriteResponse (\<lambda>_ _. None) (\<lambda>t. t) \<lparr>rw_proxyPath = ''/'', rw_mode = [], rw_rules = []\<rparr> True
     ''http://up:80'' ''example.org'' demo_redirect)) ''Location'' = ''https://example.org/login?x''
   \<and> hdr_Peek (rs_Headers (RewriteResponse (\<lambda>_ _. None) (\<lambda>t. t) \<lparr>rw_proxyPath = ''/'', rw_mode = [], rw_rules = []\<rparr> True
     ''http://up:8'' ''example.org'' demo_redirect)) ''Location'' = ''http://up:80/login?x''"
proof -
  let ?r = "\<lparr>rw_proxyPath = ''/'', rw_mode = [], rw_rules = []\<rparr>"
  have m: "Rewriter_Mode ?r = ''default''" by (simp add: Rewriter_Mode_def)
  have h: "300 \<le> rs_Status demo_redirect" "rs_Status demo_redirect < 400"
    by (simp_all add: demo_redirect_def)
  have l: "hdr_Peek (rs_Headers demo_redirect) ''Location'' = ''http://up:80/login?x''" by code_simp
  have a: "\<exists>rest. ''http://up:80/login?x'' = ''http://up:80'' @ rest \<and> (rest = [] \<or> hd rest \<in> {CHR ''/'', CHR ''?'', CHR ''#''})"
    by (rule exI [of _ "''/login?x''"]) simp
  have b: "\<not> (\<exists>rest. ''http://up:80/login?x'' = ''http://up:8'' @ rest \<and> (rest = [] \<or> hd rest \<in> {CHR ''/'', CHR ''?'', CHR ''#''}))"
    by simp
  show ?thesis
    using redirect_default [OF m _ _ h l, of "''http://up:80''" "\<lambda>_ _. None" "\<lambda>t. t" True "''example.org''"]
      redirect_default [OF m _ _ h l, of "''http://up:8''" "\<lambda>_ _. None" "\<lambda>t. t" True "''example.org''"] a b by simp
qed

section \<open>Filtered and injected headers\<close>

definition clean_headers :: "headers \<Rightarrow> bool" where
  "clean_headers hs \<longleftrightarrow> (\<forall>(k, v) \<in> set hs. \<not> containsCRLF v)"

lemma clean_Set: "clean_headers hs \<Longrightarrow> \<not> containsCRLF v \<Longrightarrow> clean_headers (hdr_Set k v hs)"
  by (induction k v hs rule: hdr_Set.induct) (auto simp: clean_headers_def)

lemma clean_Del: "clean_headers hs \<Longrightarrow> clean_headers (hdr_Del k hs)"
  by (auto simp: clean_headers_def hdr_Del_def)

lemma clean_foldl_Del: "clean_headers hs \<Longrightarrow> clean_headers (foldl (\<lambda>h k. hdr_Del k h) hs ks)"
  by (induction ks arbitrary: hs) (simp_all add: clean_Del)

lemma clean_set_expanded: "clean_headers hs \<Longrightarrow> clean_headers (set_expanded expand kvs hs)"
  by (induction expand kvs hs rule: set_expanded.induct) (simp_all add: clean_Set)

lemma clean_Peek: "clean_headers hs \<Longrightarrow> \<not> containsCRLF (hdr_Peek hs n)"
  by (induction hs n rule: hdr_Peek.induct) (auto simp: clean_headers_def containsCRLF_def)

lemma clean_simps [simp]:
  "\<not> containsCRLF []" "containsCRLF (c # a) \<longleftrightarrow> c = CHR 0x0D \<or> c = CHR 0x0A \<or> containsCRLF a"
  "containsCRLF (a @ b) \<longleftrightarrow> containsCRLF a \<or> containsCRLF b"
  by (auto simp: containsCRLF_def)

lemma clean_subset: "\<not> containsCRLF b \<Longrightarrow> set a \<subseteq> set b \<Longrightarrow> \<not> containsCRLF a"
  by (auto simp: containsCRLF_def)

lemma clean_forwarded:
  assumes "clean_headers hs" "\<not> containsCRLF (fh_ClientIP fh)" "\<not> containsCRLF (fh_Host fh)" "\<not> containsCRLF (fh_Proto fh)"
  shows "clean_headers (SetForwardedHeaders fh b1 b2 b3 hs)"
proof -
  have x: "\<not> EqualFold ''X-Real-IP'' ''X-Forwarded-For''" by code_simp
  show ?thesis
    using assms x clean_Peek [OF assms(1)] unfolding SetForwardedHeaders_def Let_def
    by (simp add: clean_Set)
qed

text \<open>Printed addresses consist of digits, letters and separators.\<close>

lemma hex_digit_clean: "d < 16 \<Longrightarrow> hex_digit d \<noteq> CHR 0x0D \<and> hex_digit d \<noteq> CHR 0x0A"
proof -
  assume "d < 16"
  then have "d \<in> set [0..<16]" by simp
  moreover have "\<forall>d \<in> set [0..<16]. hex_digit d \<noteq> CHR 0x0D \<and> hex_digit d \<noteq> CHR 0x0A" by code_simp
  ultimately show ?thesis by blast
qed

lemma hex_digits_clean: "\<forall>d \<in> set ds. d < 16 \<Longrightarrow> \<not> containsCRLF (map hex_digit ds)"
  by (induction ds) (simp_all add: hex_digit_clean)

lemma hextet_clean: "\<not> containsCRLF (show_hextet n)"
proof -
  let ?ds = "[n div 4096 mod 16, n div 256 mod 16, n div 16 mod 16]"
  have "\<forall>d \<in> set (dropWhile (\<lambda>d. d = 0) ?ds). d < 16"
  proof
    fix d assume "d \<in> set (dropWhile (\<lambda>d. d = 0) ?ds)"
    then have "d \<in> set ?ds" by (rule set_dropWhileD)
    then show "d < 16" by auto
  qed
  then show ?thesis
    unfolding show_hextet_def Let_def by (simp only: clean_simps hex_digits_clean hex_digit_clean [of "n mod 16"]) simp
qed

lemma join_groups_clean: "\<not> containsCRLF (join_groups gs)"
proof -
  have "\<not> containsCRLF (concat (map (\<lambda>(i, g). (if i = 0 then [] else '':'') @ show_hextet g) (enumerate k gs)))" for k
    by (induction gs arbitrary: k) (simp_all add: hextet_clean)
  then show ?thesis by (simp add: join_groups_def)
qed

lemma show_nat_clean: "\<not> containsCRLF (show_nat n)"
  using show_nat_chars [of "CHR 0x0D" n] show_nat_chars [of "CHR 0x0A" n] by (auto simp: containsCRLF_def is_digit_def)

lemma writeUint8_clean: "v < 256 \<Longrightarrow> \<not> containsCRLF (writeUint8 v)"
  by (simp add: writeUint8_show show_nat_clean)

lemma IP_String_clean: "\<not> containsCRLF (IP_String ip)"
  by (cases ip)
    (auto simp: IP_String_def formatIPv4_def formatIPv6_def writeUint8_clean octet_less join_groups_clean Let_def
      split: prod.split)

lemma Split_parts_subset: "p \<in> set (Split s c) \<Longrightarrow> set p \<subseteq> set s"
proof (induction s arbitrary: p)
  case (Cons a s)
  obtain q qs where q: "Split s c = q # qs" using Split_nonempty [of s c] by (cases "Split s c") auto
  have "set q \<subseteq> set s" "\<And>p. p \<in> set qs \<Longrightarrow> set p \<subseteq> set s" using Cons.IH by (simp_all add: q)
  then show ?case using Cons.prems by (auto simp: q split: if_splits)
qed simp

lemma client_ip_clean:
  assumes "clean_headers (hr_Headers r)" and "\<forall>s. hr_Remote r = Some (OtherAddr s) \<longrightarrow> \<not> containsCRLF s"
  shows "\<not> containsCRLF (ExtractClientIP (ctx_of r))"
proof -
  let ?x = "hdr_Peek (hr_Headers r) ''X-Forwarded-For''"
  have "set (TrimSpace (Split ?x (CHR '','') ! 0)) \<subseteq> set (Split ?x (CHR '','') ! 0)"
    by (rule set_TrimSpace)
  also have "\<dots> \<subseteq> set ?x" by (rule Split_parts_subset [where c = "CHR '',''"]) (simp add: nth_mem)
  finally have "\<not> containsCRLF (TrimSpace (Split ?x (CHR '','') ! 0))"
    by (rule clean_subset [OF clean_Peek [OF assms(1)]])
  then show ?thesis
    using assms(2) clean_Peek [OF assms(1)] IP_String_clean
    by (auto simp: ExtractClientIP_def ctx_of_def split: option.split remote_addr.split)
qed

lemma target_host_subset: "set (fst (ParseTargetURL url False)) \<subseteq> set url"
  by (auto simp: ParseTargetURL_def Let_def split: option.splits if_splits dest: in_set_takeD in_set_dropD)

text \<open>C19. No header injection. If a request was parsed and a target configured without line breaks, then whatever the
  configured header values expand to, no header of the request that goes to the upstream contains a
  carriage return or a line feed.\<close>

theorem request_headers_no_injection:
  assumes "clean_headers (hr_Headers r)" and "\<not> containsCRLF url" and "\<not> containsCRLF (hr_Host r)"
    and "\<forall>s. hr_Remote r = Some (OtherAddr s) \<longrightarrow> \<not> containsCRLF s"
    and "\<forall>s. user_string (hr_User r ''request_id'') = Some s \<longrightarrow> \<not> containsCRLF s"
  shows "clean_headers (hr_Headers (modifyRequestHeaders expand cfg url r))"
proof -
  let ?host = "fst (ParseTargetURL url False)"
  define h0 where "h0 = (if ?host \<noteq> [] then hdr_Set ''Host'' ?host (hr_Headers r) else hr_Headers r)"
  let ?r = "r\<lparr>hr_Headers := h0\<rparr>"
  have h0: "clean_headers h0"
    using assms(1) clean_subset [OF assms(2) target_host_subset] by (simp add: h0_def clean_Set)
  have "\<not> containsCRLF (ExtractClientIP (ctx_of ?r))" using client_ip_clean [of ?r] h0 assms(4) by simp
  then have "clean_headers (SetForwardedHeaders (ExtractForwardedHeaders ?r) True b c h0)" for b c
    using h0 assms(3) by (intro clean_forwarded) (simp_all add: ExtractForwardedHeaders_def)
  then have "clean_headers (SetRequestIDHeader ?r (SetForwardedHeaders (ExtractForwardedHeaders ?r) True b c h0))" for b c
    using assms(5) by (auto simp: SetRequestIDHeader_def intro: clean_Set split: option.split)
  then show ?thesis
    unfolding modifyRequestHeaders_def Let_def h0_def [symmetric]
    by (simp add: clean_foldl_Del clean_set_expanded)
qed

definition plain_headers :: ProxyHeaders where
  "plain_headers = \<lparr>ph_SetRequest = [], ph_SetResponse = [], ph_Remove = [], ph_HideResponse = [], ph_PassResponse = [],
     ph_IgnoreHeaders = [], ph_CookieDomain = [], ph_CookiePath = [], ph_SetForwardedHost = None, ph_SetForwardedProto = None\<rparr>"

definition demo_http_request :: request where
  "demo_http_request = \<lparr>hr_Method = ''GET'', hr_Headers = [(''Host'', ''example.org'')], hr_Host = ''example.org'', hr_Path = ''/a'',
     hr_Query = [], hr_RawURI = ''/a'', hr_IsTLS = False, hr_Remote = Some (TCPAddr (Some (V4 0x0A000001))), hr_User = Map.empty\<rparr>"

theorem request_headers_no_injection_witness:
  "clean_headers (hr_Headers (modifyRequestHeaders (\<lambda>_. [CHR 0x0D, CHR 0x0A] @ ''X-Admin: 1'')
     (plain_headers\<lparr>ph_SetRequest := [(''X-A'', ''$arg'')]\<rparr>) ''http://up:80'' demo_http_request))"
proof -
  have h: "clean_headers (hr_Headers demo_http_request)" "\<not> containsCRLF ''http://up:80''"
    "\<not> containsCRLF (hr_Host demo_http_request)"
    "\<forall>s. hr_Remote demo_http_request = Some (OtherAddr s) \<longrightarrow> \<not> containsCRLF s"
    "\<forall>s. user_string (hr_User demo_http_request ''request_id'') = Some s \<longrightarrow> \<not> containsCRLF s"
    by (simp_all add: demo_http_request_def clean_headers_def user_string_def)
  show ?thesis by (rule request_headers_no_injection [OF h])
qed

section \<open>The response white list\<close>

lemma names_foldl_Del:
  "k \<in> fst ` set (foldl (\<lambda>h n. if n \<in> P then h else hdr_Del n h) hs ns) \<Longrightarrow> k \<in> fst ` set hs"
proof (induction ns arbitrary: hs)
  case (Cons n ns)
  have "k \<in> fst ` set (if n \<in> P then hs else hdr_Del n hs)"
    by (rule Cons.IH) (use Cons.prems in \<open>simp only: foldl_Cons\<close>)
  then show ?case by (auto simp: hdr_Del_def split: if_splits)
qed simp

lemma foldl_Del_removes:
  "k \<in> fst ` set (foldl (\<lambda>h n. hdr_Del n h) hs ns) \<Longrightarrow> k \<in> fst ` set hs \<and> (\<forall>n \<in> set ns. \<not> EqualFold k n)"
proof (induction ns arbitrary: hs)
  case (Cons n ns)
  have "k \<in> fst ` set (foldl (\<lambda>h n. hdr_Del n h) (hdr_Del n hs) ns)" using Cons.prems by simp
  from Cons.IH [OF this] show ?case by (auto simp: hdr_Del_def)
qed simp

lemma names_Set: "k \<in> fst ` set (hdr_Set n v hs) \<Longrightarrow> k = n \<or> k \<in> fst ` set hs"
  by (induction n v hs rule: hdr_Set.induct) (auto split: if_splits)

lemma names_set_expanded: "k \<in> fst ` set (set_expanded expand kvs hs) \<Longrightarrow> k \<in> fst ` set kvs \<or> k \<in> fst ` set hs"
proof (induction expand kvs hs rule: set_expanded.induct)
  case (2 expand key val kvs hs)
  then show ?case using names_Set [of k key "expand val" hs] by (auto split: if_splits)
qed simp

lemma names_add_cookies: "k \<in> fst ` set (foldl (\<lambda>h c. hdr_Add n c h) hs cs) \<Longrightarrow> k \<in> fst ` set hs \<or> (k = n \<and> cs \<noteq> [])"
proof (induction cs arbitrary: hs)
  case (Cons c cs)
  have "k \<in> fst ` set (foldl (\<lambda>h c. hdr_Add n c h) (hdr_Add n c hs) cs)" using Cons.prems by simp
  from Cons.IH [OF this] show ?case by (auto simp: hdr_Add_def)
qed simp

lemma names_rewriteCookies:
  assumes "k \<in> fst ` set (rewriteCookies cfg hs)"
  shows "\<exists>k' \<in> fst ` set hs. EqualFold k k'"
proof -
  have "k \<in> fst ` set hs \<or> k = ''Set-Cookie'' \<and> (\<exists>k' \<in> fst ` set hs. EqualFold k' ''Set-Cookie'')"
    using assms
    by (auto simp: rewriteCookies_def Let_def hdr_Del_def filter_empty_conv split: if_splits dest!: names_add_cookies) force+
  then show ?thesis unfolding EqualFold_def by metis
qed

lemma whitelist_cong: "EqualFold k k' \<Longrightarrow> isInWhitelist k' ws \<Longrightarrow> isInWhitelist k ws"
  by (auto simp: isInWhitelist_def EqualFold_def)

lemma filter_response_whitelist:
  assumes "ph_PassResponse cfg \<noteq> []" and "k \<in> fst ` set (filter_response cfg h)"
  shows "isInWhitelist k (ph_PassResponse cfg)"
proof -
  let ?h1 = "foldl (\<lambda>h k. hdr_Del k h) h (filter (\<lambda>k. \<not> isInWhitelist k (ph_PassResponse cfg)) (map fst h))"
  have "k \<in> fst ` set (foldl (\<lambda>h key. if key \<in> set (ph_PassResponse cfg) then h else hdr_Del key h)
      (foldl (\<lambda>h key. if key \<in> set (ph_PassResponse cfg) then h else hdr_Del key h) ?h1 (ph_HideResponse cfg)) (ph_IgnoreHeaders cfg))"
    using assms(2) unfolding filter_response_def Let_def if_P [OF assms(1)] .
  then have "k \<in> fst ` set ?h1" by (rule names_foldl_Del [OF names_foldl_Del])
  from foldl_Del_removes [OF this] have "k \<in> fst ` set h" "\<forall>n \<in> fst ` set h. \<not> isInWhitelist n (ph_PassResponse cfg) \<longrightarrow> \<not> EqualFold k n"
    by auto
  then show ?thesis by (meson EqualFold_refl)
qed

text \<open>The white list is a white list: with \<open>pass_response\<close> configured, every header left in a response by
  \<open>modifyResponseHeaders\<close>, the last step of forwarding it, is on the list or is one the configuration itself sets,
  whatever the upstream sent. Replies from the cache are written without this step.\<close>

theorem pass_response_whitelist:
  assumes "ph_PassResponse cfg \<noteq> []"
    and "k \<in> fst ` set (rs_Headers (snd (modifyResponseHeaders expand cfg r resp)))"
  shows "isInWhitelist k (ph_PassResponse cfg) \<or> k \<in> fst ` set (ph_SetResponse cfg)"
proof -
  let ?h = "filter_response cfg (rs_Headers resp)"
  have "k \<in> fst ` set (set_expanded expand (ph_SetResponse cfg)
      (if ph_CookieDomain cfg \<noteq> [] \<or> ph_CookiePath cfg \<noteq> [] then rewriteCookies cfg ?h else ?h))"
    using assms(2) by (simp add: modifyResponseHeaders_def Let_def)
  from names_set_expanded [OF this] show ?thesis
  proof
    assume k: "k \<in> fst ` set (if ph_CookieDomain cfg \<noteq> [] \<or> ph_CookiePath cfg \<noteq> [] then rewriteCookies cfg ?h else ?h)"
    have "\<exists>k' \<in> fst ` set ?h. EqualFold k k'"
    proof (cases "ph_CookieDomain cfg \<noteq> [] \<or> ph_CookiePath cfg \<noteq> []")
      case True
      then show ?thesis using names_rewriteCookies k by presburger
    next
      case False
      then have "k \<in> fst ` set ?h" using k by (simp only: if_False)
      then show ?thesis by (intro bexI [of _ k]) (rule EqualFold_refl)
    qed
    then show ?thesis using filter_response_whitelist [OF assms(1)] whitelist_cong by blast
  qed simp
qed

theorem pass_response_whitelist_witness:
  "''Content-Type'' \<in> fst ` set (rs_Headers (snd (modifyResponseHeaders (\<lambda>t. t)
      (plain_headers\<lparr>ph_PassResponse := [''content-type'']\<rparr>) demo_http_request
      \<lparr>rs_Status = 200, rs_Headers = [(''X-Internal'', ''1''), (''Content-Type'', ''text/html'')], rs_Body = []\<rparr>))) \<and>
   isInWhitelist ''Content-Type'' [''content-type'']"
proof -
  let ?c = "plain_headers\<lparr>ph_PassResponse := [''content-type'']\<rparr>"
  let ?r = "\<lparr>rs_Status = 200, rs_Headers = [(''X-Internal'', ''1''), (''Content-Type'', ''text/html'')], rs_Body = []\<rparr>"
  have h: "ph_PassResponse ?c \<noteq> []" by simp
  have k: "''Content-Type'' \<in> fst ` set (rs_Headers (snd (modifyResponseHeaders (\<lambda>t. t) ?c demo_http_request ?r)))"
    by code_simp
  show ?thesis using k pass_response_whitelist [OF h k] by (simp add: plain_headers_def)
qed

end
