(* ===== verification/GoPath.thy ===== *)
theory GoPath
  imports GoStrings
begin

text \<open>
  The part of Go's \<open>path/filepath\<close> package the program uses, for Unix paths: \<open>Clean\<close>, \<open>Join\<close>,
  \<open>Dir\<close> and \<open>IsAbs\<close>. A path is split at the slashes; \<open>Clean\<close> removes empty and
  dot elements and resolves each dot-dot element against the one before it.
\<close>

definition is_rooted :: "string \<Rightarrow> bool" where
  "is_rooted p \<longleftrightarrow> HasPrefix p ''/''"

definition clean_step :: "bool \<Rightarrow> string list \<Rightarrow> string \<Rightarrow> string list" where
  "clean_step rooted acc e =
     (if e = [] \<or> e = ''.'' then acc
      else if e = ''..'' then
        (if acc \<noteq> [] \<and> hd acc \<noteq> ''..'' then tl acc
         else if rooted then acc
         else ''..'' # acc)
      else e # acc)"

fun join_slash :: "string list \<Rightarrow> string" where
  "join_slash [] = []"
| "join_slash [e] = e"
| "join_slash (e # es) = e @ ''/'' @ join_slash es"

definition clean_elems :: "string \<Rightarrow> string list" where
  "clean_elems p = rev (foldl (clean_step (is_rooted p)) [] (Split p (CHR ''/'')))"

definition path_Clean :: "string \<Rightarrow> string" where
  "path_Clean p =
     (let s = (if is_rooted p then ''/'' else []) @ join_slash (clean_elems p)
      in if s = [] then ''.'' else s)"

definition path_Join :: "string list \<Rightarrow> string" where
  "path_Join es =
     (let ne = filter (\<lambda>e. e \<noteq> []) es in if ne = [] then [] else path_Clean (join_slash ne))"

definition path_Dir :: "string \<Rightarrow> string" where
  "path_Dir p = path_Clean (case LastIndexByte p (CHR ''/'') of Some i \<Rightarrow> take (Suc i) p | None \<Rightarrow> [])"

section \<open>Cleaning\<close>

text \<open>A clean rooted path has no dot-dot element: cleaning never leaves the root.\<close>

lemma clean_step_rooted: "''..'' \<notin> set acc \<Longrightarrow> ''..'' \<notin> set (clean_step True acc e)"
  by (auto simp: clean_step_def dest: list.set_sel(2))

lemma clean_elems_rooted:
  assumes "is_rooted p"
  shows "''..'' \<notin> set (clean_elems p)"
proof -
  have "''..'' \<notin> set (foldl (clean_step True) acc es)" if "''..'' \<notin> set acc" for acc es
    using that by (induction es arbitrary: acc) (simp_all add: clean_step_rooted)
  then show ?thesis using assms by (simp add: clean_elems_def)
qed

lemma Split_no_slash: "e \<in> set (Split p c) \<Longrightarrow> c \<notin> set e"
  by (induction p arbitrary: e) (auto split: list.splits if_splits)

lemma clean_step_elems: "e' \<in> set (clean_step r acc e) \<Longrightarrow> e' \<in> set acc \<or> e' = e \<and> e' \<noteq> [] \<and> e' \<noteq> ''.''"
  by (auto simp: clean_step_def split: if_splits dest: list.set_sel(2))

lemma clean_elems_proper:
  assumes "e \<in> set (clean_elems p)"
  shows "e \<noteq> []" "e \<noteq> ''.''" "CHR ''/'' \<notin> set e"
proof -
  have "e' \<in> set acc \<or> e' \<in> set es \<and> e' \<noteq> [] \<and> e' \<noteq> ''.''" if "e' \<in> set (foldl (clean_step r) acc es)" for e' r acc es
    using that by (induction es arbitrary: acc) (auto dest: clean_step_elems)
  from this [of e "is_rooted p" "[]" "Split p (CHR ''/'')"]
  show "e \<noteq> []" "e \<noteq> ''.''" "CHR ''/'' \<notin> set e"
    using assms Split_no_slash [of e p] by (auto simp: clean_elems_def)
qed

lemma Split_join_slash:
  "es \<noteq> [] \<Longrightarrow> \<forall>e \<in> set es. CHR ''/'' \<notin> set e \<Longrightarrow> Split (join_slash es) (CHR ''/'') = es"
proof (induction es rule: join_slash.induct)
  case (3 e e' es)
  then show ?case using Split_append_sep [of "CHR ''/''" e "join_slash (e' # es)"] by simp
qed (simp_all add: Split_no_sep)

text \<open>Cleaning again changes nothing.\<close>

lemma clean_fold_id:
  assumes "\<forall>e \<in> set es. e \<noteq> [] \<and> e \<noteq> ''.'' \<and> e \<noteq> ''..''"
  shows "foldl (clean_step r) acc es = rev es @ acc"
  using assms by (induction es arbitrary: acc) (simp_all add: clean_step_def)

lemma clean_elems_Clean_rooted:
  assumes "is_rooted p"
  shows "clean_elems (path_Clean p) = clean_elems p"
proof -
  have pr: "\<forall>e \<in> set (clean_elems p). e \<noteq> [] \<and> e \<noteq> ''.'' \<and> e \<noteq> ''..'' \<and> CHR ''/'' \<notin> set e"
    using clean_elems_proper clean_elems_rooted [OF assms] by metis
  have c: "path_Clean p = CHR ''/'' # join_slash (clean_elems p)" using assms by (simp add: path_Clean_def)
  show ?thesis
  proof (cases "clean_elems p = []")
    case True
    then show ?thesis using c by (simp add: clean_elems_def is_rooted_def HasPrefix_def clean_step_def)
  next
    case False
    have r: "is_rooted (CHR ''/'' # join_slash (clean_elems p))" by (simp add: is_rooted_def HasPrefix_def)
    have "Split (CHR ''/'' # join_slash (clean_elems p)) (CHR ''/'') = [] # clean_elems p"
      using Split_join_slash [OF False] pr by simp
    then show ?thesis
      unfolding c clean_elems_def [of "CHR ''/'' # join_slash (clean_elems p)"] using r pr clean_fold_id [of "clean_elems p" True "[]"]
      by (simp add: clean_step_def [of _ _ "[]"])
  qed
qed

lemma path_Clean_rooted: "is_rooted p \<Longrightarrow> is_rooted (path_Clean p)"
  by (simp add: path_Clean_def is_rooted_def HasPrefix_def)

lemma path_Clean_idem: "is_rooted p \<Longrightarrow> path_Clean (path_Clean p) = path_Clean p"
  using clean_elems_Clean_rooted [of p] path_Clean_rooted [of p] by (simp add: path_Clean_def)

end
