(* ===== verification/Proxy.thy ===== *)
theory Proxy
  imports Selector Redirect GoPath
begin

text \<open>
  \<open>ServeHTTP\<close> of \<^verbatim>\<open>internal/proxy/proxy.go\<close>: the retry loop that selects a target, consults the cache, forwards the
  request, marks targets and stores the response, composed of the components it calls. A request runs
  from its start to its end; what the outside contributes to an attempt is the record \<open>attempt_env\<close>:
  the clock and the random draws, the choice of the Lua script, the outcome of \<open>client.Do\<close>, of the
  WebSocket tunnel and of waiting for another request, and the measured times. The exchange with the
  upstream ends, in a response or an error; waiting for another request may not (\<open>ae_wait\<close>). The clock is
  read once per attempt. A panic of a callee, or an endless wait, ends the request without an answer. Of
  the \<open>HostClient\<close> the TLS settings are left out.
\<close>

section \<open>State\<close>

record HostClient =
  hcl_Addr :: string
  hcl_IsTLS :: bool
  hcl_ReadTimeout :: nanos
  hcl_WriteTimeout :: nanos
  hcl_MaxIdleConnDuration :: nanos
  hcl_MaxConns :: int
  hcl_MaxConnWaitTimeout :: nanos
  hcl_Dial :: "(nanos \<times> string) option"
  hcl_StreamResponseBody :: bool
  hcl_BufferSize :: "int option"

record TransportConfig =
  tc_IdleConnTimeout :: nanos
  tc_MaxConnsPerHost :: int

definition createHostClient ::
  "string \<Rightarrow> ProxyTimeout \<Rightarrow> TransportConfig option \<Rightarrow> string \<Rightarrow> ProxyBufferingConfig option \<Rightarrow> HostClient" where
  "createHostClient targetURL timeout transportCfg proxyBind buffering =
     (let (addr, isTLS) = ParseTargetURL targetURL True;
          idle = (case transportCfg of
                    Some tc \<Rightarrow> (if tc_IdleConnTimeout tc > 0 then tc_IdleConnTimeout tc else 90 * second) | None \<Rightarrow> 90 * second);
          conns = (case transportCfg of
                    Some tc \<Rightarrow> (if tc_MaxConnsPerHost tc > 0 then tc_MaxConnsPerHost tc else 512) | None \<Rightarrow> 512);
          dial = (if to_Dial timeout > 0 then to_Dial timeout
                  else if to_Connect timeout > 0 then to_Connect timeout else 30 * second)
      in \<lparr>hcl_Addr = addr, hcl_IsTLS = isTLS, hcl_ReadTimeout = to_Read timeout, hcl_WriteTimeout = to_Write timeout,
          hcl_MaxIdleConnDuration = idle, hcl_MaxConns = conns, hcl_MaxConnWaitTimeout = to_Connect timeout,
          hcl_Dial = (if proxyBind \<noteq> [] \<or> to_Dial timeout > 0 then Some (dial, proxyBind) else None),
          hcl_StreamResponseBody = (case buffering of Some b \<Rightarrow> bf_Mode b = ''off'' | None \<Rightarrow> False),
          hcl_BufferSize = (case buffering of
             Some b \<Rightarrow> (if bf_BufferSize b > 0 then Some (bf_BufferSize b) else None) | None \<Rightarrow> None)\<rparr>)"

text \<open>The fields \<open>NewProxy\<close> sets once, and those a request changes; \<open>ps_cookie\<close> is the cookie a sticky session put on the
  response when it selected the target.\<close>

record Proxy =
  p_config :: ProxyConfig
  p_targets :: "ptr list"
  p_clients :: "string \<rightharpoonup> HostClient"
  p_luaEngine :: bool
  p_redirectRewriter :: RedirectRewriter
  p_cacheIgnoreSet :: "string list"

record pstate =
  ps_balancer :: lb
  ps_fallback :: lb
  ps_st :: lbstate
  ps_cache :: "ProxyCache option"
  ps_health :: "HealthChecker option"
  ps_cookie :: "cookie option"

datatype proxy_error = ProxyNoTargets | ProxyBalancer balancer_error | ProxyFallback balancer_error | ProxyRewriter

definition clientKey :: "ProxyConfig \<Rightarrow> string \<Rightarrow> string" where
  "clientKey cfg url = (if px_ProxyBind cfg \<noteq> [] then url @ ''|'' @ px_ProxyBind cfg else url)"

fun init_clients ::
  "ProxyConfig \<Rightarrow> TransportConfig option \<Rightarrow> heap \<Rightarrow> ptr list \<Rightarrow> (string \<rightharpoonup> HostClient) \<Rightarrow> (string \<rightharpoonup> HostClient)" where
  "init_clients cfg tc h [] m = m"
| "init_clients cfg tc h (p # ps) m =
     (if URL (h p) = [] then init_clients cfg tc h ps m
      else init_clients cfg tc h ps
             (m(clientKey cfg (URL (h p)) \<mapsto> createHostClient (URL (h p)) (px_Timeout cfg) tc (px_ProxyBind cfg) (px_Buffering cfg))))"

definition proxy_rules :: "ProxyConfig \<Rightarrow> ProxyCacheRule list" where
  "proxy_rules cfg =
     (if pcc_MaxAge (px_Cache cfg) > 0 then
        [\<lparr>pr_Path = px_Path cfg,
          pr_Methods = (if pcc_Methods (px_Cache cfg) = [] then [''GET'', ''HEAD''] else pcc_Methods (px_Cache cfg)),
          pr_Statuses = [], pr_MaxAge = pcc_MaxAge (px_Cache cfg)\<rparr>]
      else [])"

text \<open>\<open>None\<close> is again a call that does not return.\<close>

definition NewProxy ::
  "rx \<Rightarrow> ProxyConfig \<Rightarrow> ptr list \<Rightarrow> TransportConfig option \<Rightarrow> bool \<Rightarrow> lbstate \<Rightarrow> (proxy_error + Proxy \<times> pstate) option" where
  "NewProxy x cfg targets tc luaEngine st =
     (if targets = [] then Some (Inl ProxyNoTargets)
      else Option.bind (createBalancer cfg) (\<lambda>b.
        case b of
          Inl e \<Rightarrow> Some (Inl (ProxyBalancer e))
        | Inr bal \<Rightarrow>
            Option.bind (createBalancerByName (if bl_Fallback (px_BalancerByLua cfg) = [] then ''round_robin'' else bl_Fallback (px_BalancerByLua cfg)) cfg)
              (\<lambda>f.
                case f of
                  Inl e \<Rightarrow> Some (Inl (ProxyFallback e))
                | Inr fb \<Rightarrow>
                    (case NewRedirectRewriter x (px_RedirectRewrite cfg) (px_Path cfg) of
                       None \<Rightarrow> Some (Inl ProxyRewriter)
                     | Some rewriter \<Rightarrow>
                         Some (Inr
                           (\<lparr>p_config = cfg, p_targets = targets, p_clients = init_clients cfg tc (heap st) targets Map.empty,
                             p_luaEngine = luaEngine, p_redirectRewriter = rewriter,
                             p_cacheIgnoreSet = map ToLower (pcc_CacheIgnoreHeaders (px_Cache cfg))\<rparr>,
                            \<lparr>ps_balancer = bal, ps_fallback = fb, ps_st = st,
                             ps_cache = (if pcc_Enabled (px_Cache cfg) then
                                Some (NewProxyCache (proxy_rules cfg) (pcc_CacheLock (px_Cache cfg))
                                  (pcc_StaleWhileRevalidate (px_Cache cfg)) (pcc_StaleIfError (px_Cache cfg)) (pcc_StaleIfTimeout (px_Cache cfg)))
                                else None),
                             ps_health = None, ps_cookie = None\<rparr>))))))"

definition getClient :: "Proxy \<Rightarrow> string \<Rightarrow> HostClient option" where
  "getClient p targetURL = p_clients p (clientKey (p_config p) targetURL)"

section \<open>The outside of an attempt\<close>

datatype upstream = UpTimeout | UpConnectionClosed | UpError | UpResponse response

record attempt_env =
  ae_draw :: draw
  ae_lua :: lua_choice
  ae_upstream :: upstream
  ae_websocket :: bool
  ae_done_first :: bool
  ae_wait :: "(ProxyCache \<Rightarrow> ProxyCache) option"
  ae_headerTime :: nanos
  ae_lastByteTime :: nanos

text \<open>\<open>ae_wait\<close> is what other requests do to the cache until the channel of the pending request is closed, or
  \<open>None\<close> when it never is. What does not change from attempt to attempt: the cookies, the template expansion, the regular
  expressions and fasthttp's URI parser (host, path, query).\<close>

record request_env =
  re_cookies :: "string \<Rightarrow> string"
  re_expand :: "request \<Rightarrow> string \<Rightarrow> string"
  re_index :: re_index
  re_parse :: "string \<Rightarrow> string \<times> string \<times> string"

datatype reply =
    Cached ProxyCacheEntry "string option"
  | Forwarded response
  | GatewayError int string
  | Tunnel bool
  | InternalRedirect "string option"

record outcome =
  oc_reply :: reply
  oc_upstreamAddr :: string
  oc_upstreamStatus :: int

text \<open>An attempt ends the request, or goes on to the next one, with the request as rewritten, the error and the
  upstream status it left.\<close>

datatype step =
    Finished outcome pstate
  | Continue request "upstream option" string int pstate

section \<open>State changes\<close>

definition upd_target :: "ptr \<Rightarrow> (Target \<Rightarrow> Target) \<Rightarrow> pstate \<Rightarrow> pstate" where
  "upd_target p f s = s\<lparr>ps_st := (ps_st s)\<lparr>heap := (heap (ps_st s))(p := f (heap (ps_st s) p))\<rparr>\<rparr>"

definition mark_unhealthy :: "nanos \<Rightarrow> ptr \<Rightarrow> pstate \<Rightarrow> pstate" where
  "mark_unhealthy now p s =
     (case ps_health s of
        None \<Rightarrow> s
      | Some hc \<Rightarrow> (case MarkUnhealthy now hc (heap (ps_st s)) p of
           (hc', h) \<Rightarrow> s\<lparr>ps_health := Some hc', ps_st := (ps_st s)\<lparr>heap := h\<rparr>\<rparr>))"

definition mark_healthy_target :: "nanos \<Rightarrow> ptr \<Rightarrow> pstate \<Rightarrow> pstate" where
  "mark_healthy_target now p s =
     (case ps_health s of
        None \<Rightarrow> s
      | Some hc \<Rightarrow> (case MarkHealthy now hc (heap (ps_st s)) p of
           (hc', h) \<Rightarrow> s\<lparr>ps_health := Some hc', ps_st := (ps_st s)\<lparr>heap := h\<rparr>\<rparr>))"

text \<open>Only \<open>LeastTime\<close> implements \<open>ResponseTimeRecorder\<close>; the sticky wrapper does not.\<close>

definition record_time :: "ptr \<Rightarrow> nanos \<Rightarrow> nanos \<Rightarrow> pstate \<Rightarrow> pstate" where
  "record_time p ht lbt s =
     (case ps_balancer s of
        LB_LeastTime _ \<Rightarrow> s\<lparr>ps_st := (ps_st s)\<lparr>heap := RecordResponseTime (Some p) ht lbt (heap (ps_st s))\<rparr>\<rparr>
      | _ \<Rightarrow> s)"

definition release_lock :: "u64 \<Rightarrow> pstate \<Rightarrow> go_panic + pstate" where
  "release_lock key s =
     (case ps_cache s of
        None \<Rightarrow> Inr s
      | Some c \<Rightarrow> (case ReleaseLock key c of Inl e \<Rightarrow> Inl e | Inr c' \<Rightarrow> Inr (s\<lparr>ps_cache := Some c'\<rparr>)))"

section \<open>The cache stage\<close>

definition cached_reply :: "request_env \<Rightarrow> Proxy \<Rightarrow> request \<Rightarrow> string \<Rightarrow> ProxyCacheEntry \<Rightarrow> outcome" where
  "cached_reply e px r client entry =
     \<lparr>oc_reply = Cached entry
        (case pe_Headers entry ''Refresh'' of
           None \<Rightarrow> None
         | Some refresh \<Rightarrow>
             if refresh = [] then None
             else Some (rewriteRefresh (re_index e) (re_expand e r) (p_redirectRewriter px) (hr_IsTLS r) refresh ''CACHE'' client)),
      oc_upstreamAddr = ''CACHE'', oc_upstreamStatus = pe_Status entry\<rparr>"

definition lock_timeout :: "Proxy \<Rightarrow> nanos" where
  "lock_timeout px =
     (let cfg = px_Cache (p_config px)
      in if pcc_CacheLockTimeout cfg = 0 \<and> pcc_CacheLock cfg then 5 * second else pcc_CacheLockTimeout cfg)"

lemma cached_reply_is: "\<exists>entry' h. oc_reply (cached_reply e px r client entry) = Cached entry' h"
  by (simp add: cached_reply_def)

text \<open>Hits and the cache lock; \<open>Inr (Inl _)\<close> ends the request with a cached reply. Starting the background refresh of a
  stale hit marks the entry.\<close>

definition cache_stage ::
  "request_env \<Rightarrow> Proxy \<Rightarrow> attempt_env \<Rightarrow> string \<Rightarrow> string \<Rightarrow> ptr \<Rightarrow> request \<Rightarrow> ProxyCache \<Rightarrow> pstate
    \<Rightarrow> go_panic + (outcome \<times> pstate) + pstate" where
  "cache_stage e px a cacheHost client p r c s =
     (if MatchRule (hr_Path r) (hr_Method r) 0 c = None then Inr (Inr s)
      else
        let cfg = px_Cache (p_config px); now = d_now (ae_draw a);
            (hashKey, origKey) = buildCacheKeyHashWithHost (cache_request_of r) cacheHost (cacheVaryHeaders (pcc_Vary cfg) [])
        in case ProxyCache_Get now hashKey origKey c of
             ((Some entry, True, stale), c1) \<Rightarrow>
               let c2 = (if stale \<and> \<not> pcc_BackgroundUpdateDisable cfg
                         then c1\<lparr>pc_entries := (pc_entries c1)(hashKey \<mapsto> entry\<lparr>pe_Updating := True\<rparr>)\<rparr> else c1)
               in Inr (Inl (cached_reply e px r client entry, upd_target p DecrementConnections (s\<lparr>ps_cache := Some c2\<rparr>)))
           | (_, c1) \<Rightarrow>
               (case AcquireLockWithTimeout hashKey (lock_timeout px) (ae_done_first a) c1 of
                    ((Some _, False), c2) \<Rightarrow>
                      (case ae_wait a of
                         None \<Rightarrow> Inl EndlessWait
                       | Some others \<Rightarrow>
                           (case ProxyCache_Get now hashKey origKey (others c2) of
                              ((Some entry, True, _), c3) \<Rightarrow>
                                Inr (Inl (cached_reply e px r client entry, upd_target p DecrementConnections (s\<lparr>ps_cache := Some c3\<rparr>)))
                            | (_, c3) \<Rightarrow>
                                Inr (Inr (upd_target p IncrementConnections (upd_target p DecrementConnections (s\<lparr>ps_cache := Some c3\<rparr>))))))
                  | (_, c2) \<Rightarrow> Inr (Inr (s\<lparr>ps_cache := Some c2\<rparr>))))"

section \<open>After the upstream answered\<close>

definition is_timeout :: "upstream \<Rightarrow> bool" where
  "is_timeout u \<longleftrightarrow> u = UpTimeout"

definition error_stage ::
  "request_env \<Rightarrow> Proxy \<Rightarrow> attempt_env \<Rightarrow> nat \<Rightarrow> string \<Rightarrow> ptr \<Rightarrow> request \<Rightarrow> upstream \<Rightarrow> pstate \<Rightarrow> go_panic + step" where
  "error_stage e px a attempt cacheHost p r err s0 =
     (let now = d_now (ae_draw a);
          url = URL (heap (ps_st s0) p);
          s = mark_unhealthy now p (upd_target p DecrementConnections s0);
          (hashKey, origKey) = buildCacheKeyHashWithHost (cache_request_of r) cacheHost
             (cacheVaryHeaders (pcc_Vary (px_Cache (p_config px))) []);
          status = (if is_timeout err then 504 else 502)
      in case ps_cache s of
           None \<Rightarrow> Inr (Continue r (Some err) url status s)
         | Some c \<Rightarrow>
             (case GetStale now hashKey origKey (is_timeout err) c of
                Some entry \<Rightarrow>
                  Inr (Finished \<lparr>oc_reply = Cached entry None, oc_upstreamAddr = ''CACHE'', oc_upstreamStatus = pe_Status entry\<rparr> s)
              | None \<Rightarrow>
                  (case (if attempt = 0 then release_lock hashKey s else Inr s) of
                     Inl pe \<Rightarrow> Inl pe
                   | Inr s' \<Rightarrow> Inr (Continue r (Some err) url status s'))))"

text \<open>The cacheable headers of a response, and its validators.\<close>

fun collect_headers ::
  "string list \<Rightarrow> headers \<Rightarrow> (string \<rightharpoonup> string) \<Rightarrow> string \<Rightarrow> string \<Rightarrow> (string \<rightharpoonup> string) \<times> string \<times> string" where
  "collect_headers ignore [] m lm et = (m, lm, et)"
| "collect_headers ignore ((k, v) # hs) m lm et =
     (if ToLower k \<in> set ignore then collect_headers ignore hs m lm et
      else collect_headers ignore hs (m(k \<mapsto> v)) (if EqualFold k ''last-modified'' then v else lm)
             (if \<not> EqualFold k ''last-modified'' \<and> EqualFold k ''etag'' then v else et))"

text \<open>Storing the response: \<open>Inl\<close> is the early return that leaves the response as it is.\<close>

definition store_stage ::
  "Proxy \<Rightarrow> attempt_env \<Rightarrow> string \<Rightarrow> request \<Rightarrow> response \<Rightarrow> pstate \<Rightarrow> go_panic + (bool \<times> pstate)" where
  "store_stage px a cacheHost r resp s =
     (case ps_cache s of
        None \<Rightarrow> Inr (True, s)
      | Some c \<Rightarrow>
          if MatchRule (hr_Path r) (hr_Method r) (rs_Status resp) c = None then Inr (False, s)
          else
            let cfg = px_Cache (p_config px); now = d_now (ae_draw a); st = rs_Status resp;
                (hashKey, origKey) = buildCacheKeyHashWithHost (cache_request_of r) cacheHost
                   (cacheVaryHeaders (pcc_Vary cfg) (hdr_Peek (rs_Headers resp) ''Vary''))
            in if \<not> (st \<ge> 200 \<and> st < 300) then
                 (case release_lock hashKey s of Inl e \<Rightarrow> Inl e | Inr s' \<Rightarrow> Inr (True, s'))
               else
                 case ProxyCache_Get now hashKey origKey c of
                   (g, c1) \<Rightarrow>
                     let few = (case g of (Some entry, True, _) \<Rightarrow> pcc_MinUses cfg > 0 \<and> pe_Uses entry < pcc_MinUses cfg | _ \<Rightarrow> False)
                     in if few then
                          (case release_lock hashKey (s\<lparr>ps_cache := Some c1\<rparr>) of Inl e \<Rightarrow> Inl e | Inr s' \<Rightarrow> Inr (False, s'))
                        else
                          case collect_headers (p_cacheIgnoreSet px) (rs_Headers resp) Map.empty [] [] of
                            (hs, lm, et) \<Rightarrow>
                              (case ProxyCache_Set now hashKey origKey (rs_Body resp) hs st
                                      (getCacheDuration (pcc_MaxAge cfg) (px_CacheValid (p_config px)) st) c1 of
                                 Inl e \<Rightarrow> Inl e
                               | Inr c2 \<Rightarrow>
                                   let c3 = (if lm \<noteq> [] \<or> et \<noteq> [] then snd (SetValidationHeaders hashKey origKey lm et c2) else c2)
                                   in case release_lock hashKey (s\<lparr>ps_cache := Some c3\<rparr>) of Inl e \<Rightarrow> Inl e | Inr s' \<Rightarrow> Inr (True, s')))"

text \<open>The response as it is forwarded: redirects rewritten, then the configured header changes.\<close>

definition final_response :: "request_env \<Rightarrow> Proxy \<Rightarrow> string \<Rightarrow> string \<Rightarrow> request \<Rightarrow> response \<Rightarrow> response" where
  "final_response e px url client r resp =
     (let rw = p_redirectRewriter px;
          resp1 = (if Rewriter_Mode rw \<noteq> ''off''
                   then RewriteResponse (re_index e) (re_expand e r) rw (hr_IsTLS r) url client resp else resp)
      in snd (modifyResponseHeaders (re_expand e r) (px_Headers (p_config px)) r resp1))"

definition success_stage ::
  "request_env \<Rightarrow> Proxy \<Rightarrow> attempt_env \<Rightarrow> nat \<Rightarrow> nat \<Rightarrow> int list \<Rightarrow> string \<Rightarrow> string \<Rightarrow> ptr \<Rightarrow> request \<Rightarrow> response \<Rightarrow> int
    \<Rightarrow> pstate \<Rightarrow> go_panic + step" where
  "success_stage e px a attempt maxTries httpCodes cacheHost client p r resp lastStatus s0 =
     (let now = d_now (ae_draw a); url = URL (heap (ps_st s0) p);
          s = upd_target p RecordSuccess (upd_target p DecrementConnections (record_time p (ae_headerTime a) 0 s0));
          redirectPath = hdr_Peek (rs_Headers resp) ''X-Accel-Redirect'';
          statusCode = rs_Status resp;
          shouldRetry = (statusCode \<in> set httpCodes);
          hashKey = fst (buildCacheKeyHashWithHost (cache_request_of r) cacheHost (cacheVaryHeaders (pcc_Vary (px_Cache (p_config px))) []))
      in if redirectPath \<noteq> [] then
           (let pathStr = path_Clean redirectPath;
                accepted = \<not> HasPrefix pathStr ''/internal/'' \<and> \<not> HasPrefix pathStr ''/admin/''
            in Inr (Finished \<lparr>oc_reply = InternalRedirect (if accepted then Some pathStr else None),
                      oc_upstreamAddr = url, oc_upstreamStatus = lastStatus\<rparr> s))
         else
           case (if shouldRetry \<and> attempt = 0 then release_lock hashKey s else Inr s) of
             Inl pe \<Rightarrow> Inl pe
           | Inr s1 \<Rightarrow>
               if shouldRetry \<and> attempt + 1 < maxTries then Inr (Continue r None url statusCode (mark_unhealthy now p s1))
               else
                 let s2 = (if attempt > 0 then mark_healthy_target now p s1 else s1)
                 in case store_stage px a cacheHost r resp s2 of
                      Inl pe \<Rightarrow> Inl pe
                    | Inr (False, s3) \<Rightarrow>
                        Inr (Finished \<lparr>oc_reply = Forwarded resp, oc_upstreamAddr = url, oc_upstreamStatus = statusCode\<rparr> s3)
                    | Inr (True, s3) \<Rightarrow>
                        Inr (Finished \<lparr>oc_reply = Forwarded (final_response e px url client r resp), oc_upstreamAddr = url,
                                oc_upstreamStatus = statusCode\<rparr>
                               (record_time p (ae_headerTime a) (ae_lastByteTime a) s3)))"

section \<open>One attempt\<close>

definition target_uri :: "string \<Rightarrow> string \<Rightarrow> string \<Rightarrow> string" where
  "target_uri url path query = url @ path @ (if query \<noteq> [] then CHR ''?'' # query else [])"

definition set_request_uri :: "request_env \<Rightarrow> string \<Rightarrow> request \<Rightarrow> request" where
  "set_request_uri e uri r =
     (case re_parse e uri of (host, path, query) \<Rightarrow> r\<lparr>hr_RawURI := uri, hr_Host := host, hr_Path := path, hr_Query := query\<rparr>)"

definition dangerous_path :: "string \<Rightarrow> bool" where
  "dangerous_path path \<longleftrightarrow> CHR ''@'' \<in> set path \<or> CHR 0x0D \<in> set path \<or> CHR 0x0A \<in> set path"

definition serve_target ::
  "request_env \<Rightarrow> Proxy \<Rightarrow> attempt_env \<Rightarrow> nat \<Rightarrow> nat \<Rightarrow> int list \<Rightarrow> string \<Rightarrow> ptr \<Rightarrow> request \<Rightarrow> int \<Rightarrow> string \<Rightarrow> pstate \<Rightarrow> go_panic + step" where
  "serve_target e px a attempt maxTries httpCodes cacheHost p r0 lastStatus lastAddr s0 =
     (let t = heap (ps_st s0) p; url = URL t; now = d_now (ae_draw a)
      in if getClient px url = None then Inr (Continue r0 None lastAddr lastStatus (mark_unhealthy now p s0))
         else
           let s = upd_target p IncrementConnections s0; client = hr_Host r0
           in if isWebSocketRequest r0 then
                Inr (Finished \<lparr>oc_reply = Tunnel (ae_websocket a), oc_upstreamAddr = url,
                       oc_upstreamStatus = (if ae_websocket a then 101 else 502)\<rparr> (upd_target p DecrementConnections s))
              else
                let r1 = modifyRequestHeaders (re_expand e r0) (px_Headers (p_config px)) url r0;
                    path = (if ProxyURI t \<noteq> [] then ProxyURI t else hr_Path r1); query = hr_Query r1
                in if dangerous_path path then
                     Inr (Finished \<lparr>oc_reply = GatewayError 502 ''Bad Gateway: invalid proxy path'', oc_upstreamAddr = url, oc_upstreamStatus = 502\<rparr>
                            (upd_target p DecrementConnections s))
                   else
                     let r2 = set_request_uri e (target_uri url path query) r1
                     in case (case ps_cache s of
                                Some c \<Rightarrow> (if attempt = 0 then cache_stage e px a cacheHost client p r2 c s else Inr (Inr s))
                              | None \<Rightarrow> Inr (Inr s)) of
                          Inl pe \<Rightarrow> Inl pe
                        | Inr (Inl (oc, s')) \<Rightarrow> Inr (Finished oc s')
                        | Inr (Inr s') \<Rightarrow>
                            (case ae_upstream a of
                               UpResponse resp \<Rightarrow>
                                 success_stage e px a attempt maxTries httpCodes cacheHost client p r2 resp lastStatus s'
                             | err \<Rightarrow> error_stage e px a attempt cacheHost p r2 err s'))"

section \<open>The loop\<close>

definition select_attempt ::
  "request_env \<Rightarrow> Proxy \<Rightarrow> attempt_env \<Rightarrow> nat \<Rightarrow> request \<Rightarrow> ptr list \<Rightarrow> pstate \<Rightarrow> go_panic + (ptr option \<times> pstate)" where
  "select_attempt e px a attempt r attempted s =
     (if attempt = 0 then
        (case selectTarget (px_BalancerByLua (p_config px)) (p_luaEngine px) (ae_lua a) (ae_draw a) (re_cookies e) r
                (ps_balancer s) (ps_fallback s) (ps_st s) (p_targets px) of
           (t, b, fb, st, ck) \<Rightarrow> Inr (t, s\<lparr>ps_balancer := b, ps_fallback := fb, ps_st := st, ps_cookie := ck\<rparr>))
      else
        (case selectTargetExcluding (ae_draw a) r (ps_balancer s) (ps_st s) (p_targets px) (map Some attempted) of
           (Inl pe, b, st) \<Rightarrow> Inl pe
         | (Inr t, b, st) \<Rightarrow> Inr (t, s\<lparr>ps_balancer := b, ps_st := st\<rparr>)))"

definition all_failed :: "upstream option \<Rightarrow> string \<Rightarrow> outcome" where
  "all_failed lastErr upstreamAddr =
     (case lastErr of
        Some UpTimeout \<Rightarrow> \<lparr>oc_reply = GatewayError 504 ''Gateway Timeout'', oc_upstreamAddr = upstreamAddr, oc_upstreamStatus = 504\<rparr>
      | Some UpConnectionClosed \<Rightarrow>
          \<lparr>oc_reply = GatewayError 502 ''Bad Gateway: upstream connection closed'', oc_upstreamAddr = upstreamAddr, oc_upstreamStatus = 502\<rparr>
      | Some _ \<Rightarrow> \<lparr>oc_reply = GatewayError 502 ''Bad Gateway'', oc_upstreamAddr = upstreamAddr, oc_upstreamStatus = 502\<rparr>
      | None \<Rightarrow> \<lparr>oc_reply = GatewayError 502 ''Bad Gateway: all upstreams failed'', oc_upstreamAddr = ''FAILED'', oc_upstreamStatus = 502\<rparr>)"

text \<open>\<open>fuel\<close> is \<open>maxTries - attempt\<close>, the number of iterations left. The second component collects the targets that were
  attempted, in order.\<close>

fun serve_loop ::
  "request_env \<Rightarrow> Proxy \<Rightarrow> (nat \<Rightarrow> attempt_env) \<Rightarrow> nat \<Rightarrow> int list \<Rightarrow> string \<Rightarrow> nat \<Rightarrow> nat \<Rightarrow> request \<Rightarrow> upstream option
    \<Rightarrow> string \<Rightarrow> int \<Rightarrow> ptr list \<Rightarrow> pstate \<Rightarrow> go_panic + (outcome \<times> ptr list \<times> pstate)" where
  "serve_loop e px env maxTries codes cacheHost 0 attempt r lastErr addr status attempted s =
     Inr (all_failed lastErr addr, attempted, s)"
| "serve_loop e px env maxTries codes cacheHost (Suc fuel) attempt r lastErr addr status attempted s =
     (case select_attempt e px (env attempt) attempt r attempted s of
        Inl pe \<Rightarrow> Inl pe
      | Inr (None, s1) \<Rightarrow>
          if attempt = 0 then
            Inr (\<lparr>oc_reply = GatewayError 502 ''Bad Gateway: no healthy upstream'', oc_upstreamAddr = ''FAILED'', oc_upstreamStatus = 502\<rparr>, attempted, s1)
          else Inr (all_failed lastErr addr, attempted, s1)
      | Inr (Some p, s1) \<Rightarrow>
          (case serve_target e px (env attempt) attempt maxTries codes cacheHost p r status addr s1 of
             Inl pe \<Rightarrow> Inl pe
           | Inr (Finished oc s2) \<Rightarrow> Inr (oc, attempted @ [p], s2)
           | Inr (Continue r' err addr' status' s2) \<Rightarrow>
               serve_loop e px env maxTries codes cacheHost fuel (attempt + 1) r'
                 (case err of Some _ \<Rightarrow> err | None \<Rightarrow> lastErr) addr' status' (attempted @ [p]) s2))"

definition max_tries :: "Proxy \<Rightarrow> nat" where
  "max_tries px = (if nu_Tries (px_NextUpstream (p_config px)) \<le> 0 then 1 else nat (nu_Tries (px_NextUpstream (p_config px))))"

definition retry_codes :: "Proxy \<Rightarrow> int list" where
  "retry_codes px = (if nu_HTTPCodes (px_NextUpstream (p_config px)) = [] then [502, 503, 504] else nu_HTTPCodes (px_NextUpstream (p_config px)))"

definition ServeHTTP ::
  "request_env \<Rightarrow> Proxy \<Rightarrow> (nat \<Rightarrow> attempt_env) \<Rightarrow> request \<Rightarrow> pstate \<Rightarrow> go_panic + (outcome \<times> ptr list \<times> pstate)" where
  "ServeHTTP e px env r s =
     serve_loop e px env (max_tries px) (retry_codes px) (hdr_Peek (hr_Headers r) ''Host'') (max_tries px) 0 r None [] 0 [] s"

section \<open>What a request leaves behind\<close>

definition ps_ok :: "pstate \<Rightarrow> bool" where
  "ps_ok s \<longleftrightarrow> sel_inv (ps_balancer s, ps_st s) \<and> sel_inv (ps_fallback s, ps_st s) \<and> (\<forall>c. ps_cache s = Some c \<longrightarrow> lock_inv c)"

text \<open>Whether there is a cache and whether it uses the lock; nothing a request does changes it.\<close>

definition lock_mode :: "pstate \<Rightarrow> bool option" where
  "lock_mode s = map_option cacheLock (ps_cache s)"

lemma lock_mode_simps [simp]:
  "lock_mode (s\<lparr>ps_cache := Some c\<rparr>) = Some (cacheLock c)" "lock_mode (s\<lparr>ps_st := st\<rparr>) = lock_mode s"
  "lock_mode (s\<lparr>ps_health := h\<rparr>) = lock_mode s"
  by (simp_all add: lock_mode_def)

text \<open>\<open>shift p k s s'\<close>: the invariant holds in \<open>s'\<close>, where the connections of \<open>p\<close> are \<open>k\<close> more than in \<open>s\<close> and nothing else of
  the connections and URLs changed.\<close>

definition shift :: "ptr \<Rightarrow> int \<Rightarrow> pstate \<Rightarrow> pstate \<Rightarrow> bool" where
  "shift p k s s' \<longleftrightarrow> ps_ok s' \<and> lock_mode s' = lock_mode s \<and> (\<forall>q. URL (heap (ps_st s') q) = URL (heap (ps_st s) q)
     \<and> Connections (heap (ps_st s') q) = Connections (heap (ps_st s) q) + (if q = p then k else 0))"

lemma shift_refl: "ps_ok s \<Longrightarrow> shift p 0 s s"
  by (simp add: shift_def)

lemma shift_trans: "shift p k s s' \<Longrightarrow> shift p l s' s'' \<Longrightarrow> m = k + l \<Longrightarrow> shift p m s s''"
  by (simp add: shift_def)

lemma shift_ok: "shift p k s s' \<Longrightarrow> ps_ok s'"
  by (simp add: shift_def)

lemma ps_ok_cong:
  "ps_ok s \<Longrightarrow> ps_balancer s' = ps_balancer s \<Longrightarrow> ps_fallback s' = ps_fallback s \<Longrightarrow> ps_cache s' = ps_cache s
    \<Longrightarrow> fcPool (ps_st s') = fcPool (ps_st s) \<Longrightarrow> ps_ok s'"
  by (simp add: ps_ok_def sel_inv_def pool_clean_def)

lemma shift_upd_target:
  assumes "ps_ok s" "URL (f (heap (ps_st s) p)) = URL (heap (ps_st s) p)"
    "Connections (f (heap (ps_st s) p)) = Connections (heap (ps_st s) p) + k"
  shows "shift p k s (upd_target p f s)"
  using assms ps_ok_cong [OF assms(1), of "upd_target p f s"] by (simp add: shift_def upd_target_def)

lemma shift_count:
  assumes "ps_ok s"
  shows "shift p 1 s (upd_target p IncrementConnections s)" "shift p (- 1) s (upd_target p DecrementConnections s)"
    "shift p 0 s (upd_target p RecordSuccess s)"
  using assms
  by (auto intro!: shift_upd_target simp: IncrementConnections_def DecrementConnections_def RecordSuccess_def)

lemma MarkUnhealthy_frame:
  "URL (snd (MarkUnhealthy now hc h p) q) = URL (h q)" "Connections (snd (MarkUnhealthy now hc h p) q) = Connections (h q)"
  by (auto simp: MarkUnhealthy_def Let_def OnTargetUnhealthy_def RecordFailure_def split: option.splits)

lemma MarkHealthy_frame:
  "URL (snd (MarkHealthy now hc h p) q) = URL (h q)" "Connections (snd (MarkHealthy now hc h p) q) = Connections (h q)"
  by (auto simp: MarkHealthy_def Let_def OnTargetHealthy_def RecordSuccess_def split: option.splits)

lemma shift_mark:
  assumes "ps_ok s"
  shows "shift p 0 s (mark_unhealthy now t s)" "shift p 0 s (mark_healthy_target now t s)"
  using assms ps_ok_cong [OF assms]
  by (auto simp: shift_def mark_unhealthy_def mark_healthy_target_def MarkUnhealthy_frame MarkHealthy_frame case_prod_beta split: option.splits)

lemma shift_record_time: "ps_ok s \<Longrightarrow> shift p 0 s (record_time t a b s)"
  using ps_ok_cong [of s "record_time t a b s"]
  by (auto simp: shift_def record_time_def RecordResponseTime_def split: lb.splits option.splits)

text \<open>A cache that may take the place of the cache of \<open>s\<close>.\<close>

definition cache_fits :: "pstate \<Rightarrow> ProxyCache \<Rightarrow> bool" where
  "cache_fits s c \<longleftrightarrow> lock_inv c \<and> lock_mode s = Some (cacheLock c)"

lemma cache_fits_own: "ps_ok s \<Longrightarrow> ps_cache s = Some c \<Longrightarrow> cache_fits s c"
  by (simp add: cache_fits_def ps_ok_def lock_mode_def)

lemma cacheLock_ops:
  "cacheLock (snd (ProxyCache_Get now h k c)) = cacheLock c" "cacheLock (c\<lparr>pc_entries := es\<rparr>) = cacheLock c"
  "cacheLock (snd (SetValidationHeaders h k lm et c)) = cacheLock c"
  "cacheLock (snd (AcquireLockWithTimeout h t df c)) = cacheLock c"
  by (auto simp: ProxyCache_Get_def SetValidationHeaders_def AcquireLockWithTimeout_def Let_def split: option.splits)

lemma cacheLock_close: "close_pending h c = Inr c' \<Longrightarrow> cacheLock c' = cacheLock c"
  by (auto simp: close_pending_def split: option.splits if_splits)

lemma cache_fits_ops:
  assumes "cache_fits s c"
  shows "cache_fits s (snd (ProxyCache_Get now h k c))" "cache_fits s (c\<lparr>pc_entries := es\<rparr>)"
    "cache_fits s (snd (SetValidationHeaders h k lm et c))" "cache_fits s (snd (AcquireLockWithTimeout h t df c))"
  using assms lock_inv_cong [OF lock_part_ops(1)] lock_inv_cong [OF lock_part_ops(6)] lock_inv_cong [OF lock_part_ops(5)] lock_inv_acquire
  by (simp_all add: cache_fits_def cacheLock_ops)

lemma cache_fits_close:
  assumes "cache_fits s c"
  shows "\<exists>c'. close_pending h c = Inr c' \<and> cache_fits s c'"
  using assms lock_inv_close [of c h] cacheLock_close [of h c] by (auto simp: cache_fits_def)

lemma shift_cache: "ps_ok s \<Longrightarrow> cache_fits s c \<Longrightarrow> shift p 0 s (s\<lparr>ps_cache := Some c\<rparr>)"
  by (simp add: shift_def ps_ok_def cache_fits_def)

lemma shift_release:
  assumes "ps_ok s"
  shows "\<exists>s'. release_lock key s = Inr s' \<and> shift p 0 s s'"
proof (cases "ps_cache s")
  case None
  then show ?thesis using assms by (simp add: release_lock_def shift_refl)
next
  case (Some c)
  note own = cache_fits_own [OF assms Some]
  obtain c' where "ReleaseLock key c = Inr c'" "cache_fits s c'"
    using cache_fits_close [OF own, of key] own by (cases "cacheLock c") (auto simp: ReleaseLock_def)
  then show ?thesis using Some assms by (auto simp: release_lock_def intro: shift_cache)
qed

section \<open>Each stage balances its count\<close>

lemma shift_store:
  assumes "ps_ok s"
  shows "\<exists>b s'. store_stage px a host r resp s = Inr (b, s') \<and> shift p 0 s s'"
proof (cases "ps_cache s")
  case None
  then show ?thesis using shift_refl [OF assms] by (auto simp: store_stage_def)
next
  case (Some c)
  note own = cache_fits_own [OF assms Some]
  let ?cfg = "px_Cache (p_config px)"
  let ?k = "buildCacheKeyHashWithHost (cache_request_of r) host (cacheVaryHeaders (pcc_Vary ?cfg) (hdr_Peek (rs_Headers resp) ''Vary''))"
  let ?g = "ProxyCache_Get (d_now (ae_draw a)) (fst ?k) (snd ?k) c"
  have g: "cache_fits s (snd ?g)" by (rule cache_fits_ops(1) [OF own])
  have rel: "\<exists>s'. release_lock (fst ?k) (s\<lparr>ps_cache := Some c'\<rparr>) = Inr s' \<and> shift p 0 s s'" if "cache_fits s c'" for c'
    using shift_release [OF shift_ok [OF shift_cache [OF assms that]]] shift_trans [OF shift_cache [OF assms that]] by fastforce
  let ?hs = "collect_headers (p_cacheIgnoreSet px) (rs_Headers resp) Map.empty [] []"
  obtain c2 where c2: "ProxyCache_Set (d_now (ae_draw a)) (fst ?k) (snd ?k) (rs_Body resp) (fst ?hs) (rs_Status resp)
      (getCacheDuration (pcc_MaxAge ?cfg) (px_CacheValid (p_config px)) (rs_Status resp)) (snd ?g) = Inr c2" "cache_fits s c2"
    using cache_fits_close [OF cache_fits_ops(2) [OF g]] unfolding ProxyCache_Set_def by blast
  note c3 = cache_fits_ops(3) [OF c2(2)]
  obtain s0 s1 where r0: "release_lock (fst ?k) s = Inr s0" "shift p 0 s s0"
      and r1: "release_lock (fst ?k) (s\<lparr>ps_cache := Some (snd ?g)\<rparr>) = Inr s1" "shift p 0 s s1"
    using shift_release [OF assms, of "fst ?k" p] rel [OF g] by blast
  define d where "d = (if fst (snd ?hs) \<noteq> [] \<or> snd (snd ?hs) \<noteq> []
      then snd (SetValidationHeaders (fst ?k) (snd ?k) (fst (snd ?hs)) (snd (snd ?hs)) c2) else c2)"
  have "cache_fits s d" using c2(2) c3 by (simp add: d_def)
  then obtain s2 where r2: "release_lock (fst ?k) (s\<lparr>ps_cache := Some d\<rparr>) = Inr s2" "shift p 0 s s2" using rel by blast
  define few where "few = (case fst ?g of (Some entry, True, _) \<Rightarrow> pcc_MinUses ?cfg > 0 \<and> pe_Uses entry < pcc_MinUses ?cfg | _ \<Rightarrow> False)"
  have "store_stage px a host r resp s =
     (if MatchRule (hr_Path r) (hr_Method r) (rs_Status resp) c = None then Inr (False, s)
      else if \<not> (rs_Status resp \<ge> 200 \<and> rs_Status resp < 300) then Inr (True, s0)
      else if few then Inr (False, s1) else Inr (True, s2))"
    using Some r0(1) r1(1) r2(1) c2(1)
    by (simp add: store_stage_def Let_def case_prod_beta few_def d_def)
  then show ?thesis using r0(2) r1(2) r2(2) shift_refl [OF assms] by auto
qed

text \<open>No request waits without a limit: the lock has a positive timeout, or is not in use.\<close>

definition waits_bounded :: "Proxy \<Rightarrow> pstate \<Rightarrow> bool" where
  "waits_bounded px s \<longleftrightarrow> lock_timeout px > 0 \<or> lock_mode s \<noteq> Some True"

lemma waits_bounded_lock_mode: "lock_mode s' = lock_mode s \<Longrightarrow> waits_bounded px s' = waits_bounded px s"
  by (simp add: waits_bounded_def)

lemma bounded_acquire:
  assumes "waits_bounded px s" "cache_fits s c"
  shows "fst (fst (AcquireLockWithTimeout h (lock_timeout px) df c)) = None"
  using assms by (auto simp: waits_bounded_def cache_fits_def AcquireLockWithTimeout_def split: option.split)

lemma shift_hit:
  assumes "ps_ok s" "cache_fits s c"
  shows "shift p (- 1) s (upd_target p DecrementConnections (s\<lparr>ps_cache := Some c\<rparr>))"
  using shift_trans [OF shift_cache [OF assms] shift_count(2) [OF shift_ok [OF shift_cache [OF assms]]]] by simp

lemma shift_cache_stage:
  assumes "ps_ok s" "ps_cache s = Some c" "waits_bounded px s"
  obtains oc s' where "cache_stage e px a host client p r c s = Inr (Inl (oc, s'))" "shift p (- 1) s s'"
      "\<exists>entry h. oc_reply oc = Cached entry h"
    | s' where "cache_stage e px a host client p r c s = Inr (Inr s')" "shift p 0 s s'"
proof -
  note own = cache_fits_own [OF assms(1,2)]
  let ?now = "d_now (ae_draw a)" and ?cfg = "px_Cache (p_config px)"
  obtain hk ok where k: "buildCacheKeyHashWithHost (cache_request_of r) host (cacheVaryHeaders (pcc_Vary ?cfg) []) = (hk, ok)"
    by fastforce
  obtain e1 b1 st1 c1 where g: "ProxyCache_Get ?now hk ok c = ((e1, b1, st1), c1)" by (metis prod.exhaust_sel)
  have c1: "cache_fits s c1" using cache_fits_ops(1) [OF own, of ?now hk ok] g by simp
  obtain tmo c2 where q: "AcquireLockWithTimeout hk (lock_timeout px) (ae_done_first a) c1 = ((None, tmo), c2)"
    using bounded_acquire [OF assms(3) c1, of hk "ae_done_first a"] by (metis prod.exhaust_sel)
  have c2: "cache_fits s c2" using cache_fits_ops(4) [OF c1, of hk "lock_timeout px" "ae_done_first a"] q by simp
  note hit = shift_hit [OF assms(1) c1] shift_hit [OF assms(1) cache_fits_ops(2) [OF c1]]
    and go = shift_refl [OF assms(1)] shift_cache [OF assms(1) c2]
  consider (unmatched) "MatchRule (hr_Path r) (hr_Method r) 0 c = None"
    | (hit) entry where "MatchRule (hr_Path r) (hr_Method r) 0 c \<noteq> None" "e1 = Some entry" "b1"
    | (miss) "MatchRule (hr_Path r) (hr_Method r) 0 c \<noteq> None" "e1 = None \<or> \<not> b1" by (cases e1) auto
  then show thesis
  proof cases
    case unmatched
    show thesis by (rule that(2) [OF _ go(1)]) (simp add: cache_stage_def unmatched)
  next
    case (hit entry)
    show thesis
    proof (cases "st1 \<and> \<not> pcc_BackgroundUpdateDisable ?cfg")
      case True
      show thesis by (rule that(1) [OF _ shift_hit [OF assms(1) cache_fits_ops(2) [OF c1]] cached_reply_is [of e px r client entry]])
        (use hit True in \<open>simp_all add: cache_stage_def Let_def k g\<close>)
    next
      case False
      show thesis by (rule that(1) [OF _ shift_hit [OF assms(1) c1] cached_reply_is [of e px r client entry]])
        (use hit False in \<open>auto simp: cache_stage_def Let_def k g\<close>)
    qed
  next
    case miss
    show thesis
      by (rule that(2) [OF _ go(2)]) (use miss in \<open>cases e1; cases b1; auto simp: cache_stage_def Let_def k g q\<close>)
  qed
qed

text \<open>With a negative timeout the wait on a lock that is never released does not end.\<close>

lemma negative_timeout_blocks:
  assumes "MatchRule (hr_Path r) (hr_Method r) 0 c \<noteq> None" and "lock_timeout px < 0" and "ae_wait a = None"
    and "buildCacheKeyHashWithHost (cache_request_of r) host (cacheVaryHeaders (pcc_Vary (px_Cache (p_config px))) []) = (hk, k)"
    and "cacheLock c" and "pc_entries c hk = None" and "pc_pending c hk = Some ch"
  shows "cache_stage e px a host client p r c s = Inl EndlessWait"
  using assms by (simp add: cache_stage_def Let_def ProxyCache_Get_def AcquireLockWithTimeout_def)

section \<open>What an attempt does\<close>

text \<open>An attempt gives up its target when there is no client for it, the upstream fails, or it answers with a
  status of the retry list.\<close>

definition retryable :: "int list \<Rightarrow> upstream \<Rightarrow> bool" where
  "retryable codes u \<longleftrightarrow> (case u of UpResponse resp \<Rightarrow> rs_Status resp \<in> set codes | _ \<Rightarrow> True)"

definition gave_up :: "Proxy \<Rightarrow> int list \<Rightarrow> (nat \<Rightarrow> attempt_env) \<Rightarrow> (ptr \<Rightarrow> string) \<Rightarrow> ptr list \<Rightarrow> nat \<Rightarrow> bool" where
  "gave_up px codes env url ps i \<longleftrightarrow> getClient px (url (ps ! i)) = None \<or> retryable codes (ae_upstream (env i))"

text \<open>\<open>resp'\<close> forwards the upstream's \<open>resp\<close>: the status and the body are its own, and the headers went through the
  redirect rewriter and the configured changes, except that with a cache they may be the upstream's, unchanged.\<close>

definition forwards :: "request_env \<Rightarrow> Proxy \<Rightarrow> bool \<Rightarrow> string \<Rightarrow> response \<Rightarrow> response \<Rightarrow> bool" where
  "forwards e px cached url resp resp' \<longleftrightarrow> rs_Status resp' = rs_Status resp \<and> rs_Body resp' = rs_Body resp
     \<and> (cached \<and> resp' = resp \<or> (\<exists>client r. resp' = final_response e px url client r resp))"

fun step_ok :: "request_env \<Rightarrow> Proxy \<Rightarrow> bool \<Rightarrow> attempt_env \<Rightarrow> nat \<Rightarrow> nat \<Rightarrow> int list \<Rightarrow> string \<Rightarrow> step \<Rightarrow> bool" where
  "step_ok e px cached a n m codes url (Finished oc s) \<longleftrightarrow>
     (\<forall>resp'. oc_reply oc = Forwarded resp' \<longrightarrow> (\<exists>resp. ae_upstream a = UpResponse resp \<and> forwards e px cached url resp resp'
        \<and> oc_upstreamAddr oc = url \<and> oc_upstreamStatus oc = rs_Status resp \<and> (rs_Status resp \<in> set codes \<longrightarrow> m \<le> n + 1)))
     \<and> (\<forall>code msg. oc_reply oc = GatewayError code msg \<longrightarrow> code = 502 \<and> msg = ''Bad Gateway: invalid proxy path'')"
| "step_ok e px cached a n m codes url (Continue r err addr status s) \<longleftrightarrow>
     (getClient px url = None \<or> retryable codes (ae_upstream a)) \<and> (err = Some UpTimeout \<longrightarrow> ae_upstream a = UpTimeout)"

lemma final_response_keeps:
  "rs_Status (final_response e px url client r resp) = rs_Status resp"
  "rs_Body (final_response e px url client r resp) = rs_Body resp"
  by (simp_all add: final_response_def modifyResponseHeaders_def RewriteResponse_def RewriteRefreshOnly_def Let_def)

lemma forwards_final: "forwards e px cached url resp (final_response e px url client r resp)"
  by (auto simp: forwards_def final_response_keeps)

lemma forwards_same: "forwards e px True url resp resp"
  by (simp add: forwards_def)

lemma store_stage_early: "store_stage px a host r resp s = Inr (False, s') \<Longrightarrow> lock_mode s \<noteq> None"
  by (auto simp: store_stage_def lock_mode_def split: option.splits)

text \<open>The state an attempt ends in.\<close>

fun step_state :: "step \<Rightarrow> pstate" where
  "step_state (Finished oc s) = s"
| "step_state (Continue r err addr status s) = s"

lemma shift_error_stage:
  assumes "ps_ok s"
  shows "\<exists>st. error_stage e px a n host p r err s = Inr st \<and> shift p (- 1) s (step_state st)"
proof -
  let ?now = "d_now (ae_draw a)"
  let ?d = "upd_target p DecrementConnections s" let ?s = "mark_unhealthy ?now p ?d"
  have d: "shift p (- 1) s ?d" by (rule shift_count(2) [OF assms])
  have m: "shift p (- 1) s ?s" using shift_trans [OF d shift_mark(1) [OF shift_ok [OF d]]] by simp
  have rel: "\<exists>s'. release_lock k ?s = Inr s' \<and> shift p (- 1) s s'" for k
    using shift_release [OF shift_ok [OF m], of k p] shift_trans [OF m, of 0] by force
  show ?thesis
  proof (cases "ps_cache ?s")
    case None
    then show ?thesis using m by (simp add: error_stage_def Let_def case_prod_beta)
  next
    case (Some c)
    let ?k = "buildCacheKeyHashWithHost (cache_request_of r) host (cacheVaryHeaders (pcc_Vary (px_Cache (p_config px))) [])"
    obtain s' where "release_lock (fst ?k) ?s = Inr s'" "shift p (- 1) s s'" using rel by blast
    then show ?thesis using Some m
      by (cases "GetStale ?now (fst ?k) (snd ?k) (is_timeout err) c") (auto simp: error_stage_def Let_def case_prod_beta)
  qed
qed

lemma shift_success_stage:
  assumes "ps_ok s" "ae_upstream a = UpResponse resp"
  shows "\<exists>st. success_stage e px a n m codes host client p r resp status s = Inr st \<and> shift p (- 1) s (step_state st)
    \<and> step_ok e px (lock_mode s \<noteq> None) a n m codes (URL (heap (ps_st s) p)) st"
proof -
  let ?now = "d_now (ae_draw a)"
  let ?t = "record_time p (ae_headerTime a) 0 s" let ?d = "upd_target p DecrementConnections ?t"
  let ?s = "upd_target p RecordSuccess ?d"
  have t: "shift p 0 s ?t" by (rule shift_record_time [OF assms(1)])
  have d: "shift p (- 1) s ?d" using shift_trans [OF t shift_count(2) [OF shift_ok [OF t]]] by simp
  have s: "shift p (- 1) s ?s" using shift_trans [OF d shift_count(3) [OF shift_ok [OF d]]] by simp
  define key where "key = fst (buildCacheKeyHashWithHost (cache_request_of r) host (cacheVaryHeaders (pcc_Vary (px_Cache (p_config px))) []))"
  obtain s1 where s1: "(if rs_Status resp \<in> set codes \<and> n = 0 then release_lock key ?s else Inr ?s) = Inr s1" "shift p (- 1) s s1"
  proof (cases "rs_Status resp \<in> set codes \<and> n = 0")
    case True
    obtain s1 where "release_lock key ?s = Inr s1" "shift p 0 ?s s1" using shift_release [OF shift_ok [OF s]] by blast
    then show thesis using that True shift_trans [OF s, of 0 s1] by simp
  next
    case False
    show thesis by (rule that [of ?s]) (simp_all only: if_not_P [OF False] s)
  qed
  have u: "shift p (- 1) s (mark_unhealthy ?now p s1)" using shift_trans [OF s1(2) shift_mark(1) [OF shift_ok [OF s1(2)]]] by simp
  define s2 where "s2 = (if n > 0 then mark_healthy_target ?now p s1 else s1)"
  have s2: "shift p (- 1) s s2" using s1(2) shift_trans [OF s1(2) shift_mark(2) [OF shift_ok [OF s1(2)]]] by (simp add: s2_def)
  obtain b s3 where s3: "store_stage px a host r resp s2 = Inr (b, s3)" "shift p 0 s2 s3"
    using shift_store [OF shift_ok [OF s2]] by blast
  have s3': "shift p (- 1) s s3" using shift_trans [OF s2 s3(2)] by simp
  have early: "lock_mode s \<noteq> None" if "\<not> b" using store_stage_early [of px a host r resp s2 s3] s3(1) s2 that by (simp add: shift_def)
  have s4: "shift p (- 1) s (record_time p x y s3)" for x y using shift_trans [OF s3' shift_record_time [OF shift_ok [OF s3']]] by simp
  show ?thesis
    using s s1(1) u s3(1) s3' s4 early assms(2)
    unfolding success_stage_def Let_def key_def [symmetric]
    by (cases "hdr_Peek (rs_Headers resp) ''X-Accel-Redirect'' = []"; cases "rs_Status resp \<in> set codes \<and> n + 1 < m"; cases b)
      (auto simp: s2_def [symmetric] retryable_def forwards_final forwards_same)
qed

section \<open>One attempt\<close>

lemma error_stage_ok:
  "error_stage e px a n host p r err s = Inr st \<Longrightarrow> ae_upstream a = err \<Longrightarrow> \<forall>resp. err \<noteq> UpResponse resp
    \<Longrightarrow> step_ok e px cached a n m codes (URL (heap (ps_st s) p)) st"
  by (auto simp: error_stage_def Let_def retryable_def split: option.splits sum.splits prod.splits if_splits upstream.splits)

lemma serve_target_ok:
  assumes "ps_ok s" "waits_bounded px s"
  shows "\<exists>st. serve_target e px a n m codes host p r status addr s = Inr st \<and> shift p 0 s (step_state st)
    \<and> step_ok e px (lock_mode s \<noteq> None) a n m codes (URL (heap (ps_st s) p)) st"
proof (cases "getClient px (URL (heap (ps_st s) p)) = None")
  case True
  then show ?thesis using shift_mark(1) [OF assms(1)] by (simp add: serve_target_def Let_def)
next
  case client: False
  let ?t = "heap (ps_st s) p" let ?u = "URL ?t"
  let ?s = "upd_target p IncrementConnections s"
  have s: "shift p 1 s ?s" by (rule shift_count(1) [OF assms(1)])
  then have url: "URL (heap (ps_st ?s) p) = ?u" and mode: "lock_mode ?s = lock_mode s" by (simp_all add: shift_def)
  have dec: "shift p 0 s (upd_target p DecrementConnections ?s)" using shift_trans [OF s shift_count(2) [OF shift_ok [OF s]]] by simp
  let ?r1 = "modifyRequestHeaders (re_expand e r) (px_Headers (p_config px)) ?u r"
  let ?path = "if ProxyURI ?t \<noteq> [] then ProxyURI ?t else hr_Path ?r1"
  let ?r2 = "set_request_uri e (target_uri ?u ?path (hr_Query ?r1)) ?r1"
  consider "isWebSocketRequest r \<or> dangerous_path ?path" | (go) "\<not> isWebSocketRequest r" "\<not> dangerous_path ?path" by blast
  then show ?thesis
  proof cases
    case 1
    then show ?thesis using client dec by (auto simp: serve_target_def Let_def)
  next
    case go
    define cs where "cs = (case ps_cache ?s of
      Some c \<Rightarrow> (if n = 0 then cache_stage e px a host (hr_Host r) p ?r2 c ?s else Inr (Inr ?s)) | None \<Rightarrow> Inr (Inr ?s))"
    have unf: "serve_target e px a n m codes host p r status addr s =
        (case cs of Inl pe \<Rightarrow> Inl pe
         | Inr (Inl (oc, s')) \<Rightarrow> Inr (Finished oc s')
         | Inr (Inr s') \<Rightarrow> (case ae_upstream a of
             UpResponse resp \<Rightarrow> success_stage e px a n m codes host (hr_Host r) p ?r2 resp status s'
           | err \<Rightarrow> error_stage e px a n host p ?r2 err s'))"
      by (simp only: serve_target_def Let_def cs_def if_not_P [OF client] if_not_P [OF go(1)] if_not_P [OF go(2)])
    consider (hit) oc s' entry h where "cs = Inr (Inl (oc, s'))" "shift p (- 1) ?s s'" "oc_reply oc = Cached entry h"
      | (miss) s' where "cs = Inr (Inr s')" "shift p 0 ?s s'"
    proof (cases "n = 0 \<and> ps_cache ?s \<noteq> None")
      case True
      then obtain c where c: "ps_cache ?s = Some c" by blast
      have cs: "cs = cache_stage e px a host (hr_Host r) p ?r2 c ?s" using True c by (simp add: cs_def)
      have w: "waits_bounded px ?s" using assms(2) waits_bounded_lock_mode [OF mode] by simp
      show thesis
        by (rule shift_cache_stage [OF shift_ok [OF s] c w, of e a host "hr_Host r" p ?r2]) (use cs hit miss in \<open>auto\<close>)
    next
      case False
      then have "cs = Inr (Inr ?s)" by (auto simp: cs_def split: option.splits)
      then show thesis using miss shift_refl [OF shift_ok [OF s]] by simp
    qed
    then show ?thesis
    proof cases
      case (hit oc s')
      then show ?thesis using unf shift_trans [OF s, of "- 1"] by simp
    next
      case (miss s')
      then have u': "URL (heap (ps_st s') p) = ?u" "lock_mode s' = lock_mode s" using url mode by (simp_all add: shift_def)
      have fin: "shift p 0 s x" if "shift p (- 1) s' x" for x
        using shift_trans [OF s shift_trans [OF miss(2) that]] by simp
      show ?thesis
      proof (cases "\<exists>resp. ae_upstream a = UpResponse resp")
        case True
        then obtain resp where resp: "ae_upstream a = UpResponse resp" by blast
        obtain st where st: "success_stage e px a n m codes host (hr_Host r) p ?r2 resp status s' = Inr st"
            "shift p (- 1) s' (step_state st)" "step_ok e px (lock_mode s' \<noteq> None) a n m codes (URL (heap (ps_st s') p)) st"
          using shift_success_stage [OF shift_ok [OF miss(2)] resp] by blast
        then show ?thesis using unf miss(1) resp fin u' by simp
      next
        case False
        obtain st where st: "error_stage e px a n host p ?r2 (ae_upstream a) s' = Inr st" "shift p (- 1) s' (step_state st)"
          using shift_error_stage [OF shift_ok [OF miss(2)]] by blast
        then have "serve_target e px a n m codes host p r status addr s = Inr st" using unf miss(1) False by (cases "ae_upstream a") auto
        then show ?thesis using st fin error_stage_ok [OF st(1) refl] u'(1) False by auto
      qed
    qed
  qed
qed

section \<open>The whole loop\<close>

abbreviation url_of :: "pstate \<Rightarrow> ptr \<Rightarrow> string" where
  "url_of s \<equiv> target_url (ps_balancer s, ps_st s)"

text \<open>\<open>served\<close> is what the loop promises of its outcome and of the targets it attempted.\<close>

definition served ::
  "request_env \<Rightarrow> Proxy \<Rightarrow> bool \<Rightarrow> int list \<Rightarrow> (nat \<Rightarrow> attempt_env) \<Rightarrow> nat \<Rightarrow> (ptr \<Rightarrow> string) \<Rightarrow> outcome \<Rightarrow> ptr list \<Rightarrow> bool" where
  "served e px cached codes env maxTries url oc ps \<longleftrightarrow>
     length ps \<le> maxTries \<and> distinct (map url ps) \<and> (\<forall>i. i + 1 < length ps \<longrightarrow> gave_up px codes env url ps i)
     \<and> (\<forall>resp'. oc_reply oc = Forwarded resp' \<longrightarrow> ps \<noteq> [] \<and>
          (\<exists>resp. ae_upstream (env (length ps - 1)) = UpResponse resp \<and> forwards e px cached (url (last ps)) resp resp'
             \<and> oc_upstreamAddr oc = url (last ps) \<and> oc_upstreamStatus oc = rs_Status resp
             \<and> (rs_Status resp \<in> set codes \<longrightarrow> length ps = maxTries)))
     \<and> (\<forall>code msg. oc_reply oc = GatewayError code msg \<longrightarrow>
          code = 502 \<and> msg = ''Bad Gateway: invalid proxy path'' \<or> (\<forall>i < length ps. gave_up px codes env url ps i))
     \<and> (\<forall>msg. oc_reply oc = GatewayError 504 msg \<longrightarrow> (\<exists>i < length ps. ae_upstream (env i) = UpTimeout))"

lemma select_attempt_ok:
  assumes "ps_ok s" "n = length ps" "distinct (map (url_of s) ps)"
  shows "\<exists>t s1. select_attempt e px a n r ps s = Inr (t, s1) \<and> ps_ok s1 \<and> frame (heap (ps_st s)) (heap (ps_st s1)) \<and> lock_mode s1 = lock_mode s
    \<and> (\<forall>p. t = Some p \<longrightarrow> distinct (map (url_of s) (ps @ [p])))"
proof (cases "n = 0")
  case True
  obtain t b fb st ck where sel: "selectTarget (px_BalancerByLua (p_config px)) (p_luaEngine px) (ae_lua a) (ae_draw a) (re_cookies e) r
      (ps_balancer s) (ps_fallback s) (ps_st s) (p_targets px) = (t, b, fb, st, ck)" by (metis prod.exhaust_sel)
  then have "sel_step (ps_balancer s, ps_st s) (b, st) \<and> sel_inv (fb, st)" using selectTarget_step [OF _ _ sel] assms(1) by (simp add: ps_ok_def)
  then show ?thesis using True assms sel by (simp add: select_attempt_def ps_ok_def sel_step_def lock_mode_def)
next
  case False
  let ?s = "(ps_balancer s, ps_st s)"
  obtain q b st where sel: "selectTargetExcluding (ae_draw a) r (ps_balancer s) (ps_st s) (p_targets px) (map Some ps) = (q, b, st)"
    by (metis prod.exhaust_sel)
  have inv: "sel_inv ?s" using assms(1) by (simp add: ps_ok_def)
  obtain t where t: "q = Inr t" using failover.pick_total [OF inv, of "ae_draw a" r "p_targets px" "map Some ps"] sel by auto
  have "sel_step ?s (b, st)" using selectTargetExcluding_ok [OF inv, of "map Some ps" "ae_draw a" r "p_targets px"] sel by (simp add: excl_ok_def)
  moreover have "distinct (map (url_of s) (ps @ [p]))" if "t = Some p" for p
    using failover.pick_distinct [OF inv, of "ae_draw a" r "p_targets px" ps p] failover.pick_url [OF inv, of "ae_draw a" r "p_targets px" "map Some ps"]
      sel t that assms(3) by simp
  ultimately show ?thesis using False assms(1) sel t by (simp add: select_attempt_def ps_ok_def sel_step_def sel_inv_def lock_mode_def)
qed

lemma served_failed:
  assumes "length ps \<le> m" "distinct (map url ps)" "\<forall>i < length ps. gave_up px codes env url ps i"
    and "lastErr = Some UpTimeout \<longrightarrow> (\<exists>i < length ps. ae_upstream (env i) = UpTimeout)"
  shows "served e px cached codes env m url (all_failed lastErr addr) ps"
  using assms by (auto simp: served_def all_failed_def split: option.splits upstream.splits)

lemma gave_up_snoc: "i < length ps \<Longrightarrow> gave_up px codes env url (ps @ [p]) i = gave_up px codes env url ps i"
  by (simp add: gave_up_def nth_append)

lemma url_of_frame: "frame (heap (ps_st s)) (heap (ps_st s')) \<Longrightarrow> url_of s' = url_of s"
  by (auto simp: frame_def target_url_def)

lemma serve_loop_ok:
  "ps_ok s \<Longrightarrow> waits_bounded px s \<Longrightarrow> lock_mode s \<noteq> None \<longleftrightarrow> cached \<Longrightarrow> n = length ps \<Longrightarrow> n + fuel = m
    \<Longrightarrow> distinct (map (url_of s) ps) \<Longrightarrow> \<forall>i < length ps. gave_up px codes env (url_of s) ps i
    \<Longrightarrow> lastErr = Some UpTimeout \<longrightarrow> (\<exists>i < length ps. ae_upstream (env i) = UpTimeout)
    \<Longrightarrow> \<exists>oc qs s'. serve_loop e px env m codes host fuel n r lastErr addr status ps s = Inr (oc, qs, s')
         \<and> served e px cached codes env m (url_of s) oc qs \<and> ps_ok s' \<and> lock_mode s' = lock_mode s
         \<and> frame (heap (ps_st s)) (heap (ps_st s'))"
proof (induction fuel arbitrary: n r lastErr addr status ps s)
  case 0
  then show ?case using served_failed [of ps m "url_of s"] by simp
next
  case (Suc fuel)
  obtain t s1 where sel: "select_attempt e px (env n) n r ps s = Inr (t, s1)" "ps_ok s1" "frame (heap (ps_st s)) (heap (ps_st s1))"
      "lock_mode s1 = lock_mode s" "\<And>p. t = Some p \<Longrightarrow> distinct (map (url_of s) (ps @ [p]))"
    using select_attempt_ok [OF Suc.prems(1,4,6)] by blast
  show ?case
  proof (cases t)
    case None
    have "served e px cached codes env m (url_of s) \<lparr>oc_reply = GatewayError 502 msg, oc_upstreamAddr = x, oc_upstreamStatus = 502\<rparr> []" for msg x
      by (simp add: served_def)
    then show ?thesis using None sel Suc.prems served_failed [of ps m "url_of s" px codes env lastErr e cached addr] by simp
  next
    case (Some p)
    have up: "URL (heap (ps_st s1) p) = url_of s p" using sel(3) by (simp add: frame_def target_url_def)
    have w: "waits_bounded px s1" using Suc.prems(2) waits_bounded_lock_mode [OF sel(4)] by simp
    obtain st where st: "serve_target e px (env n) n m codes host p r status addr s1 = Inr st" "shift p 0 s1 (step_state st)"
        "step_ok e px cached (env n) n m codes (url_of s p) st"
      using serve_target_ok [OF sel(2) w, of e "env n" n m codes host p r status addr] Suc.prems(3) unfolding up sel(4) by blast
    have fr: "frame (heap (ps_st s)) (heap (ps_st (step_state st)))"
      using sel(3) st(2) by (simp add: shift_def frame_def)
    have ok2: "ps_ok (step_state st)" by (rule shift_ok [OF st(2)])
    have mode: "lock_mode (step_state st) = lock_mode s" using st(2) sel(4) by (simp add: shift_def)
    have u2: "url_of (step_state st) = url_of s" by (rule url_of_frame [OF fr])
    have d: "distinct (map (url_of s) (ps @ [p]))" by (rule sel(5) [OF Some])
    show ?thesis
    proof (cases st)
      case (Finished oc s2)
      have "served e px cached codes env m (url_of s) oc (ps @ [p])"
        using st(3) Finished Suc.prems d by (auto simp: served_def gave_up_snoc)
      then show ?thesis using sel(1) Some st(1) Finished ok2 fr mode by simp
    next
      case (Continue r' err addr' status' s2)
      have "\<exists>oc qs s'. serve_loop e px env m codes host fuel (n + 1) r' (case err of None \<Rightarrow> lastErr | Some _ \<Rightarrow> err) addr' status' (ps @ [p]) s2
          = Inr (oc, qs, s') \<and> served e px cached codes env m (url_of s2) oc qs \<and> ps_ok s' \<and> lock_mode s' = lock_mode s2
          \<and> frame (heap (ps_st s2)) (heap (ps_st s'))"
      proof (rule Suc.IH)
        show "\<forall>i < length (ps @ [p]). gave_up px codes env (url_of s2) (ps @ [p]) i"
          using Suc.prems st(3) Continue u2 by (auto simp: less_Suc_eq gave_up_snoc) (auto simp: gave_up_def)
        show "(case err of None \<Rightarrow> lastErr | Some _ \<Rightarrow> err) = Some UpTimeout \<longrightarrow> (\<exists>i < length (ps @ [p]). ae_upstream (env i) = UpTimeout)"
          using Suc.prems st(3) Continue by (auto simp: less_Suc_eq split: option.splits)
        show "waits_bounded px s2" using Suc.prems(2) waits_bounded_lock_mode [OF mode] Continue by simp
      qed (use Suc.prems ok2 d u2 mode Continue in simp_all)
      then show ?thesis using sel(1) Some st(1) Continue u2 mode frame_trans [OF fr] by fastforce
    qed
  qed
qed

lemma serve_http_loop:
  assumes "ps_ok s" and "waits_bounded px s"
  shows "\<exists>oc ps s'. ServeHTTP e px env r s = Inr (oc, ps, s')
    \<and> served e px (ps_cache s \<noteq> None) (retry_codes px) env (max_tries px) (url_of s) oc ps \<and> ps_ok s'
    \<and> lock_mode s' = lock_mode s \<and> frame (heap (ps_st s)) (heap (ps_st s'))"
  unfolding ServeHTTP_def by (rule serve_loop_ok [OF assms]) (simp_all add: lock_mode_def)

text \<open>A proxy over the three targets of \<open>example_state\<close> with two tries, whose upstreams never answer in time.\<close>

definition demo_proxy :: Proxy where
  "demo_proxy =
     \<lparr>p_config = zero_ProxyConfig\<lparr>px_NextUpstream := \<lparr>nu_HTTPCodes = [], nu_Tries = 2\<rparr>,
        px_Cache := (px_Cache zero_ProxyConfig)\<lparr>pcc_CacheLock := True\<rparr>\<rparr>, p_targets = [10, 20, 30],
      p_clients = init_clients zero_ProxyConfig None example_heap [10, 20, 30] Map.empty, p_luaEngine = False,
      p_redirectRewriter = \<lparr>rw_proxyPath = ''/'', rw_mode = ''off'', rw_rules = []\<rparr>, p_cacheIgnoreSet = []\<rparr>"

definition demo_pstate :: pstate where
  "demo_pstate = \<lparr>ps_balancer = LB_RoundRobin NewRoundRobin, ps_fallback = LB_RoundRobin NewRoundRobin, ps_st = example_state,
     ps_cache = Some (NewProxyCache [] True 0 0 0), ps_health = None, ps_cookie = None\<rparr>"

definition demo_attempt :: "nat \<Rightarrow> attempt_env" where
  "demo_attempt i = \<lparr>ae_draw = \<lparr>d_now = int i, d_ri = 0, d_rj = 0\<rparr>, ae_lua = LuaNone, ae_upstream = UpTimeout, ae_websocket = False,
     ae_done_first = True, ae_wait = None, ae_headerTime = 0, ae_lastByteTime = 0\<rparr>"

definition demo_request_env :: request_env where
  "demo_request_env = \<lparr>re_cookies = (\<lambda>_. []), re_expand = (\<lambda>_ t. t), re_index = (\<lambda>_ _. None), re_parse = (\<lambda>_. (''a'', ''/a'', []))\<rparr>"

lemma demo_ok: "ps_ok demo_pstate" "waits_bounded demo_proxy demo_pstate"
  by (simp_all add: ps_ok_def sel_inv_def demo_pstate_def lock_inv_def NewProxyCache_def waits_bounded_def lock_timeout_def
      demo_proxy_def Let_def zero_ProxyConfig_def zero_ProxyCacheConfig_def)



text \<open>No path through a request leaks a connection count: hits, waits on the cache lock, tunnels, refused paths,
  errors, retries, internal redirects and forwarded responses all leave the count of every target as they
  found it.\<close>

theorem serve_http_balances_connections:
  assumes "ps_ok s" and "waits_bounded px s" and "ServeHTTP e px env r s = Inr (oc, ps, s')"
  shows "Connections (heap (ps_st s') p) = Connections (heap (ps_st s) p)"
proof -
  have "frame (heap (ps_st s)) (heap (ps_st s'))"
    using serve_http_loop [OF assms(1,2), of e env r] assms(3) by auto
  then show ?thesis by (simp add: frame_def)
qed

theorem serve_http_balances_connections_witness:
  "\<exists>oc ps s'. ServeHTTP demo_request_env demo_proxy demo_attempt demo_http_request demo_pstate = Inr (oc, ps, s')
     \<and> Connections (heap (ps_st s') 10) = Connections (example_heap 10)"
proof -
  obtain oc ps s' where run: "ServeHTTP demo_request_env demo_proxy demo_attempt demo_http_request demo_pstate = Inr (oc, ps, s')"
    using serve_http_loop [OF demo_ok] by blast
  show ?thesis using run serve_http_balances_connections [OF demo_ok run, of 10] by (auto simp: demo_pstate_def)
qed

section \<open>What reaches the client\<close>








text \<open>With a cache, a response that no cache rule matches is forwarded as the upstream sent it.\<close>

lemma unmatched_reply_unfiltered:
  assumes "ps_cache s = Some c" and "MatchRule (hr_Path r) (hr_Method r) (rs_Status resp) c = None"
  shows "store_stage px a host r resp s = Inr (False, s)"
  using assms by (simp add: store_stage_def)

section \<open>A proxy from its construction on\<close>

lemma ring_ok_NewConsistentHash: "ring_ok (NewConsistentHash n k)"
  by (simp add: NewConsistentHash_def ring_ok_def)

lemma createBalancerByName_ok:
  assumes "createBalancerByName name cfg = Some (Inr b)"
  shows "lb_ok b"
proof -
  have plain: "lb_ok b" if "createBalancerByName nm cfg = Some (Inr b)" "nm \<noteq> ''sticky''" for nm b
  proof -
    have "IsValidAlgorithm nm" using that createBalancerByName_unknown [of nm cfg] by auto
    then show ?thesis
      using that unfolding IsValidAlgorithm_iff
      by (elim disjE) (subst (asm) createBalancerByName.simps, auto simp: ring_ok_NewConsistentHash)+
  qed
  show ?thesis
  proof (cases "name = ''sticky''")
    case True
    let ?f = "if psc_FallbackAlgo (px_Sticky cfg) = [] then ''round_robin'' else psc_FallbackAlgo (px_Sticky cfg)"
    have "psc_FallbackAlgo (px_Sticky cfg) \<noteq> ''sticky''" using createBalancerByName_sticky_fallback [OF assms] True by simp
    then have ne: "?f \<noteq> ''sticky''" by simp
    obtain q where q: "createBalancerByName ?f cfg = Some q" "(case q of Inl e \<Rightarrow> Inl (StickyFallback e)
        | Inr f \<Rightarrow> Inr (LB_Sticky (Sticky_Start (NewStickySession (sticky_settings (psc_cookie (px_Sticky cfg))))) f)) = Inr b"
      using assms unfolding True createBalancerByName_sticky Option.bind_eq_Some_conv by blast
    then obtain s f where "createBalancerByName ?f cfg = Some (Inr f)" "b = LB_Sticky s f" by (cases q) auto
    then show ?thesis using plain [OF _ ne] by simp
  qed (use assms plain in blast)
qed

text \<open>A configured cache lock has a timeout that is not negative, so that waiting for it ends.\<close>

definition lock_timeout_ok :: "ProxyConfig \<Rightarrow> bool" where
  "lock_timeout_ok cfg \<longleftrightarrow> pcc_Enabled (px_Cache cfg) \<and> pcc_CacheLock (px_Cache cfg) \<longrightarrow> 0 \<le> pcc_CacheLockTimeout (px_Cache cfg)"

lemma NewProxy_ok:
  assumes "NewProxy x cfg targets tc lua st = Some (Inr (px, s))" "pool_clean st"
  shows "ps_ok s" "ps_st s = st" "lock_timeout_ok cfg \<Longrightarrow> waits_bounded px s"
proof -
  let ?fb = "if bl_Fallback (px_BalancerByLua cfg) = [] then ''round_robin'' else bl_Fallback (px_BalancerByLua cfg)"
  have ne: "targets \<noteq> []" using assms(1) by (auto simp: NewProxy_def)
  obtain r1 where r1: "createBalancerByName (px_LoadBalance cfg) cfg = Some r1"
    using assms(1) ne by (cases "createBalancerByName (px_LoadBalance cfg) cfg") (simp_all add: NewProxy_def createBalancer_def)
  obtain bal where bal: "r1 = Inr bal" using assms(1) ne r1 by (cases r1) (simp_all add: NewProxy_def createBalancer_def)
  obtain r2 where r2: "createBalancerByName ?fb cfg = Some r2"
    using assms(1) ne r1 bal by (cases "createBalancerByName ?fb cfg") (simp_all add: NewProxy_def createBalancer_def)
  obtain fb where fb: "r2 = Inr fb" using assms(1) ne r1 bal r2 by (cases r2) (simp_all add: NewProxy_def createBalancer_def)
  have s: "ps_balancer s = bal" "ps_fallback s = fb" "ps_st s = st" "ps_cache s \<in> {None, Some (NewProxyCache (proxy_rules cfg) (pcc_CacheLock (px_Cache cfg))
        (pcc_StaleWhileRevalidate (px_Cache cfg)) (pcc_StaleIfError (px_Cache cfg)) (pcc_StaleIfTimeout (px_Cache cfg)))}"
    using assms(1) ne r1 bal r2 fb
    by (cases "NewRedirectRewriter x (px_RedirectRewrite cfg) (px_Path cfg)"; auto simp: NewProxy_def createBalancer_def)+
  have px: "p_config px = cfg" "lock_mode s = (if pcc_Enabled (px_Cache cfg) then Some (pcc_CacheLock (px_Cache cfg)) else None)"
    using assms(1) ne r1 bal r2 fb
    by (cases "NewRedirectRewriter x (px_RedirectRewrite cfg) (px_Path cfg)"; auto simp: NewProxy_def createBalancer_def
        lock_mode_def NewProxyCache_def)+
  then show "lock_timeout_ok cfg \<Longrightarrow> waits_bounded px s"
    by (auto simp: lock_timeout_ok_def waits_bounded_def lock_timeout_def Let_def)
  have "lock_inv (NewProxyCache rules l a b c)" for rules l a b c by (simp add: lock_inv_def NewProxyCache_def)
  then show "ps_ok s" "ps_st s = st"
    using s assms(2) createBalancerByName_ok [OF r1 [unfolded bal]] createBalancerByName_ok [OF r2 [unfolded fb]]
    by (auto simp: ps_ok_def sel_inv_def)
qed

fun serve_all :: "request_env \<Rightarrow> Proxy \<Rightarrow> ((nat \<Rightarrow> attempt_env) \<times> request) list \<Rightarrow> pstate \<Rightarrow> go_panic + (outcome list \<times> pstate)" where
  "serve_all e px [] s = Inr ([], s)"
| "serve_all e px ((env, r) # rest) s =
     (case ServeHTTP e px env r s of
        Inl pe \<Rightarrow> Inl pe
      | Inr (oc, _, s') \<Rightarrow> (case serve_all e px rest s' of Inl pe \<Rightarrow> Inl pe | Inr (ocs, s'') \<Rightarrow> Inr (oc # ocs, s'')))"

lemma serve_all_ok:
  "ps_ok s \<Longrightarrow> waits_bounded px s \<Longrightarrow> \<exists>ocs s'. serve_all e px rs s = Inr (ocs, s') \<and> length ocs = length rs
     \<and> ps_ok s' \<and> frame (heap (ps_st s)) (heap (ps_st s'))"
proof (induction rs arbitrary: s)
  case (Cons x rs)
  obtain env r where x: "x = (env, r)" by (cases x)
  obtain oc ps s1 where one: "ServeHTTP e px env r s = Inr (oc, ps, s1)" "ps_ok s1" "lock_mode s1 = lock_mode s"
      "frame (heap (ps_st s)) (heap (ps_st s1))"
    using serve_http_loop [OF Cons.prems, of e env r] by blast
  obtain ocs s2 where rest: "serve_all e px rs s1 = Inr (ocs, s2)" "length ocs = length rs" "ps_ok s2"
      "frame (heap (ps_st s1)) (heap (ps_st s2))"
    using Cons.IH [OF one(2)] Cons.prems(2) waits_bounded_lock_mode [OF one(3)] by auto
  show ?case using one(1) rest x frame_trans [OF one(4) rest(4)] by simp
qed simp

text \<open>C5. A proxy that was built answers every sequence of requests, one outcome per request and without a panic or an
  endless wait, and after the sequence every target has the connection count it had when the proxy was built. The
  requests run one after the other; with the cache lock on, its timeout must not be negative. (The
  configuration check does not ask for that, and a response with \<open>X-Accel-Redirect\<close> keeps the lock.)\<close>

theorem new_proxy_serves:
  assumes "NewProxy x cfg targets tc lua st = Some (Inr (px, s))" and "pool_clean st" and "lock_timeout_ok cfg"
  shows "\<exists>ocs s'. serve_all e px rs s = Inr (ocs, s') \<and> length ocs = length rs
    \<and> (\<forall>p. Connections (heap (ps_st s') p) = Connections (heap st p))"
  using serve_all_ok [OF NewProxy_ok(1) [OF assms(1,2)] NewProxy_ok(3) [OF assms], of e rs] NewProxy_ok(2) [OF assms(1,2)]
  by (auto simp: frame_def)

definition plain_rx :: rx where
  "plain_rx = \<lparr>re_compile = (\<lambda>p. True), re_match = (\<lambda>p s. p = s), re_submatch = (\<lambda>p s. None), re_names = (\<lambda>p. [])\<rparr>"

theorem new_proxy_serves_witness:
  "\<exists>px s ocs s'. NewProxy plain_rx zero_ProxyConfig [10, 20, 30] None False example_state = Some (Inr (px, s))
     \<and> serve_all demo_request_env px [(demo_attempt, demo_http_request), (demo_attempt, demo_http_request)] s = Inr (ocs, s')
     \<and> length ocs = 2"
proof -
  have c: "createBalancerByName ''round_robin'' zero_ProxyConfig = Some (Inr (LB_RoundRobin NewRoundRobin))"
      "createBalancerByName [] zero_ProxyConfig = Some (Inr (LB_RoundRobin NewRoundRobin))"
    by (subst createBalancerByName.simps, simp)+
  obtain px s where n: "NewProxy plain_rx zero_ProxyConfig [10, 20, 30] None False example_state = Some (Inr (px, s))"
    using c by (simp add: NewProxy_def createBalancer_def zero_ProxyConfig_def NewRedirectRewriter_def)
  show ?thesis
    using n new_proxy_serves [OF n pool_clean_example, of demo_request_env "[(demo_attempt, demo_http_request), (demo_attempt, demo_http_request)]"]
    by (fastforce simp: lock_timeout_ok_def zero_ProxyConfig_def zero_ProxyCacheConfig_def simp del: serve_all.simps)
qed

end
