(* ===== verification/ServerConfig.thy ===== *)
theory ServerConfig
  imports Proxy RateLimit
begin

text \<open>
  The configuration tree outside the proxy entries: the types of \<^verbatim>\<open>internal/config/server_config.go\<close>,
  \<^verbatim>\<open>security_config.go\<close>, \<^verbatim>\<open>ssl_config.go\<close>, \<^verbatim>\<open>variable_config.go\<close>, \<^verbatim>\<open>performance_config.go\<close>,
  \<^verbatim>\<open>monitoring_config.go\<close> and \<^verbatim>\<open>cache_config.go\<close>, the type \<open>Config\<close> of \<^verbatim>\<open>config.go\<close> and the built-in configuration of
  \<^verbatim>\<open>defaults.go\<close>. A Go map that is only ranged over or merged is an association list without repeated keys.
\<close>

section \<open>Security\<close>

record CORSConfig =
  co_Enabled :: bool
  co_AllowedOrigins :: "string list"
  co_AllowedMethods :: "string list"
  co_AllowedHeaders :: "string list"
  co_ExposeHeaders :: "string list"
  co_AllowCredentials :: bool
  co_MaxAge :: int

record LimitRateConfig =
  lr_Rate :: int
  lr_Burst :: int
  lr_LargeFileThreshold :: int
  lr_LargeFileStrategy :: string

record User =
  us_Name :: string
  us_Password :: string

record AuthConfig =
  au_Type :: string
  au_Algorithm :: string
  au_Realm :: string
  au_Users :: "User list"
  au_MinPasswordLength :: int
  au_RequireTLS :: bool

record SecurityHeaders =
  sh_XFrameOptions :: string
  sh_XContentTypeOptions :: string
  sh_ContentSecurityPolicy :: string
  sh_ReferrerPolicy :: string
  sh_PermissionsPolicy :: string

record ErrorPageConfig =
  ep_Pages :: "(int \<times> string) list"
  ep_Default :: string
  ep_ResponseCode :: int

record AuthRequestConfig =
  ar_Headers :: "(string \<times> string) list"
  ar_URI :: string
  ar_Method :: string
  ar_ForwardHeaders :: "string list"
  ar_Timeout :: nanos
  ar_Enabled :: bool

record SecurityConfig =
  se_Headers :: SecurityHeaders
  se_Access :: AccessConfig
  se_ErrorPage :: ErrorPageConfig
  se_Auth :: AuthConfig
  se_AuthRequest :: AuthRequestConfig
  se_RateLimit :: RateLimitConfig
  se_CORS :: CORSConfig

section \<open>TLS\<close>

record HTTP2Config =
  h2_MaxConcurrentStreams :: int
  h2_MaxHeaderListSize :: int
  h2_IdleTimeout :: nanos
  h2_Enabled :: bool
  h2_PushEnabled :: bool
  h2_H2CEnabled :: bool
  h2_GracefulShutdownTimeout :: nanos
  h2_MaxBodySize :: int

record HSTSConfig =
  hs_MaxAge :: int
  hs_IncludeSubDomains :: bool
  hs_Preload :: bool

record SessionTicketsConfig =
  stc_KeyFile :: string
  stc_RotateInterval :: nanos
  stc_RetainKeys :: int
  stc_Enabled :: bool

record ClientVerifyConfig =
  cvc_Mode :: string
  cvc_ClientCA :: string
  cvc_CRL :: string
  cvc_VerifyDepth :: int
  cvc_Enabled :: bool

record SSLConfig =
  ssl_ClientVerify :: ClientVerifyConfig
  ssl_Cert :: string
  ssl_Key :: string
  ssl_CertChain :: string
  ssl_Protocols :: "string list"
  ssl_Ciphers :: "string list"
  ssl_SessionTickets :: SessionTicketsConfig
  ssl_HTTP2 :: HTTP2Config
  ssl_HSTS :: HSTSConfig
  ssl_OCSPStapling :: bool

section \<open>Handlers of a server\<close>

record RewriteRule =
  rwr_Pattern :: string
  rwr_Replacement :: string
  rwr_Flag :: string

record CompressionConfig =
  cm_Type :: string
  cm_Types :: "string list"
  cm_GzipStaticExtensions :: "string list"
  cm_Level :: int
  cm_MinSize :: int
  cm_GzipStatic :: bool

record LuaScriptConfig =
  ls_Path :: string
  ls_Phase :: string
  ls_Route :: string
  ls_RouteType :: string
  ls_Timeout :: nanos
  ls_Enabled :: bool

record LuaGlobalSettings =
  lg_MaxConcurrentCoroutines :: int
  lg_CoroutineTimeout :: nanos
  lg_CodeCacheSize :: int
  lg_MaxExecutionTime :: nanos
  lg_CoroutineStackSize :: int
  lg_CoroutinePoolWarmup :: int
  lg_EnableFileWatch :: bool
  lg_MinimizeStackMemory :: bool
  lg_LStatePoolInitialSize :: int
  lg_LStatePoolMaxSize :: int

record LuaMiddlewareConfig =
  lm_Scripts :: "LuaScriptConfig list"
  lm_GlobalSettings :: LuaGlobalSettings
  lm_Enabled :: bool

record StaticConfig =
  st_Path :: string
  st_Root :: string
  st_Alias :: string
  st_Index :: "string list"
  st_TryFiles :: "string list"
  st_TryFilesPass :: bool
  st_SymlinkCheck :: bool
  st_LocationType :: string
  st_Internal :: bool
  st_Expires :: string
  st_AutoIndex :: bool
  st_AutoIndexFormat :: string
  st_AutoIndexLocaltime :: bool
  st_AutoIndexExactSize :: bool

record TypesConfig =
  ty_DefaultType :: string
  ty_Map :: "(string \<times> string) list"

record UnixSocketConfig =
  ux_Mode :: int
  ux_User :: string
  ux_Group :: string

record CacheAPIConfig =
  ca_Auth :: CacheAPIAuthConfig
  ca_Path :: string
  ca_Allow :: "string list"
  ca_Enabled :: bool

record ServerConfig =
  sv_CacheAPI :: "CacheAPIConfig option"
  sv_Lua :: "LuaMiddlewareConfig option"
  sv_Static :: "StaticConfig list"
  sv_Proxy :: "ProxyConfig list"
  sv_Rewrite :: "RewriteRule list"
  sv_ClientMaxBodySize :: string
  sv_Name :: string
  sv_Listen :: string
  sv_Security :: SecurityConfig
  sv_Compression :: CompressionConfig
  sv_SSL :: SSLConfig
  sv_UnixSocket :: UnixSocketConfig
  sv_LimitRate :: LimitRateConfig
  sv_Types :: TypesConfig
  sv_ServerNames :: "string list"
  sv_ReadTimeout :: nanos
  sv_IdleTimeout :: nanos
  sv_WriteTimeout :: nanos
  sv_MaxRequestsPerConn :: int
  sv_MaxConnsPerIP :: int
  sv_Concurrency :: int
  sv_ReadBufferSize :: int
  sv_WriteBufferSize :: int
  sv_Default :: bool
  sv_ReduceMemoryUsage :: bool
  sv_ServerTokens :: bool

section \<open>Streams and globals\<close>

record StreamTarget =
  stt_Addr :: string
  stt_Weight :: int

record StreamUpstream =
  su_LoadBalance :: string
  su_Targets :: "StreamTarget list"

record StreamSSLConfig =
  sss_Cert :: string
  sss_Key :: string
  sss_ClientCA :: string
  sss_Protocols :: "string list"
  sss_Ciphers :: "string list"
  sss_VerifyDepth :: int
  sss_Enabled :: bool

record StreamProxySSLConfig =
  sps_TrustedCA :: string
  sps_ServerName :: string
  sps_Cert :: string
  sps_Key :: string
  sps_Protocols :: "string list"
  sps_Enabled :: bool
  sps_Verify :: bool
  sps_SessionReuse :: bool

record StreamConfig =
  sm_Listen :: string
  sm_Protocol :: string
  sm_Upstream :: StreamUpstream
  sm_ProxySSL :: StreamProxySSLConfig
  sm_SSL :: StreamSSLConfig

record HTTP3Config =
  h3_Listen :: string
  h3_MaxStreams :: int
  h3_IdleTimeout :: nanos
  h3_Enabled :: bool
  h3_Enable0RTT :: bool
  h3_MaxBodySize :: int

record GoroutinePoolConfig =
  gp_Enabled :: bool
  gp_MaxWorkers :: int
  gp_MinWorkers :: int
  gp_IdleTimeout :: nanos

record FileCacheConfig =
  fcc_MaxEntries :: int
  fcc_MaxSize :: int
  fcc_Inactive :: nanos

record PerformanceConfig =
  pf_GoroutinePool :: GoroutinePoolConfig
  pf_FileCache :: FileCacheConfig
  pf_Transport :: TransportConfig

record ShutdownConfig =
  sd_GracefulTimeout :: nanos
  sd_FastTimeout :: nanos
  sd_ReloadTimeout :: nanos

record ResolverConfig =
  rc_Addresses :: "string list"
  rc_Valid :: nanos
  rc_Timeout :: nanos
  rc_CacheSize :: int
  rc_Enabled :: bool
  rc_IPv4 :: bool
  rc_IPv6 :: bool

record endpoint =
  en_Path :: string
  en_Enabled :: bool

record PprofConfig =
  pp_Path :: string
  pp_Allow :: "string list"
  pp_Enabled :: bool

record StatusConfig =
  sta_Path :: string
  sta_Format :: string
  sta_Allow :: "string list"
  sta_Enabled :: bool

record MonitoringConfig =
  mo_Status :: StatusConfig
  mo_Pprof :: PprofConfig
  mo_Healthz :: endpoint
  mo_Readyz :: endpoint

record AccessLogConfig =
  al_Path :: string
  al_Format :: string
  al_SampleRate :: rat

record ErrorLogConfig =
  el_Path :: string
  el_Level :: string

record LoggingConfig =
  lo_Format :: string
  lo_Access :: AccessLogConfig
  lo_Error :: ErrorLogConfig

type_synonym ServerMode = string

record Config =
  cf_Mode :: ServerMode
  cf_Variables :: "(string \<times> string) list"
  cf_Logging :: LoggingConfig
  cf_Servers :: "ServerConfig list"
  cf_Stream :: "StreamConfig list"
  cf_Monitoring :: MonitoringConfig
  cf_HTTP3 :: HTTP3Config
  cf_Resolver :: ResolverConfig
  cf_Performance :: PerformanceConfig
  cf_Shutdown :: ShutdownConfig
  cf_Include :: "string list"

section \<open>Zero values\<close>

text \<open>The composite literals \<open>config.Config\<close>, \<open>config.ServerConfig\<close> and \<open>config.StaticConfig\<close> without fields.\<close>

definition zero_StaticConfig :: StaticConfig where
  "zero_StaticConfig =
     \<lparr>st_Path = [], st_Root = [], st_Alias = [], st_Index = [], st_TryFiles = [], st_TryFilesPass = False, st_SymlinkCheck = False, st_LocationType = [], st_Internal = False, st_Expires = [], st_AutoIndex = False, st_AutoIndexFormat = [], st_AutoIndexLocaltime = False, st_AutoIndexExactSize = False\<rparr>"

definition zero_SecurityHeaders :: SecurityHeaders where
  "zero_SecurityHeaders =
     \<lparr>sh_XFrameOptions = [], sh_XContentTypeOptions = [], sh_ContentSecurityPolicy = [],
      sh_ReferrerPolicy = [], sh_PermissionsPolicy = []\<rparr>"

definition zero_GeoIPConfig :: GeoIPConfig where
  "zero_GeoIPConfig =
     \<lparr>gc_Enabled = False, gc_Database = [], gc_CacheSize = 0, gc_CacheTTL = 0, gc_PrivateIPBehavior = [],
      gc_AllowCountries = [], gc_DenyCountries = [], gc_Default = []\<rparr>"

definition zero_AccessConfig :: AccessConfig where
  "zero_AccessConfig =
     \<lparr>ac_Allow = [], ac_Deny = [], ac_TrustedProxies = [], ac_Default = [], ac_GeoIP = zero_GeoIPConfig\<rparr>"

definition zero_ErrorPageConfig :: ErrorPageConfig where
  "zero_ErrorPageConfig =
     \<lparr>ep_Pages = [], ep_Default = [], ep_ResponseCode = 0\<rparr>"

definition zero_AuthConfig :: AuthConfig where
  "zero_AuthConfig =
     \<lparr>au_Type = [], au_Algorithm = [], au_Realm = [], au_Users = [], au_MinPasswordLength = 0,
      au_RequireTLS = False\<rparr>"

definition zero_AuthRequestConfig :: AuthRequestConfig where
  "zero_AuthRequestConfig =
     \<lparr>ar_Headers = [], ar_URI = [], ar_Method = [], ar_ForwardHeaders = [], ar_Timeout = 0, ar_Enabled = False\<rparr>"

definition zero_RateLimitConfig :: RateLimitConfig where
  "zero_RateLimitConfig =
     \<lparr>RequestRate = 0, Burst = 0, rlc_Key = [], Algorithm = [], SlidingWindow = 0, SlidingWindowMode = [], rlc_ConnLimit = 0\<rparr>"

definition zero_CORSConfig :: CORSConfig where
  "zero_CORSConfig =
     \<lparr>co_Enabled = False, co_AllowedOrigins = [], co_AllowedMethods = [], co_AllowedHeaders = [],
      co_ExposeHeaders = [], co_AllowCredentials = False, co_MaxAge = 0\<rparr>"

definition zero_SecurityConfig :: SecurityConfig where
  "zero_SecurityConfig =
     \<lparr>se_Headers = zero_SecurityHeaders, se_Access = zero_AccessConfig, se_ErrorPage =
      zero_ErrorPageConfig, se_Auth = zero_AuthConfig, se_AuthRequest = zero_AuthRequestConfig, se_RateLimit =
      zero_RateLimitConfig, se_CORS = zero_CORSConfig\<rparr>"

definition zero_CompressionConfig :: CompressionConfig where
  "zero_CompressionConfig =
     \<lparr>cm_Type = [], cm_Types = [], cm_GzipStaticExtensions = [], cm_Level = 0, cm_MinSize = 0,
      cm_GzipStatic = False\<rparr>"

definition zero_ClientVerifyConfig :: ClientVerifyConfig where
  "zero_ClientVerifyConfig =
     \<lparr>cvc_Mode = [], cvc_ClientCA = [], cvc_CRL = [], cvc_VerifyDepth = 0, cvc_Enabled = False\<rparr>"

definition zero_SessionTicketsConfig :: SessionTicketsConfig where
  "zero_SessionTicketsConfig =
     \<lparr>stc_KeyFile = [], stc_RotateInterval = 0, stc_RetainKeys = 0, stc_Enabled = False\<rparr>"

definition zero_HTTP2Config :: HTTP2Config where
  "zero_HTTP2Config =
     \<lparr>h2_MaxConcurrentStreams = 0, h2_MaxHeaderListSize = 0, h2_IdleTimeout = 0, h2_Enabled = False,
      h2_PushEnabled = False, h2_H2CEnabled = False, h2_GracefulShutdownTimeout = 0, h2_MaxBodySize = 0\<rparr>"

definition zero_HSTSConfig :: HSTSConfig where
  "zero_HSTSConfig =
     \<lparr>hs_MaxAge = 0, hs_IncludeSubDomains = False, hs_Preload = False\<rparr>"

definition zero_SSLConfig :: SSLConfig where
  "zero_SSLConfig =
     \<lparr>ssl_ClientVerify = zero_ClientVerifyConfig, ssl_Cert = [], ssl_Key = [], ssl_CertChain = [],
      ssl_Protocols = [], ssl_Ciphers = [], ssl_SessionTickets = zero_SessionTicketsConfig, ssl_HTTP2 =
      zero_HTTP2Config, ssl_HSTS = zero_HSTSConfig, ssl_OCSPStapling = False\<rparr>"

definition zero_UnixSocketConfig :: UnixSocketConfig where
  "zero_UnixSocketConfig =
     \<lparr>ux_Mode = 0, ux_User = [], ux_Group = []\<rparr>"

definition zero_LimitRateConfig :: LimitRateConfig where
  "zero_LimitRateConfig =
     \<lparr>lr_Rate = 0, lr_Burst = 0, lr_LargeFileThreshold = 0, lr_LargeFileStrategy = []\<rparr>"

definition zero_TypesConfig :: TypesConfig where
  "zero_TypesConfig =
     \<lparr>ty_DefaultType = [], ty_Map = []\<rparr>"

definition zero_ServerConfig :: ServerConfig where
  "zero_ServerConfig =
     \<lparr>sv_CacheAPI = None, sv_Lua = None, sv_Static = [], sv_Proxy = [], sv_Rewrite = [],
      sv_ClientMaxBodySize = [], sv_Name = [], sv_Listen = [], sv_Security = zero_SecurityConfig, sv_Compression
      = zero_CompressionConfig, sv_SSL = zero_SSLConfig, sv_UnixSocket = zero_UnixSocketConfig, sv_LimitRate =
      zero_LimitRateConfig, sv_Types = zero_TypesConfig, sv_ServerNames = [], sv_ReadTimeout = 0, sv_IdleTimeout
      = 0, sv_WriteTimeout = 0, sv_MaxRequestsPerConn = 0, sv_MaxConnsPerIP = 0, sv_Concurrency = 0,
      sv_ReadBufferSize = 0, sv_WriteBufferSize = 0, sv_Default = False, sv_ReduceMemoryUsage = False,
      sv_ServerTokens = False\<rparr>"

definition zero_AccessLogConfig :: AccessLogConfig where
  "zero_AccessLogConfig =
     \<lparr>al_Path = [], al_Format = [], al_SampleRate = 0\<rparr>"

definition zero_ErrorLogConfig :: ErrorLogConfig where
  "zero_ErrorLogConfig =
     \<lparr>el_Path = [], el_Level = []\<rparr>"

definition zero_LoggingConfig :: LoggingConfig where
  "zero_LoggingConfig =
     \<lparr>lo_Format = [], lo_Access = zero_AccessLogConfig, lo_Error = zero_ErrorLogConfig\<rparr>"

definition zero_StatusConfig :: StatusConfig where
  "zero_StatusConfig =
     \<lparr>sta_Path = [], sta_Format = [], sta_Allow = [], sta_Enabled = False\<rparr>"

definition zero_PprofConfig :: PprofConfig where
  "zero_PprofConfig =
     \<lparr>pp_Path = [], pp_Allow = [], pp_Enabled = False\<rparr>"

definition zero_endpoint :: endpoint where
  "zero_endpoint =
     \<lparr>en_Path = [], en_Enabled = False\<rparr>"

definition zero_MonitoringConfig :: MonitoringConfig where
  "zero_MonitoringConfig =
     \<lparr>mo_Status = zero_StatusConfig, mo_Pprof = zero_PprofConfig, mo_Healthz = zero_endpoint, mo_Readyz =
      zero_endpoint\<rparr>"

definition zero_HTTP3Config :: HTTP3Config where
  "zero_HTTP3Config =
     \<lparr>h3_Listen = [], h3_MaxStreams = 0, h3_IdleTimeout = 0, h3_Enabled = False, h3_Enable0RTT = False,
      h3_MaxBodySize = 0\<rparr>"

definition zero_ResolverConfig :: ResolverConfig where
  "zero_ResolverConfig =
     \<lparr>rc_Addresses = [], rc_Valid = 0, rc_Timeout = 0, rc_CacheSize = 0, rc_Enabled = False, rc_IPv4 = False, rc_IPv6 = False\<rparr>"

definition zero_GoroutinePoolConfig :: GoroutinePoolConfig where
  "zero_GoroutinePoolConfig =
     \<lparr>gp_Enabled = False, gp_MaxWorkers = 0, gp_MinWorkers = 0, gp_IdleTimeout = 0\<rparr>"

definition zero_FileCacheConfig :: FileCacheConfig where
  "zero_FileCacheConfig =
     \<lparr>fcc_MaxEntries = 0, fcc_MaxSize = 0, fcc_Inactive = 0\<rparr>"

definition zero_TransportConfig :: TransportConfig where
  "zero_TransportConfig =
     \<lparr>tc_IdleConnTimeout = 0, tc_MaxConnsPerHost = 0\<rparr>"

definition zero_PerformanceConfig :: PerformanceConfig where
  "zero_PerformanceConfig =
     \<lparr>pf_GoroutinePool = zero_GoroutinePoolConfig, pf_FileCache = zero_FileCacheConfig, pf_Transport =
      zero_TransportConfig\<rparr>"

definition zero_ShutdownConfig :: ShutdownConfig where
  "zero_ShutdownConfig =
     \<lparr>sd_GracefulTimeout = 0, sd_FastTimeout = 0, sd_ReloadTimeout = 0\<rparr>"

definition zero_Config :: Config where
  "zero_Config =
     \<lparr>cf_Mode = [], cf_Variables = [], cf_Logging = zero_LoggingConfig, cf_Servers = [], cf_Stream = [],
      cf_Monitoring = zero_MonitoringConfig, cf_HTTP3 = zero_HTTP3Config, cf_Resolver = zero_ResolverConfig,
      cf_Performance = zero_PerformanceConfig, cf_Shutdown = zero_ShutdownConfig, cf_Include = []\<rparr>"

section \<open>The built-in configuration\<close>

text \<open>\<open>DefaultConfig\<close>, in the parts its literal has; fields it does not set have Go's zero value.\<close>

definition default_lua :: LuaMiddlewareConfig where
  "default_lua =
     \<lparr>lm_Scripts = [],
      lm_GlobalSettings =
        \<lparr>lg_MaxConcurrentCoroutines = 1000, lg_CoroutineTimeout = 30 * second, lg_CodeCacheSize = 1000, lg_MaxExecutionTime = 30 * second,
         lg_CoroutineStackSize = 0, lg_CoroutinePoolWarmup = 0, lg_EnableFileWatch = True, lg_MinimizeStackMemory = False,
         lg_LStatePoolInitialSize = 100, lg_LStatePoolMaxSize = 1000\<rparr>,
      lm_Enabled = False\<rparr>"

definition default_static :: StaticConfig where
  "default_static =
     \<lparr>st_Path = ''/'', st_Root = ''/var/www/html'', st_Alias = [], st_Index = [''index.html'', ''index.htm''], st_TryFiles = [],
      st_TryFilesPass = False, st_SymlinkCheck = False, st_LocationType = [], st_Internal = False, st_Expires = [],
      st_AutoIndex = False, st_AutoIndexFormat = [], st_AutoIndexLocaltime = False, st_AutoIndexExactSize = False\<rparr>"

definition default_ssl :: SSLConfig where
  "default_ssl =
     \<lparr>ssl_ClientVerify = \<lparr>cvc_Mode = ''none'', cvc_ClientCA = [], cvc_CRL = [], cvc_VerifyDepth = 1, cvc_Enabled = False\<rparr>,
      ssl_Cert = [], ssl_Key = [], ssl_CertChain = [], ssl_Protocols = [''TLSv1.2'', ''TLSv1.3''], ssl_Ciphers = [],
      ssl_SessionTickets = \<lparr>stc_KeyFile = [], stc_RotateInterval = 3600 * second, stc_RetainKeys = 3, stc_Enabled = False\<rparr>,
      ssl_HTTP2 =
        \<lparr>h2_MaxConcurrentStreams = 128, h2_MaxHeaderListSize = 1048576, h2_IdleTimeout = 120 * second, h2_Enabled = True,
         h2_PushEnabled = False, h2_H2CEnabled = False, h2_GracefulShutdownTimeout = 30 * second, h2_MaxBodySize = 0\<rparr>,
      ssl_HSTS = \<lparr>hs_MaxAge = 31536000, hs_IncludeSubDomains = True, hs_Preload = False\<rparr>, ssl_OCSPStapling = False\<rparr>"

definition default_security :: SecurityConfig where
  "default_security =
     \<lparr>se_Headers = \<lparr>sh_XFrameOptions = ''DENY'', sh_XContentTypeOptions = ''nosniff'', sh_ContentSecurityPolicy = [],
        sh_ReferrerPolicy = ''strict-origin-when-cross-origin'', sh_PermissionsPolicy = []\<rparr>,
      se_Access = \<lparr>ac_Allow = [], ac_Deny = [], ac_TrustedProxies = [], ac_Default = ''allow'',
        ac_GeoIP = \<lparr>gc_Enabled = False, gc_Database = [], gc_CacheSize = 10000, gc_CacheTTL = 3600 * second,
          gc_PrivateIPBehavior = [], gc_AllowCountries = [], gc_DenyCountries = [], gc_Default = []\<rparr>\<rparr>,
      se_ErrorPage = \<lparr>ep_Pages = [], ep_Default = [], ep_ResponseCode = 0\<rparr>,
      se_Auth = \<lparr>au_Type = [], au_Algorithm = ''bcrypt'', au_Realm = ''Restricted Area'', au_Users = [],
        au_MinPasswordLength = 8, au_RequireTLS = True\<rparr>,
      se_AuthRequest = \<lparr>ar_Headers = [], ar_URI = [], ar_Method = [], ar_ForwardHeaders = [], ar_Timeout = 5 * second, ar_Enabled = False\<rparr>,
      se_RateLimit = \<lparr>RequestRate = 0, Burst = 0, rlc_Key = ''ip'', Algorithm = ''token_bucket'', SlidingWindow = 60,
        SlidingWindowMode = ''approximate'', rlc_ConnLimit = 0\<rparr>,
      se_CORS = \<lparr>co_Enabled = False, co_AllowedOrigins = [], co_AllowedMethods = [], co_AllowedHeaders = [], co_ExposeHeaders = [],
        co_AllowCredentials = False, co_MaxAge = 0\<rparr>\<rparr>"

definition default_compression :: CompressionConfig where
  "default_compression =
     \<lparr>cm_Type = ''gzip'',
      cm_Types = [''text/html'', ''text/css'', ''text/javascript'', ''application/json'', ''application/javascript''],
      cm_GzipStaticExtensions = [''.br'', ''.gz''], cm_Level = 6, cm_MinSize = 1024, cm_GzipStatic = True\<rparr>"

definition default_server :: ServerConfig where
  "default_server =
     \<lparr>sv_CacheAPI = Some \<lparr>ca_Auth = \<lparr>auth_Type = ''none'', auth_Token = []\<rparr>, ca_Path = ''/_cache/purge'', ca_Allow = [''127.0.0.1''],
        ca_Enabled = False\<rparr>,
      sv_Lua = Some default_lua, sv_Static = [default_static], sv_Proxy = [], sv_Rewrite = [], sv_ClientMaxBodySize = ''10MB'',
      sv_Name = ''localhost'', sv_Listen = '':8080'', sv_Security = default_security, sv_Compression = default_compression,
      sv_SSL = default_ssl, sv_UnixSocket = \<lparr>ux_Mode = 0, ux_User = [], ux_Group = []\<rparr>,
      sv_LimitRate = \<lparr>lr_Rate = 0, lr_Burst = 0, lr_LargeFileThreshold = 0, lr_LargeFileStrategy = []\<rparr>,
      sv_Types = \<lparr>ty_DefaultType = [], ty_Map = []\<rparr>, sv_ServerNames = [], sv_ReadTimeout = 30 * second,
      sv_IdleTimeout = 120 * second, sv_WriteTimeout = 30 * second, sv_MaxRequestsPerConn = 10000, sv_MaxConnsPerIP = 1000,
      sv_Concurrency = 256 * 1024, sv_ReadBufferSize = 16 * 1024, sv_WriteBufferSize = 16 * 1024, sv_Default = False,
      sv_ReduceMemoryUsage = False, sv_ServerTokens = False\<rparr>"

definition default_logging :: LoggingConfig where
  "default_logging =
     \<lparr>lo_Format = ''text'',
      lo_Access = \<lparr>al_Path = [],
        al_Format = ''$remote_addr - $remote_user [$time] \"$request\" $status $body_bytes_sent \"$http_referer\" \"$http_user_agent\"'',
        al_SampleRate = 0\<rparr>,
      lo_Error = \<lparr>el_Path = [], el_Level = ''info''\<rparr>\<rparr>"

definition default_performance :: PerformanceConfig where
  "default_performance =
     \<lparr>pf_GoroutinePool = \<lparr>gp_Enabled = False, gp_MaxWorkers = 1000, gp_MinWorkers = 10, gp_IdleTimeout = 60 * second\<rparr>,
      pf_FileCache = \<lparr>fcc_MaxEntries = 10000, fcc_MaxSize = 256 * 1024 * 1024, fcc_Inactive = 20 * second\<rparr>,
      pf_Transport = \<lparr>tc_IdleConnTimeout = 90 * second, tc_MaxConnsPerHost = 512\<rparr>\<rparr>"

definition default_monitoring :: MonitoringConfig where
  "default_monitoring =
     \<lparr>mo_Status = \<lparr>sta_Path = ''/_status'', sta_Format = ''json'', sta_Allow = [''127.0.0.1'', ''localhost''], sta_Enabled = False\<rparr>,
      mo_Pprof = \<lparr>pp_Path = ''/debug/pprof'', pp_Allow = [''127.0.0.1''], pp_Enabled = False\<rparr>,
      mo_Healthz = \<lparr>en_Path = ''/healthz'', en_Enabled = True\<rparr>, mo_Readyz = \<lparr>en_Path = ''/readyz'', en_Enabled = True\<rparr>\<rparr>"

definition DefaultConfig :: Config where
  "DefaultConfig =
     \<lparr>cf_Mode = [], cf_Variables = [], cf_Logging = default_logging, cf_Servers = [default_server], cf_Stream = [],
      cf_Monitoring = default_monitoring,
      cf_HTTP3 = \<lparr>h3_Listen = '':443'', h3_MaxStreams = 100, h3_IdleTimeout = 60 * second, h3_Enabled = False, h3_Enable0RTT = False,
        h3_MaxBodySize = 0\<rparr>,
      cf_Resolver = \<lparr>rc_Addresses = [''8.8.8.8:53'', ''8.8.4.4:53''], rc_Valid = 30 * second, rc_Timeout = 5 * second,
        rc_CacheSize = 1024, rc_Enabled = False, rc_IPv4 = True, rc_IPv6 = False\<rparr>,
      cf_Performance = default_performance,
      cf_Shutdown = \<lparr>sd_GracefulTimeout = 30 * second, sd_FastTimeout = 5 * second, sd_ReloadTimeout = 5 * second\<rparr>,
      cf_Include = []\<rparr>"

end
