(* ===== verification/Validate.thy ===== *)
theory Validate
  imports ServerConfig Variable
begin

text \<open>
  \<^verbatim>\<open>internal/config/validate.go\<close>, \<open>Validate\<close> and \<open>GetMode\<close> of \<^verbatim>\<open>config.go\<close> and the resolver's \<open>Validate\<close> of \<^verbatim>\<open>performance_config.go\<close>: one
  definition per validator. A validator returns \<open>None\<close> for nil and otherwise the error; an error says which check failed
  on which field, \<open>InField\<close> and \<open>AtIndex\<close> are the prefixes the callers wrap around it. Whether an address resolves, which
  may ask the network, and whether a regular expression compiles are parameters. A map is visited in
  the order of its association list; Go's order is arbitrary, and so is which of several errors it reports.
\<close>

section \<open>Errors\<close>

datatype cfg_error =
    Missing string
  | BadValue string string
  | BadNumber string int
  | BadChar string nat
  | Negative string
  | NullByte string
  | Traversal string
  | Exclusive string string
  | Requires string string
  | Duplicate string nat nat
  | Reserved string
  | BadRegex string
  | Unresolvable string
  | InField string cfg_error
  | AtIndex string nat cfg_error

type_synonym check = "cfg_error option"

text \<open>The checks of a function in their order: the first error is returned.\<close>

fun first_error :: "check list \<Rightarrow> check" where
  "first_error [] = None"
| "first_error (c # cs) = (case c of Some e \<Rightarrow> Some e | None \<Rightarrow> first_error cs)"

definition fail_if :: "bool \<Rightarrow> cfg_error \<Rightarrow> check" where
  "fail_if b e = (if b then Some e else None)"

definition in_field :: "string \<Rightarrow> check \<Rightarrow> check" where
  "in_field f c = map_option (InField f) c"

fun each :: "string \<Rightarrow> nat \<Rightarrow> ('a \<Rightarrow> check) \<Rightarrow> 'a list \<Rightarrow> check" where
  "each f i v [] = None"
| "each f i v (x # xs) = (case v x of Some e \<Rightarrow> Some (AtIndex f i e) | None \<Rightarrow> each f (Suc i) v xs)"

record net_env =
  ne_tcp :: "string \<Rightarrow> bool"
  ne_udp :: "string \<Rightarrow> bool"

section \<open>Generic checks\<close>

definition is_upper :: "char \<Rightarrow> bool" where
  "is_upper c \<longleftrightarrow> (of_char c :: nat) \<ge> 65 \<and> (of_char c :: nat) \<le> 90"

definition is_letter :: "char \<Rightarrow> bool" where
  "is_letter c \<longleftrightarrow> is_upper c \<or> (of_char c :: nat) \<ge> 97 \<and> (of_char c :: nat) \<le> 122"

definition ValidateEnum :: "string \<Rightarrow> string list \<Rightarrow> string \<Rightarrow> check" where
  "ValidateEnum v validValues fieldName = fail_if (v \<notin> set validValues) (BadValue fieldName v)"

definition ValidateNonNegative :: "int \<Rightarrow> string \<Rightarrow> check" where
  "ValidateNonNegative v fieldName = fail_if (v < 0) (Negative fieldName)"

definition ValidateNonNegativeDuration :: "nanos \<Rightarrow> string \<Rightarrow> check" where
  "ValidateNonNegativeDuration v fieldName = ValidateNonNegative v fieldName"

definition ValidateNoNullByte :: "string \<Rightarrow> string \<Rightarrow> check" where
  "ValidateNoNullByte s fieldName = fail_if (Contains s [CHR 0x00]) (NullByte fieldName)"

definition ValidatePathTraversal :: "string \<Rightarrow> string \<Rightarrow> check" where
  "ValidatePathTraversal path fieldName = fail_if (Contains path ''..'') (Traversal fieldName)"

section \<open>Servers\<close>

definition validateDefaultServer :: "ServerConfig list \<Rightarrow> check" where
  "validateDefaultServer servers = fail_if (length (filter sv_Default servers) > 1) (Exclusive ''default'' ''default'')"

definition validateMode :: "ServerMode \<Rightarrow> check" where
  "validateMode mode =
     (if mode = [] \<or> mode = ''auto'' then None else ValidateEnum mode [''single'', ''vhost'', ''multi_server'', ''auto''] ''mode'')"

fun listen_loop :: "nat \<Rightarrow> (string \<rightharpoonup> nat) \<Rightarrow> ServerConfig list \<Rightarrow> check" where
  "listen_loop i seen [] = None"
| "listen_loop i seen (s # ss) =
     (if sv_Listen s = [] then Some (AtIndex ''servers'' i (Missing ''listen''))
      else let key = sv_Listen s @ ''|'' @ sv_Name s
           in case seen key of
                Some j \<Rightarrow> Some (Duplicate (sv_Listen s) j i)
              | None \<Rightarrow> listen_loop (Suc i) (seen(key \<mapsto> i)) ss)"

definition validateListenConflicts :: "ServerConfig list \<Rightarrow> ServerMode \<Rightarrow> check" where
  "validateListenConflicts servers mode = (if mode \<noteq> ''multi_server'' then None else listen_loop 0 Map.empty servers)"

section \<open>Static files\<close>

definition ext_char :: "char \<Rightarrow> bool" where
  "ext_char c \<longleftrightarrow> is_letter c \<or> is_digit c \<or> c = CHR ''.'' \<or> c = CHR ''_'' \<or> c = CHR ''-''"

definition dangerousExtensions :: "string list" where
  "dangerousExtensions =
     [''php'', ''php3'', ''php4'', ''php5'', ''phtml'', ''exe'', ''bat'', ''cmd'', ''sh'', ''bash'', ''cgi'', ''pl'', ''py'', ''rb'',
      ''asp'', ''aspx'', ''jsp'']"

definition has_separator :: "string \<Rightarrow> bool" where
  "has_separator s \<longleftrightarrow> CHR ''/'' \<in> set s \<or> CHR 0x5C \<in> set s"

definition validateTryFilesExtension :: "string \<Rightarrow> check" where
  "validateTryFilesExtension ext =
     first_error
       [fail_if (ext = []) (Missing ''extension''),
        fail_if (has_separator ext) (BadValue ''extension'' ext),
        ValidateNoNullByte ext ''extension'',
        fail_if (\<not> list_all ext_char ext) (BadChar ext (length (takeWhile ext_char ext))),
        fail_if (list_ex (\<lambda>d. ToLower ext = d \<or> HasSuffix (ToLower ext) (''.'' @ d)) dangerousExtensions) (Reserved ext)]"

definition validateTryFilesFilename :: "string \<Rightarrow> check" where
  "validateTryFilesFilename filename =
     first_error
       [fail_if (filename = []) (Missing ''filename''),
        fail_if (Contains filename ''..'') (Traversal ''filename''),
        fail_if (has_separator filename) (BadValue ''filename'' filename),
        ValidateNoNullByte filename ''filename'']"

definition validateTryFilesPattern :: "string \<Rightarrow> check" where
  "validateTryFilesPattern pattern =
     first_error
       [fail_if (pattern = []) (Missing ''try_files''),
        ValidateNoNullByte pattern ''try_files'',
        (if pattern = ''$uri'' \<or> pattern = ''$uri/'' then None
         else if HasPrefix pattern ''$uri.'' then in_field pattern (validateTryFilesExtension (drop 5 pattern))
         else if HasPrefix pattern ''/'' then fail_if (Contains pattern ''..'') (Traversal pattern)
         else in_field pattern (validateTryFilesFilename pattern))]"

definition default_slash :: "string \<Rightarrow> string" where
  "default_slash p = (if p = [] then ''/'' else p)"

definition validate_static :: "StaticConfig \<Rightarrow> check" where
  "validate_static s =
     first_error
       [fail_if (st_Root s \<noteq> [] \<and> st_Alias s \<noteq> []) (Exclusive ''root'' ''alias''),
        ValidatePathTraversal (st_Root s) ''root'',
        ValidatePathTraversal (st_Alias s) ''alias'',
        each ''try_files'' 0 validateTryFilesPattern (st_TryFiles s),
        (if st_AutoIndex s then ValidateEnum (st_AutoIndexFormat s) [[], ''html'', ''json'', ''xml''] ''auto_index_format'' else None)]"

fun statics_loop :: "nat \<Rightarrow> (string \<rightharpoonup> nat) \<Rightarrow> StaticConfig list \<Rightarrow> check" where
  "statics_loop i paths [] = None"
| "statics_loop i paths (s # ss) =
     (let path = default_slash (st_Path s)
      in case paths path of
           Some j \<Rightarrow> Some (Duplicate path j i)
         | None \<Rightarrow>
             (case validate_static s of
                Some e \<Rightarrow> Some (AtIndex ''static'' i e)
              | None \<Rightarrow> statics_loop (Suc i) (paths(path \<mapsto> i)) ss))"

definition validateStatics :: "StaticConfig list \<Rightarrow> check" where
  "validateStatics statics = statics_loop 0 Map.empty statics"

fun static_paths :: "nat \<Rightarrow> StaticConfig list \<Rightarrow> (string \<rightharpoonup> nat) \<Rightarrow> (string \<rightharpoonup> nat)" where
  "static_paths i [] m = m"
| "static_paths i (s # ss) m = static_paths (Suc i) ss (m(default_slash (st_Path s) \<mapsto> i))"

fun conflict_loop :: "(string \<rightharpoonup> nat) \<Rightarrow> nat \<Rightarrow> ProxyConfig list \<Rightarrow> check" where
  "conflict_loop m i [] = None"
| "conflict_loop m i (p # ps) =
     (case m (px_Path p) of Some j \<Rightarrow> Some (Duplicate (px_Path p) j i) | None \<Rightarrow> conflict_loop m (Suc i) ps)"

definition validatePathConflicts :: "ServerConfig \<Rightarrow> check" where
  "validatePathConflicts s = conflict_loop (static_paths 0 (sv_Static s) Map.empty) 0 (sv_Proxy s)"

section \<open>Proxies\<close>

definition validateNextUpstream :: "NextUpstreamConfig \<Rightarrow> check" where
  "validateNextUpstream n =
     (if nu_Tries n = 0 \<and> nu_HTTPCodes n = [] then None
      else first_error
        [ValidateNonNegative (nu_Tries n) ''tries'',
         each ''http_codes'' 0 (\<lambda>code. fail_if (code < 100 \<or> code > 599) (BadNumber ''http_codes'' code)) (nu_HTTPCodes n)])"

definition validate_rule :: "rx \<Rightarrow> RedirectRewriteRule \<Rightarrow> check" where
  "validate_rule x rule =
     (if rrr_Pattern rule = [] then Some (Missing ''pattern'')
      else if HasPrefix (rrr_Pattern rule) ''~'' then
        (let patternStr = (if HasPrefix (rrr_Pattern rule) ''~*'' then drop 2 (rrr_Pattern rule) else drop 1 (rrr_Pattern rule))
         in fail_if (\<not> re_compile x patternStr) (BadRegex patternStr))
      else None)"

definition validateRedirectRewrite :: "rx \<Rightarrow> RedirectRewriteConfig option \<Rightarrow> check" where
  "validateRedirectRewrite x cfg0 =
     (case cfg0 of
        None \<Rightarrow> None
      | Some cfg \<Rightarrow>
          first_error
            [fail_if (rrc_Mode cfg \<notin> set [[], ''default'', ''off'', ''custom'']) (BadValue ''mode'' (rrc_Mode cfg)),
             fail_if (rrc_Mode cfg = ''custom'' \<and> rrc_Rules cfg = []) (Missing ''rules''),
             each ''rules'' 0 (validate_rule x) (rrc_Rules cfg)])"

definition validate_target :: "ProxyTarget \<Rightarrow> check" where
  "validate_target t =
     first_error
       [fail_if (pt_URL t = []) (Missing ''url''),
        fail_if (\<not> HasPrefix (pt_URL t) ''http://'' \<and> \<not> HasPrefix (pt_URL t) ''https://'') (BadValue ''url'' (pt_URL t))]"

definition validateProxy :: "rx \<Rightarrow> ProxyConfig \<Rightarrow> check" where
  "validateProxy x p =
     first_error
       [fail_if (px_Path p = []) (Missing ''path''),
        fail_if (px_Targets p = []) (Missing ''targets''),
        each ''targets'' 0 validate_target (px_Targets p),
        fail_if (\<not> IsValidAlgorithm (px_LoadBalance p)) (BadValue ''load_balance'' (px_LoadBalance p)),
        (if px_LoadBalance p = ''least_time'' then
           first_error
             [fail_if (ltc_Metric (px_LeastTime p) \<notin> set [[], ''header'', ''last_byte'']) (BadValue ''metric'' (ltc_Metric (px_LeastTime p))),
              fail_if (ltc_DefaultTime (px_LeastTime p) < 0) (Negative ''default_time'')]
         else None),
        (if px_LoadBalance p = ''sticky'' then
           first_error
             [fail_if (\<not> sc_Enabled (psc_cookie (px_Sticky p))) (Requires ''load_balance'' ''sticky.enabled''),
              fail_if (psc_FallbackAlgo (px_Sticky p) \<noteq> [] \<and> \<not> IsValidAlgorithm (psc_FallbackAlgo (px_Sticky p)))
                (BadValue ''fallback_balance'' (psc_FallbackAlgo (px_Sticky p))),
              fail_if (sc_SameSite (psc_cookie (px_Sticky p)) \<noteq> [] \<and> sc_SameSite (psc_cookie (px_Sticky p)) \<notin> set [''Lax'', ''Strict'', ''None''])
                (BadValue ''same_site'' (sc_SameSite (psc_cookie (px_Sticky p))))]
         else None),
        in_field ''next_upstream'' (validateNextUpstream (px_NextUpstream p)),
        (if px_HashKey p \<noteq> [] \<and> \<not> HasPrefix (px_HashKey p) ''header:'' then ValidateEnum (px_HashKey p) [''ip'', ''uri''] ''hash_key'' else None),
        in_field ''redirect_rewrite'' (validateRedirectRewrite x (px_RedirectRewrite p)),
        (if px_LocationType p \<noteq> [] then
           ValidateEnum (px_LocationType p) [[], ''exact'', ''prefix_priority'', ''regex'', ''regex_caseless'', ''prefix'', ''named''] ''location_type''
         else None),
        (if px_LocationType p = ''regex'' \<or> px_LocationType p = ''regex_caseless'' then
           first_error [fail_if (px_Path p = []) (Missing ''path''), fail_if (\<not> re_compile x (px_Path p)) (BadRegex (px_Path p))]
         else None),
        (if px_LocationType p = ''named'' then fail_if (px_LocationName p = []) (Missing ''location_name'') else None)]"

section \<open>Security and TLS\<close>

definition validateHTTP2 :: "HTTP2Config \<Rightarrow> bool \<Rightarrow> check" where
  "validateHTTP2 h hasSSL =
     first_error
       [fail_if (h2_Enabled h \<and> \<not> hasSSL \<and> \<not> h2_H2CEnabled h) (Requires ''http2.enabled'' ''ssl''),
        ValidateNonNegative (h2_MaxConcurrentStreams h) ''max_concurrent_streams'',
        ValidateNonNegative (h2_MaxHeaderListSize h) ''max_header_list_size'',
        ValidateNonNegativeDuration (h2_IdleTimeout h) ''idle_timeout'']"

definition validate_protocol :: "string \<Rightarrow> check" where
  "validate_protocol proto =
     (if proto = ''TLSv1.0'' \<or> proto = ''TLSv1.1'' then Some (Reserved proto)
      else fail_if (proto \<noteq> ''TLSv1.2'' \<and> proto \<noteq> ''TLSv1.3'') (BadValue ''protocols'' proto))"

definition insecureCiphers :: "string list" where
  "insecureCiphers = [''RC4'', ''DES'', ''3DES'', ''CBC'']"

definition validateSSL :: "SSLConfig \<Rightarrow> check" where
  "validateSSL s =
     first_error
       [in_field ''http2'' (validateHTTP2 (ssl_HTTP2 s) (ssl_Cert s \<noteq> [] \<and> ssl_Key s \<noteq> [])),
        (if ssl_Cert s = [] \<and> ssl_Key s = [] then None
         else first_error
           ([fail_if (ssl_Cert s = [] \<or> ssl_Key s = []) (Requires ''cert'' ''key'')]
            @ map validate_protocol (ssl_Protocols s)
            @ map (\<lambda>c. fail_if (list_ex (Contains c) insecureCiphers) (Reserved c)) (ssl_Ciphers s)))]"

definition validateCORS :: "CORSConfig \<Rightarrow> check" where
  "validateCORS c =
     (if \<not> co_Enabled c then None
      else first_error
        [fail_if (co_AllowedOrigins c = []) (Missing ''allowed_origins''),
         fail_if (''*'' \<in> set (co_AllowedOrigins c) \<and> co_AllowCredentials c) (Exclusive ''allowed_origins'' ''allow_credentials''),
         fail_if (co_MaxAge c < 0) (Negative ''max_age'')])"

definition isValidCountryCode :: "string \<Rightarrow> bool" where
  "isValidCountryCode code \<longleftrightarrow> length code = 2 \<and> list_all is_upper code"

definition validateGeoIP :: "GeoIPConfig \<Rightarrow> check" where
  "validateGeoIP g =
     (if \<not> gc_Enabled g then None
      else first_error
        ([fail_if (gc_Database g = []) (Missing ''database'')]
         @ map (\<lambda>c. fail_if (\<not> isValidCountryCode c) (BadValue ''allow_countries'' c)) (gc_AllowCountries g)
         @ map (\<lambda>c. fail_if (\<not> isValidCountryCode c) (BadValue ''deny_countries'' c)) (gc_DenyCountries g)
         @ [fail_if (gc_PrivateIPBehavior g \<notin> set [[], ''allow'', ''deny'', ''bypass'']) (BadValue ''private_ip_behavior'' (gc_PrivateIPBehavior g)),
            ValidateNonNegative (gc_CacheSize g) ''cache_size'',
            ValidateNonNegativeDuration (gc_CacheTTL g) ''cache_ttl'',
            fail_if (gc_Default g \<notin> set [[], ''allow'', ''deny'']) (BadValue ''default'' (gc_Default g))]))"

definition validate_cidr :: "string \<Rightarrow> string \<Rightarrow> check" where
  "validate_cidr f cidr = fail_if (net_ParseCIDR cidr = None \<and> ParseIP cidr = None) (BadValue f cidr)"

definition validateAccess :: "AccessConfig \<Rightarrow> check" where
  "validateAccess a =
     first_error
       (map (validate_cidr ''allow'') (ac_Allow a) @ map (validate_cidr ''deny'') (ac_Deny a)
        @ [fail_if (ac_Default a \<notin> set [[], ''allow'', ''deny'']) (BadValue ''default'' (ac_Default a)),
           in_field ''geoip'' (validateGeoIP (ac_GeoIP a))])"

definition validateAuth :: "AuthConfig \<Rightarrow> check" where
  "validateAuth a =
     (if au_Type a = [] then None
      else first_error
        [fail_if (au_Type a \<noteq> ''basic'') (BadValue ''type'' (au_Type a)),
         ValidateEnum (au_Algorithm a) [[], ''bcrypt'', ''argon2id''] ''algorithm'',
         fail_if (au_Users a = []) (Missing ''users''),
         each ''users'' 0 (\<lambda>u. first_error [fail_if (us_Name u = []) (Missing ''name''), fail_if (us_Password u = []) (Missing ''password'')]) (au_Users a),
         fail_if (au_MinPasswordLength a > 0 \<and> au_MinPasswordLength a < 6) (BadNumber ''min_password_length'' (au_MinPasswordLength a)),
         fail_if (au_MinPasswordLength a > 128) (BadNumber ''min_password_length'' (au_MinPasswordLength a))])"

definition validateRateLimit :: "RateLimitConfig \<Rightarrow> check" where
  "validateRateLimit r =
     (if RequestRate r = 0 \<and> rlc_ConnLimit r = 0 then None
      else first_error
        [ValidateNonNegative (RequestRate r) ''request_rate'',
         ValidateNonNegative (Burst r) ''burst'',
         ValidateNonNegative (rlc_ConnLimit r) ''conn_limit'',
         ValidateEnum (rlc_Key r) [[], ''ip'', ''header''] ''key'',
         ValidateEnum (Algorithm r) [[], ''token_bucket'', ''sliding_window''] ''algorithm'',
         ValidateEnum (SlidingWindowMode r) [[], ''approximate'', ''precise''] ''sliding_window_mode''])"

definition validateSecurityHeaders :: "SecurityHeaders \<Rightarrow> check" where
  "validateSecurityHeaders h =
     first_error
       [fail_if (sh_XFrameOptions h \<notin> set [[], ''DENY'', ''SAMEORIGIN'']) (BadValue ''x_frame_options'' (sh_XFrameOptions h)),
        fail_if (sh_ReferrerPolicy h \<notin> set [[], ''no-referrer'', ''no-referrer-when-downgrade'', ''origin'',
          ''origin-when-cross-origin'', ''same-origin'', ''strict-origin'', ''strict-origin-when-cross-origin'', ''unsafe-url''])
          (BadValue ''referrer_policy'' (sh_ReferrerPolicy h))]"

definition validateSecurity :: "SecurityConfig \<Rightarrow> check" where
  "validateSecurity s =
     first_error
       [in_field ''access'' (validateAccess (se_Access s)),
        in_field ''auth'' (validateAuth (se_Auth s)),
        in_field ''rate_limit'' (validateRateLimit (se_RateLimit s)),
        in_field ''headers'' (validateSecurityHeaders (se_Headers s)),
        in_field ''cors'' (validateCORS (se_CORS s))]"

section \<open>The other parts of a server\<close>

definition validateCompression :: "CompressionConfig \<Rightarrow> check" where
  "validateCompression c =
     (if cm_Type c = [] then None
      else first_error
        [ValidateEnum (cm_Type c) [''gzip'', ''brotli'', ''both''] ''type'',
         fail_if (cm_Level c < 0 \<or> cm_Level c > 9) (BadNumber ''level'' (cm_Level c)),
         ValidateNonNegative (cm_MinSize c) ''min_size''])"

definition validateRewrite :: "RewriteRule \<Rightarrow> check" where
  "validateRewrite r =
     first_error
       [fail_if (rwr_Pattern r = []) (Missing ''pattern''),
        fail_if (rwr_Flag r \<notin> set [[], ''last'', ''redirect'', ''permanent'', ''break'']) (BadValue ''flag'' (rwr_Flag r))]"

definition validate_script :: "rx \<Rightarrow> LuaScriptConfig \<Rightarrow> check" where
  "validate_script x s =
     first_error
       [fail_if (ls_Path s = []) (Missing ''path''),
        fail_if (ls_Route s \<noteq> [] \<and> ls_Phase s \<noteq> []) (Exclusive ''route'' ''phase''),
        fail_if (ls_Phase s \<noteq> [] \<and> ls_Phase s \<notin> set [''rewrite'', ''access'', ''content'', ''log'', ''header_filter'', ''body_filter''])
          (BadValue ''phase'' (ls_Phase s)),
        (if ls_Route s \<noteq> [] then
           first_error
             [fail_if (ls_RouteType s \<notin> set [[], ''exact'', ''prefix'', ''prefix_priority'', ''regex'', ''regex_caseless''])
                (BadValue ''route_type'' (ls_RouteType s)),
              fail_if ((ls_RouteType s = ''regex'' \<or> ls_RouteType s = ''regex_caseless'') \<and> \<not> re_compile x (ls_Route s)) (BadRegex (ls_Route s))]
         else None),
        ValidateNonNegativeDuration (ls_Timeout s) ''timeout'']"

definition validateLua :: "rx \<Rightarrow> LuaMiddlewareConfig option \<Rightarrow> check" where
  "validateLua x l0 =
     (case l0 of
        None \<Rightarrow> None
      | Some l \<Rightarrow>
          if \<not> lm_Enabled l then None
          else
            let g = lm_GlobalSettings l
            in first_error
                 [each ''scripts'' 0 (validate_script x) (lm_Scripts l),
                  ValidateNonNegative (lg_MaxConcurrentCoroutines g) ''max_concurrent_coroutines'',
                  fail_if (lg_MaxConcurrentCoroutines g > 0 \<and> lg_MaxConcurrentCoroutines g < 1)
                    (BadNumber ''max_concurrent_coroutines'' (lg_MaxConcurrentCoroutines g)),
                  ValidateNonNegativeDuration (lg_CoroutineTimeout g) ''coroutine_timeout'',
                  ValidateNonNegative (lg_CodeCacheSize g) ''code_cache_size'',
                  ValidateNonNegativeDuration (lg_MaxExecutionTime g) ''max_execution_time''])"

definition validateServer :: "net_env \<Rightarrow> rx \<Rightarrow> ServerConfig \<Rightarrow> bool \<Rightarrow> check" where
  "validateServer ne x s isDefault =
     first_error
       [fail_if (sv_Listen s = [] \<and> \<not> isDefault) (Missing ''listen''),
        fail_if (sv_Listen s \<noteq> [] \<and> \<not> ne_tcp ne (sv_Listen s)) (Unresolvable (sv_Listen s)),
        in_field ''static'' (validateStatics (sv_Static s)),
        each ''proxy'' 0 (validateProxy x) (sv_Proxy s),
        validatePathConflicts s,
        each ''rewrite'' 0 validateRewrite (sv_Rewrite s),
        in_field ''ssl'' (validateSSL (sv_SSL s)),
        in_field ''security'' (validateSecurity (sv_Security s)),
        in_field ''compression'' (validateCompression (sv_Compression s)),
        in_field ''lua'' (validateLua x (sv_Lua s))]"

section \<open>Globals\<close>

definition validateLogging :: "LoggingConfig \<Rightarrow> check" where
  "validateLogging l =
     first_error
       [ValidateEnum (lo_Format l) [[], ''text'', ''json''] ''format'',
        ValidateEnum (el_Level (lo_Error l)) [[], ''debug'', ''info'', ''warn'', ''error''] ''level'']"

definition validateStream :: "StreamConfig \<Rightarrow> check" where
  "validateStream s =
     first_error
       [fail_if (sm_Listen s = []) (Missing ''listen''),
        fail_if (sm_Protocol s \<noteq> ''tcp'' \<and> sm_Protocol s \<noteq> ''udp'') (BadValue ''protocol'' (sm_Protocol s)),
        fail_if (su_Targets (sm_Upstream s) = []) (Missing ''upstream.targets''),
        each ''upstream.targets'' 0 (\<lambda>t. fail_if (stt_Addr t = []) (Missing ''addr'')) (su_Targets (sm_Upstream s)),
        fail_if (\<not> IsValidAlgorithm (su_LoadBalance (sm_Upstream s))) (BadValue ''load_balance'' (su_LoadBalance (sm_Upstream s)))]"

definition validatePerformance :: "PerformanceConfig \<Rightarrow> check" where
  "validatePerformance p = ValidateNonNegative (tc_MaxConnsPerHost (pf_Transport p)) ''transport.max_conns_per_host''"

definition Resolver_Validate :: "net_env \<Rightarrow> ResolverConfig \<Rightarrow> check" where
  "Resolver_Validate ne c =
     (if \<not> rc_Enabled c then None
      else first_error
        ([fail_if (rc_Addresses c = []) (Missing ''addresses'')]
         @ map (\<lambda>a. fail_if (\<not> ne_udp ne a) (Unresolvable a)) (rc_Addresses c)
         @ [fail_if (rc_Valid c > 0 \<and> rc_Valid c < second) (BadNumber ''valid'' (rc_Valid c)),
            fail_if (rc_Timeout c > 0 \<and> rc_Timeout c < second) (BadNumber ''timeout'' (rc_Timeout c)),
            fail_if (\<not> rc_IPv4 c \<and> \<not> rc_IPv6 c) (Missing ''ipv4'')]))"

definition name_char :: "char \<Rightarrow> bool" where
  "name_char c \<longleftrightarrow> is_letter c \<or> is_digit c \<or> c = CHR ''_''"

definition validate_variable :: "string \<Rightarrow> check" where
  "validate_variable name =
     first_error
       [fail_if (name = []) (Missing ''name''),
        fail_if (\<not> list_all name_char name) (BadChar name (length (takeWhile name_char name))),
        fail_if (HasPrefix name ''arg_'' \<or> HasPrefix name ''http_'' \<or> HasPrefix name ''cookie_'') (Reserved name),
        fail_if (builtin_getter name \<noteq> None) (Reserved name)]"

definition validateVariables :: "(string \<times> string) list \<Rightarrow> check" where
  "validateVariables v = first_error (map (validate_variable \<circ> fst) v)"

definition validateShutdown :: "ShutdownConfig \<Rightarrow> check" where
  "validateShutdown c =
     first_error
       [fail_if (sd_GracefulTimeout c < 0) (Negative ''shutdown.graceful_timeout''),
        fail_if (sd_FastTimeout c < 0) (Negative ''shutdown.fast_timeout'')]"

section \<open>The whole configuration\<close>

definition HasServers :: "Config \<Rightarrow> bool" where
  "HasServers c \<longleftrightarrow> length (cf_Servers c) > 0"

definition GetDefaultServerFromList :: "Config \<Rightarrow> ServerConfig option" where
  "GetDefaultServerFromList c = List.find sv_Default (cf_Servers c)"

definition GetMode :: "Config \<Rightarrow> ServerMode" where
  "GetMode c =
     (if cf_Mode c \<noteq> [] \<and> cf_Mode c \<noteq> ''auto'' then cf_Mode c
      else case cf_Servers c of
        [] \<Rightarrow> ''auto''
      | [_] \<Rightarrow> ''single''
      | s # ss \<Rightarrow> (if list_all (\<lambda>t. sv_Listen t = sv_Listen s) ss then ''vhost'' else ''multi_server''))"

definition Validate :: "net_env \<Rightarrow> rx \<Rightarrow> Config \<Rightarrow> check" where
  "Validate ne x cfg =
     first_error
       [fail_if (\<not> HasServers cfg) (Missing ''servers''),
        validateMode (cf_Mode cfg),
        validateListenConflicts (cf_Servers cfg) (GetMode cfg),
        validateDefaultServer (cf_Servers cfg),
        each ''servers'' 0 (\<lambda>s. validateServer ne x s False) (cf_Servers cfg),
        each ''stream'' 0 validateStream (cf_Stream cfg),
        validateLogging (cf_Logging cfg),
        in_field ''performance'' (validatePerformance (cf_Performance cfg)),
        in_field ''resolver'' (Resolver_Validate ne (cf_Resolver cfg)),
        in_field ''variables'' (validateVariables (cf_Variables cfg)),
        validateShutdown (cf_Shutdown cfg)]"

section \<open>What passing a check means\<close>

lemma first_error_None [simp]: "first_error cs = None \<longleftrightarrow> (\<forall>c \<in> set cs. c = None)"
  by (induction cs) (auto split: option.splits)

declare first_error.simps [simp del]

lemma fail_if_None [simp]: "fail_if b e = None \<longleftrightarrow> \<not> b"
  by (simp add: fail_if_def)

lemma in_field_None [simp]: "in_field f c = None \<longleftrightarrow> c = None"
  by (simp add: in_field_def)

lemma each_None [simp]: "each f i v xs = None \<longleftrightarrow> (\<forall>x \<in> set xs. v x = None)"
  by (induction xs arbitrary: i) (auto split: option.splits)

lemmas check_simps = ValidateEnum_def ValidateNonNegative_def ValidateNonNegativeDuration_def ValidateNoNullByte_def
  ValidatePathTraversal_def

definition listen_key :: "ServerConfig \<Rightarrow> string" where
  "listen_key s = sv_Listen s @ ''|'' @ sv_Name s"

lemma listen_loop_None:
  "listen_loop i seen ss = None \<Longrightarrow>
     (\<forall>s \<in> set ss. sv_Listen s \<noteq> [] \<and> listen_key s \<notin> dom seen) \<and> distinct (map listen_key ss)"
proof (induction ss arbitrary: i seen)
  case (Cons s ss)
  then have a: "sv_Listen s \<noteq> []" "seen (listen_key s) = None" "listen_loop (Suc i) (seen(listen_key s \<mapsto> i)) ss = None"
    by (auto simp: listen_key_def Let_def split: if_splits option.splits)
  show ?case using Cons.IH [OF a(3)] a(1,2) by auto
qed simp

lemma statics_loop_None:
  "statics_loop i paths ss = None \<Longrightarrow>
     (\<forall>s \<in> set ss. validate_static s = None \<and> default_slash (st_Path s) \<notin> dom paths) \<and> distinct (map (default_slash \<circ> st_Path) ss)"
proof (induction ss arbitrary: i paths)
  case (Cons s ss)
  then have a: "validate_static s = None" "paths (default_slash (st_Path s)) = None" "statics_loop (Suc i) (paths(default_slash (st_Path s) \<mapsto> i)) ss = None"
    by (auto simp: Let_def split: option.splits)
  show ?case using Cons.IH [OF a(3)] a(1,2) by auto
qed simp

lemma dom_static_paths: "dom (static_paths i ss m) = dom m \<union> (default_slash \<circ> st_Path) ` set ss"
  by (induction ss arbitrary: i m) auto

lemma conflict_loop_None: "conflict_loop m i ps = None \<longleftrightarrow> (\<forall>p \<in> set ps. px_Path p \<notin> dom m)"
  by (induction ps arbitrary: i) (auto split: option.splits)

lemma validatePathConflicts_None:
  "validatePathConflicts s = None \<longleftrightarrow> (\<forall>p \<in> set (sv_Proxy s). px_Path p \<notin> (default_slash \<circ> st_Path) ` set (sv_Static s))"
  by (simp add: validatePathConflicts_def conflict_loop_None dom_static_paths)

text \<open>What the rest of the program may assume of a server and of a configuration that was accepted.\<close>

definition server_spec :: "ServerConfig \<Rightarrow> bool" where
  "server_spec s \<longleftrightarrow>
     sv_Listen s \<noteq> [] \<and> distinct (map (default_slash \<circ> st_Path) (sv_Static s))
     \<and> (\<forall>t \<in> set (sv_Static s). \<not> Contains (st_Root t) ''..'' \<and> \<not> Contains (st_Alias t) ''..'' \<and> (st_Root t = [] \<or> st_Alias t = []))
     \<and> (\<forall>p \<in> set (sv_Proxy s). px_Path p \<noteq> [] \<and> px_Path p \<notin> (default_slash \<circ> st_Path) ` set (sv_Static s) \<and> px_Targets p \<noteq> []
          \<and> (\<forall>t \<in> set (px_Targets p). HasPrefix (pt_URL t) ''http://'' \<or> HasPrefix (pt_URL t) ''https://''))
     \<and> (ssl_Cert (sv_SSL s) = [] \<longleftrightarrow> ssl_Key (sv_SSL s) = [])
     \<and> (ssl_Cert (sv_SSL s) \<noteq> [] \<longrightarrow> set (ssl_Protocols (sv_SSL s)) \<subseteq> {''TLSv1.2'', ''TLSv1.3''}
          \<and> (\<forall>c \<in> set (ssl_Ciphers (sv_SSL s)). \<forall>w \<in> set insecureCiphers. \<not> Contains c w))
     \<and> \<not> (co_Enabled (se_CORS (sv_Security s)) \<and> ''*'' \<in> set (co_AllowedOrigins (se_CORS (sv_Security s)))
          \<and> co_AllowCredentials (se_CORS (sv_Security s)))"

definition config_spec :: "Config \<Rightarrow> bool" where
  "config_spec c \<longleftrightarrow> cf_Servers c \<noteq> [] \<and> length (filter sv_Default (cf_Servers c)) \<le> 1
     \<and> (GetMode c = ''multi_server'' \<longrightarrow> distinct (map (\<lambda>s. (sv_Listen s, sv_Name s)) (cf_Servers c)))
     \<and> (\<forall>s \<in> set (cf_Servers c). server_spec s)"

lemma validate_static_sound:
  "validate_static t = None \<Longrightarrow> \<not> Contains (st_Root t) ''..'' \<and> \<not> Contains (st_Alias t) ''..'' \<and> (st_Root t = [] \<or> st_Alias t = [])"
  by (simp add: validate_static_def check_simps)

lemma validateProxy_sound:
  "validateProxy x p = None \<Longrightarrow> px_Path p \<noteq> [] \<and> px_Targets p \<noteq> []
     \<and> (\<forall>t \<in> set (px_Targets p). HasPrefix (pt_URL t) ''http://'' \<or> HasPrefix (pt_URL t) ''https://'')"
  by (simp add: validateProxy_def validate_target_def)

lemma validateSSL_sound:
  assumes "validateSSL s = None"
  shows "ssl_Cert s = [] \<longleftrightarrow> ssl_Key s = []"
    and "ssl_Cert s \<noteq> [] \<longrightarrow> set (ssl_Protocols s) \<subseteq> {''TLSv1.2'', ''TLSv1.3''} \<and> (\<forall>c \<in> set (ssl_Ciphers s). \<forall>w \<in> set insecureCiphers. \<not> Contains c w)"
proof -
  let ?checks = "[fail_if (ssl_Cert s = [] \<or> ssl_Key s = []) (Requires ''cert'' ''key'')] @ map validate_protocol (ssl_Protocols s)
      @ map (\<lambda>c. fail_if (list_ex (Contains c) insecureCiphers) (Reserved c)) (ssl_Ciphers s)"
  have c: "ssl_Cert s = [] \<and> ssl_Key s = [] \<or> first_error ?checks = None"
    using assms by (auto simp: validateSSL_def split: if_splits)
  then show "ssl_Cert s = [] \<longleftrightarrow> ssl_Key s = []" by auto
  have p: "validate_protocol q = None \<Longrightarrow> q \<in> {''TLSv1.2'', ''TLSv1.3''}" for q
    by (auto simp: validate_protocol_def split: if_splits)
  have prot: "set (ssl_Protocols s) \<subseteq> {''TLSv1.2'', ''TLSv1.3''}" if "first_error ?checks = None"
  proof
    fix q
    assume "q \<in> set (ssl_Protocols s)"
    then have "validate_protocol q = None" using that by simp
    then show "q \<in> {''TLSv1.2'', ''TLSv1.3''}" by (rule p)
  qed
  have ciph: "\<forall>c \<in> set (ssl_Ciphers s). \<forall>w \<in> set insecureCiphers. \<not> Contains c w" if "first_error ?checks = None"
    using that by (simp add: list_ex_iff ball_Un)
  show "ssl_Cert s \<noteq> [] \<longrightarrow> set (ssl_Protocols s) \<subseteq> {''TLSv1.2'', ''TLSv1.3''} \<and> (\<forall>c \<in> set (ssl_Ciphers s). \<forall>w \<in> set insecureCiphers. \<not> Contains c w)"
  proof
    assume "ssl_Cert s \<noteq> []"
    then have "first_error ?checks = None" using c by (cases "first_error ?checks = None") (simp only: simp_thms)+
    then show "set (ssl_Protocols s) \<subseteq> {''TLSv1.2'', ''TLSv1.3''} \<and> (\<forall>c \<in> set (ssl_Ciphers s). \<forall>w \<in> set insecureCiphers. \<not> Contains c w)"
      using prot ciph by (intro conjI)
  qed
qed

lemma validateServer_sound:
  assumes "validateServer ne x s False = None"
  shows "server_spec s"
proof -
  have v: "sv_Listen s \<noteq> []" "validateStatics (sv_Static s) = None" "\<forall>p \<in> set (sv_Proxy s). validateProxy x p = None"
      "validatePathConflicts s = None" "validateSSL (sv_SSL s) = None" "validateCORS (se_CORS (sv_Security s)) = None"
    using assms by (simp_all add: validateServer_def validateSecurity_def)
  have st: "\<forall>t \<in> set (sv_Static s). validate_static t = None" "distinct (map (default_slash \<circ> st_Path) (sv_Static s))"
    using statics_loop_None [of 0 Map.empty "sv_Static s"] v(2) by (simp_all add: validateStatics_def)
  have co: "\<not> (co_Enabled (se_CORS (sv_Security s)) \<and> ''*'' \<in> set (co_AllowedOrigins (se_CORS (sv_Security s)))
      \<and> co_AllowCredentials (se_CORS (sv_Security s)))"
    using v(6) by (simp add: validateCORS_def split: if_splits)
  show ?thesis
    unfolding server_spec_def
    using v(1,3) st validate_static_sound validateProxy_sound v(4) [unfolded validatePathConflicts_None] validateSSL_sound [OF v(5)] co
    by (intro conjI) blast+
qed

lemma listen_keys_distinct: "distinct (map listen_key ss) \<Longrightarrow> distinct (map (\<lambda>s. (sv_Listen s, sv_Name s)) ss)"
  by (induction ss) (auto simp: listen_key_def)

text \<open>C13. An accepted configuration is consistent: it has a server and at most one default one; in multi-server mode no two
  servers share address and name; in every server the static paths are distinct, no proxy path is a static one,
  directories do not traverse upwards, every proxy has targets with an HTTP scheme, a certificate comes with its key
  and then only with TLS 1.2 or 1.3 and without a weak cipher, and credentials are never allowed to every origin.\<close>

theorem validated_config_consistent:
  assumes "Validate ne x cfg = None"
  shows "config_spec cfg"
proof -
  have "cf_Servers cfg \<noteq> []" "length (filter sv_Default (cf_Servers cfg)) \<le> 1"
      and v: "\<forall>s \<in> set (cf_Servers cfg). validateServer ne x s False = None"
      and l: "GetMode cfg = ''multi_server'' \<longrightarrow> listen_loop 0 Map.empty (cf_Servers cfg) = None"
    using assms by (auto simp: Validate_def HasServers_def validateDefaultServer_def validateListenConflicts_def split: if_splits)
  then show ?thesis using listen_keys_distinct listen_loop_None validateServer_sound unfolding config_spec_def by blast
qed

definition demo_config_ok :: Config where
  "demo_config_ok = DefaultConfig\<lparr>cf_Servers := [default_server\<lparr>sv_SSL := default_ssl\<lparr>ssl_HTTP2 := (ssl_HTTP2 default_ssl)\<lparr>h2_Enabled := False\<rparr>\<rparr>\<rparr>]\<rparr>"

definition open_net :: net_env where
  "open_net = \<lparr>ne_tcp = (\<lambda>_. True), ne_udp = (\<lambda>_. True)\<rparr>"

theorem validated_config_consistent_witness: "Validate open_net plain_rx demo_config_ok = None \<and> config_spec demo_config_ok"
proof -
  let ?s = "default_server\<lparr>sv_SSL := default_ssl\<lparr>ssl_HTTP2 := (ssl_HTTP2 default_ssl)\<lparr>h2_Enabled := False\<rparr>\<rparr>\<rparr>"
  have c: "\<not> Contains ''/var/www/html'' ''..''" "\<not> Contains [] ''..''" by code_simp+
  have st: "validateStatics (sv_Static ?s) = None" using c
    by (simp add: default_server_def validateStatics_def validate_static_def default_static_def check_simps default_slash_def first_error.simps fail_if_def)
  have ssl: "validateSSL (sv_SSL ?s) = None" by (simp add: validateSSL_def default_ssl_def validateHTTP2_def check_simps)
  have sec: "validateSecurity (sv_Security ?s) = None"
    by (simp add: default_server_def default_security_def validateSecurity_def validateAccess_def validateGeoIP_def validateAuth_def
        validateRateLimit_def validateSecurityHeaders_def validateCORS_def)
  have cm: "validateCompression (sv_Compression ?s) = None"
    by (simp add: default_server_def default_compression_def validateCompression_def check_simps)
  have lu: "validateLua plain_rx (sv_Lua ?s) = None" by (simp add: default_server_def default_lua_def validateLua_def)
  have rest: "sv_Listen ?s = '':8080''" "sv_Proxy ?s = []" "sv_Rewrite ?s = []" "\<not> sv_Default ?s" by (simp_all add: default_server_def)
  have pc: "validatePathConflicts ?s = None" by (simp add: validatePathConflicts_None rest)
  have sv: "validateServer open_net plain_rx ?s False = None"
    using st ssl sec cm lu pc rest by (simp add: validateServer_def open_net_def)
  have gl: "validateLogging (cf_Logging demo_config_ok) = None" "validatePerformance (cf_Performance demo_config_ok) = None"
      "Resolver_Validate open_net (cf_Resolver demo_config_ok) = None" "validateShutdown (cf_Shutdown demo_config_ok) = None"
      "cf_Variables demo_config_ok = []" "cf_Stream demo_config_ok = []" "cf_Mode demo_config_ok = []" "cf_Servers demo_config_ok = [?s]"
    by (simp_all add: demo_config_ok_def DefaultConfig_def validateLogging_def default_logging_def validatePerformance_def
        default_performance_def Resolver_Validate_def validateShutdown_def check_simps)
  have ok: "Validate open_net plain_rx demo_config_ok = None"
    using sv gl rest(4)
    by (simp add: Validate_def HasServers_def validateMode_def validateListenConflicts_def GetMode_def validateDefaultServer_def validateVariables_def)
  show ?thesis using ok validated_config_consistent [OF ok] by blast
qed

text \<open>C34. The configuration the program ships with is not accepted: its server enables HTTP/2 without a certificate.\<close>

theorem default_config_rejected:
  "Validate ne x DefaultConfig = Some (AtIndex ''servers'' 0
     (if ne_tcp ne '':8080'' then InField ''ssl'' (InField ''http2'' (Requires ''http2.enabled'' ''ssl'')) else Unresolvable '':8080''))"
proof -
  have c: "\<not> Contains ''/var/www/html'' ''..''" "\<not> Contains [] ''..''" by code_simp+
  have s: "validateStatics [default_static] = None"
    using c by (simp add: validateStatics_def validate_static_def default_static_def check_simps default_slash_def first_error.simps fail_if_def)
  have l: "validateSSL default_ssl = Some (InField ''http2'' (Requires ''http2.enabled'' ''ssl''))"
    by (simp add: validateSSL_def default_ssl_def validateHTTP2_def in_field_def fail_if_def first_error.simps)
  have d: "sv_Listen default_server = '':8080''" "sv_Static default_server = [default_static]" "sv_Proxy default_server = []"
      "sv_Rewrite default_server = []" "sv_SSL default_server = default_ssl" "\<not> sv_Default default_server"
    by (simp_all add: default_server_def)
  have "validatePathConflicts default_server = None" by (simp add: validatePathConflicts_None d)
  then have "validateServer ne x default_server False =
      (if ne_tcp ne '':8080'' then Some (InField ''ssl'' (InField ''http2'' (Requires ''http2.enabled'' ''ssl''))) else Some (Unresolvable '':8080''))"
    by (simp add: validateServer_def d s l in_field_def fail_if_def first_error.simps)
  then show ?thesis
    by (simp add: Validate_def DefaultConfig_def HasServers_def validateMode_def validateListenConflicts_def GetMode_def
        validateDefaultServer_def d fail_if_def first_error.simps)
qed

section \<open>What validation guarantees to the constructors\<close>

lemma compile_rules_validated: "\<forall>r \<in> set rs. validate_rule x r = None \<Longrightarrow> \<exists>cs. compile_rules x rs = Some cs"
proof (induction rs)
  case (Cons r rs)
  then obtain cs where cs: "compile_rules x rs = Some cs" by auto
  have r: "validate_rule x r = None" using Cons.prems by simp
  show ?case
  proof (cases "HasPrefix (rrr_Pattern r) ''~''")
    case True
    then show ?thesis using r cs by (simp add: validate_rule_def Let_def split: if_splits)
  next
    case False
    then show ?thesis using cs by (simp add: Let_def)
  qed
qed simp

lemma validateRedirectRewrite_sound: "validateRedirectRewrite x cfg = None \<Longrightarrow> \<exists>rw. NewRedirectRewriter x cfg path = Some rw"
  using compile_rules_validated [of "rrc_Rules (the cfg)" x]
  by (auto simp: validateRedirectRewrite_def NewRedirectRewriter_def split: option.splits)

lemma validateProxy_algorithms:
  assumes "validateProxy x p = None"
  shows "IsValidAlgorithm (px_LoadBalance p)" "px_LoadBalance p = ''sticky'' \<Longrightarrow> IsValidAlgorithm (psc_FallbackAlgo (px_Sticky p))"
    "validateRedirectRewrite x (px_RedirectRewrite p) = None"
  using assms by (auto simp: validateProxy_def IsValidAlgorithm_def split: if_splits)

lemma createBalancerByName_valid:
  assumes "IsValidAlgorithm n" "n = ''sticky'' \<Longrightarrow> IsValidAlgorithm (psc_FallbackAlgo (px_Sticky cfg)) \<and> psc_FallbackAlgo (px_Sticky cfg) \<noteq> ''sticky''"
  shows "\<exists>b. createBalancerByName n cfg = Some (Inr b)"
proof (cases "n = ''sticky''")
  case True
  let ?f = "if psc_FallbackAlgo (px_Sticky cfg) = [] then ''round_robin'' else psc_FallbackAlgo (px_Sticky cfg)"
  have "IsValidAlgorithm ?f" "?f \<noteq> ''sticky''" using assms(2) [OF True] by (auto simp: IsValidAlgorithm_iff)
  then obtain b where "createBalancerByName ?f cfg = Some (Inr b)" using createBalancerByName_simple by blast
  then show ?thesis using True by (simp add: createBalancerByName_sticky)
qed (use assms createBalancerByName_simple in blast)

text \<open>C18. A validated proxy entry can be built: with at least one target, \<open>NewProxy\<close> returns a proxy for it, provided the two
  things validation does not check hold: a sticky session does not fall back on itself, and the fallback of
  \<open>balancer_by_lua\<close> is a known algorithm other than sticky.\<close>

theorem validated_proxy_builds:
  assumes "validateProxy x p = None" and "targets \<noteq> []"
    and "px_LoadBalance p = ''sticky'' \<longrightarrow> psc_FallbackAlgo (px_Sticky p) \<noteq> ''sticky''"
    and "IsValidAlgorithm (bl_Fallback (px_BalancerByLua p))" and "bl_Fallback (px_BalancerByLua p) \<noteq> ''sticky''"
  shows "\<exists>px s. NewProxy x p targets tc lua st = Some (Inr (px, s))"
proof -
  let ?f = "if bl_Fallback (px_BalancerByLua p) = [] then ''round_robin'' else bl_Fallback (px_BalancerByLua p)"
  note v = validateProxy_algorithms [OF assms(1)]
  obtain b where b: "createBalancerByName (px_LoadBalance p) p = Some (Inr b)"
    using createBalancerByName_valid [OF v(1)] v(2) assms(3) by blast
  have "IsValidAlgorithm ?f" "?f \<noteq> ''sticky''" using assms(4,5) by (auto simp: IsValidAlgorithm_iff)
  then obtain f where f: "createBalancerByName ?f p = Some (Inr f)" using createBalancerByName_simple by blast
  obtain rw where rw: "NewRedirectRewriter x (px_RedirectRewrite p) (px_Path p) = Some rw" using validateRedirectRewrite_sound [OF v(3)] by blast
  show ?thesis using assms(2) b f rw by (simp add: NewProxy_def createBalancer_def)
qed

definition demo_proxy_config :: ProxyConfig where
  "demo_proxy_config = zero_ProxyConfig\<lparr>px_Path := ''/api'', px_Targets := [zero_ProxyTarget\<lparr>pt_URL := ''http://a:1''\<rparr>]\<rparr>"

theorem validated_proxy_builds_witness:
  "validateProxy plain_rx demo_proxy_config = None
   \<and> (\<exists>px s. NewProxy plain_rx demo_proxy_config [10, 20, 30] None False example_state = Some (Inr (px, s)))"
proof -
  have "HasPrefix ''http://a:1'' ''http://''" by code_simp
  then have v: "validateProxy plain_rx demo_proxy_config = None"
    by (simp add: validateProxy_def demo_proxy_config_def zero_ProxyConfig_def zero_ProxyTarget_def validate_target_def
        validateNextUpstream_def validateRedirectRewrite_def IsValidAlgorithm_def first_error.simps fail_if_def in_field_def)
  have h: "[10, 20, 30] \<noteq> ([] :: ptr list)" "px_LoadBalance demo_proxy_config = ''sticky'' \<longrightarrow> psc_FallbackAlgo (px_Sticky demo_proxy_config) \<noteq> ''sticky''"
      "IsValidAlgorithm (bl_Fallback (px_BalancerByLua demo_proxy_config))" "bl_Fallback (px_BalancerByLua demo_proxy_config) \<noteq> ''sticky''"
    by (simp_all add: demo_proxy_config_def zero_ProxyConfig_def IsValidAlgorithm_def)
  show ?thesis using v validated_proxy_builds [OF v h, of None False example_state] by blast
qed

text \<open>The access lists: what passes the syntax check of \<open>validateAccess\<close> is what \<open>ParseCIDR\<close> can load.\<close>

lemma sequence_defined: "(\<exists>ys. sequence xs = Some ys) \<longleftrightarrow> None \<notin> set xs"
  by (induction xs rule: sequence.induct) auto

lemma sequence_SomeD: "sequence xs = Some ys \<Longrightarrow> x \<in> set xs \<Longrightarrow> x \<noteq> None"
  by (induction xs arbitrary: ys rule: sequence.induct) auto

lemma Split_chars: "c \<in> set s \<Longrightarrow> c \<noteq> d \<Longrightarrow> \<exists>p \<in> set (Split s d). c \<in> set p"
proof (induction s)
  case (Cons x xs)
  then show ?case by (cases "Split xs d") auto
qed simp

lemma parse_octet_chars: "parse_octet p = Some n \<Longrightarrow> CHR ''/'' \<notin> set p"
proof
  assume "parse_octet p = Some n" "CHR ''/'' \<in> set p"
  then have "is_digit (CHR ''/'')" by (auto simp: parse_octet_def parse_digits_def list_all_iff split: option.splits if_splits)
  then show False by (simp add: is_digit_def)
qed

lemma parse_hextet_chars: "parse_hextet p = Some n \<Longrightarrow> CHR ''/'' \<notin> set p"
proof
  assume h: "parse_hextet p = Some n" "CHR ''/'' \<in> set p"
  then obtain ds where "sequence (map hex_val p) = Some ds" by (auto simp: parse_hextet_def split: if_splits)
  then have "hex_val (CHR ''/'') \<noteq> None" using sequence_SomeD h(2) by (metis image_eqI list.set_map)
  then show False by (simp add: hex_val_def)
qed

lemma parts_no_slash:
  assumes "sequence (map f (Split s d)) = Some ys" "\<And>p n. f p = Some n \<Longrightarrow> CHR ''/'' \<notin> set p" "d \<noteq> CHR ''/''"
  shows "CHR ''/'' \<notin> set s"
proof
  assume "CHR ''/'' \<in> set s"
  then obtain p where p: "p \<in> set (Split s d)" "CHR ''/'' \<in> set p" using Split_chars [of "CHR ''/''" s d] assms(3) by auto
  then have "f p \<noteq> None" using sequence_SomeD [OF assms(1)] by (metis image_eqI list.set_map)
  then show False using assms(2) p(2) by blast
qed

lemma parseIPv4_no_slash: "parseIPv4 s = Some w \<Longrightarrow> CHR ''/'' \<notin> set s"
  using parts_no_slash [of parse_octet s "CHR ''.''"] parse_octet_chars by (auto simp: parseIPv4_def Let_def split: if_splits)

lemma parse_groups_no_slash: "parse_groups s = Some gs \<Longrightarrow> CHR ''/'' \<notin> set s"
  using parts_no_slash [of parse_hextet s "CHR '':''"] parse_hextet_chars by (auto simp: parse_groups_def split: if_splits)

lemma groups_with_v4_no_slash:
  assumes "groups_with_v4 s = Some gs"
  shows "CHR ''/'' \<notin> set s"
proof (cases "CHR ''.'' \<in> set s")
  case False
  then show ?thesis using assms parse_groups_no_slash by (simp add: groups_with_v4_def)
next
  case True
  let ?ps = "Split s (CHR '':'')"
  obtain fs w where p: "sequence (map parse_hextet (butlast ?ps)) = Some fs" "parseIPv4 (last ?ps) = Some w"
    using assms True by (auto simp: groups_with_v4_def Let_def split: option.splits)
  have "CHR ''/'' \<notin> set p" if "p \<in> set ?ps" for p
  proof -
    have "p \<in> set (butlast ?ps) \<or> p = last ?ps" using that by (metis Split_nonempty append_butlast_last_id in_set_conv_decomp rotate1.simps(2) set_ConsD set_rotate1)
    then show ?thesis
    proof
      assume "p \<in> set (butlast ?ps)"
      then have "parse_hextet p \<noteq> None" using sequence_SomeD [OF p(1)] by (metis image_eqI list.set_map)
      then show ?thesis using parse_hextet_chars by blast
    qed (use parseIPv4_no_slash [OF p(2)] in simp)
  qed
  then show ?thesis using Split_chars [of "CHR ''/''" s "CHR '':''"] by auto
qed

lemma ParseIP_no_slash:
  assumes "ParseIP s = Some ip"
  shows "CHR ''/'' \<notin> set s"
proof (cases "CHR '':'' \<in> set s")
  case False
  then show ?thesis using assms parseIPv4_no_slash by (auto simp: ParseIP_def split: if_splits)
next
  case True
  show ?thesis
  proof (cases "StrIndex s ''::''")
    case None
    then show ?thesis using assms True groups_with_v4_no_slash by (auto simp: ParseIP_def parseIPv6_def split: option.splits)
  next
    case (Some i)
    then have "CHR ''/'' \<notin> set (take i s)" "CHR ''/'' \<notin> set (drop (i + 2) s)"
      using assms True parse_groups_no_slash groups_with_v4_no_slash by (auto simp: ParseIP_def parseIPv6_def split: option.splits if_splits)
    then have no: "CHR ''/'' \<notin> set (take i s @ ''::'' @ drop (i + 2) s)" by simp
    have "s = take i s @ drop i s" "drop i s = ''::'' @ drop (i + 2) s"
      using HasPrefix_split [OF StrIndex_Some [OF Some]] by (simp_all add: add.commute)
    then have "s = take i s @ ''::'' @ drop (i + 2) s" by simp
    then show ?thesis using no by (rule ssubst)
  qed
qed

lemma ParseIP_colon: "ParseIP s = Some (V6 w) \<Longrightarrow> CHR '':'' \<in> set s"
  by (auto simp: ParseIP_def split: if_splits)

lemma validate_cidr_loads:
  assumes "validate_cidr f c = None"
  shows "\<exists>n. ParseCIDR c = Some n"
proof (cases "CHR ''/'' \<in> set c")
  case True
  then have "net_ParseCIDR c \<noteq> None" using assms ParseIP_no_slash by (auto simp: validate_cidr_def)
  then show ?thesis using True by (auto simp: ParseCIDR_def Contains_single Let_def)
next
  case False
  then have "net_ParseCIDR c = None" by (simp add: net_ParseCIDR_def IndexByte_None [THEN iffD2])
  then obtain ip where ip: "ParseIP c = Some ip" using assms by (auto simp: validate_cidr_def)
  let ?m = "if is_v4 ip then ''32'' else ''128''"
  have d: "parse_digits ''32'' = Some 32" "parse_digits ''128'' = Some 128" by code_simp+
  have "IndexByte (c @ ''/'' @ ?m) (CHR ''/'') = Some (length c)" using IndexByte_append [OF False] by simp
  then have "net_ParseCIDR (c @ ''/'' @ ?m) \<noteq> None"
    using ip d ParseIP_colon [of c] by (cases ip) (auto simp: net_ParseCIDR_def Let_def is_v4_def)
  then show ?thesis using False ip by (auto simp: ParseCIDR_def Contains_single Let_def split: if_splits)
qed

text \<open>C33. A validated access section without GeoIP loads: \<open>NewAccessControl\<close> returns an access control for it. Validation
  does not look at the trusted proxies, which therefore have to parse.\<close>

theorem validated_access_loads:
  assumes "validateAccess a = None" and "\<not> gc_Enabled (ac_GeoIP a)" and "\<forall>c \<in> set (ac_TrustedProxies a). ParseCIDR c \<noteq> None"
  shows "\<exists>ac. NewAccessControl open_geo (Some a) = Some ac"
proof -
  have v: "\<forall>c \<in> set (ac_Allow a). validate_cidr ''allow'' c = None" "\<forall>c \<in> set (ac_Deny a). validate_cidr ''deny'' c = None"
      "ac_Default a \<in> {[], ''allow'', ''deny''}"
    using assms(1) by (auto simp: validateAccess_def)
  have "\<exists>ns. parseCIDRList cs = Some ns" if "\<forall>c \<in> set cs. \<exists>n. ParseCIDR c = Some n" for cs
    using that by (auto simp: parseCIDRList_def sequence_defined)
  then obtain al de tr where l: "parseCIDRList (ac_Allow a) = Some al" "parseCIDRList (ac_Deny a) = Some de" "parseCIDRList (ac_TrustedProxies a) = Some tr"
    using v(1,2) validate_cidr_loads assms(3) by (metis not_None_eq)
  have "ToLower [] = []" "ToLower ''allow'' = ''allow''" "ToLower ''deny'' = ''deny''" by code_simp+
  then obtain act where "parse_default (ac_Default a) = Some act" using v(3) by (auto simp: parse_default_def)
  then show ?thesis using l assms(2) by (simp add: NewAccessControl_def Let_def)
qed

theorem validated_access_loads_witness:
  "\<exists>ac. NewAccessControl (\<lambda>_ _. None :: nat option) (Some (lan_config\<lparr>ac_Deny := []\<rparr>)) = Some ac"
proof -
  have "validateAccess (lan_config\<lparr>ac_Deny := []\<rparr>) = None" by (simp add: validateAccess_def lan_config_def validateGeoIP_def)
  then show ?thesis
    using validated_access_loads [of "lan_config\<lparr>ac_Deny := []\<rparr>" "\<lambda>_ _. None :: nat option"] by (simp add: lan_config_def)
qed

text \<open>A validated rate limit with a positive rate is loaded, except in one case validation does not check: the token
  bucket refuses a burst below the rate, and this is the only reason.\<close>

theorem validated_rate_limit_gap:
  assumes "validateRateLimit r = None" and "RequestRate r > 0"
  shows "(\<exists>e. NewRateLimiter (Some r) [] = Inl e) \<longleftrightarrow> Algorithm r \<noteq> ''sliding_window'' \<and> Burst r < RequestRate r"
proof -
  have v: "rlc_Key r \<in> {[], ''ip'', ''header''}" "Algorithm r \<in> {[], ''token_bucket'', ''sliding_window''}"
    using assms by (auto simp: validateRateLimit_def check_simps split: if_splits)
  show ?thesis
  proof (cases "Algorithm r = ''sliding_window''")
    case True
    then show ?thesis using v(1) assms(2)
      by (auto simp: NewRateLimiter_def NewSlidingWindowLimiterWrapper_def Let_def parseKeyFunc_def)
  next
    case False
    then have "NewRateLimiter (Some r) [] = map_sum id TokenLimiter (newTokenBucketLimiter r [])"
      using v(2) assms(2) by (auto simp: NewRateLimiter_def)
    then show ?thesis using False v(1) by (auto simp: newTokenBucketLimiter_def Let_def)
  qed
qed

theorem validated_rate_limit_gap_witness:
  "validateRateLimit (demo_limit\<lparr>Burst := 0\<rparr>) = None \<and> (\<exists>e. NewRateLimiter (Some (demo_limit\<lparr>Burst := 0\<rparr>)) [] = Inl e)"
proof -
  have v: "validateRateLimit (demo_limit\<lparr>Burst := 0\<rparr>) = None" "RequestRate (demo_limit\<lparr>Burst := 0\<rparr>) > 0"
    by (simp_all add: validateRateLimit_def demo_limit_def check_simps)
  show ?thesis using v(1) validated_rate_limit_gap [OF v] by (simp add: demo_limit_def)
qed

text \<open>The fallbacks of \<open>try_files\<close>.\<close>

lemma HasPrefix_hd_Split: "HasPrefix s (hd (Split s c))"
proof (induction s)
  case (Cons x xs)
  then show ?case by (cases "Split xs c") (simp_all add: HasPrefix_def)
qed (simp add: HasPrefix_def)

lemma Contains_ConsI: "Contains xs sub \<Longrightarrow> Contains (x # xs) sub"
  by (simp add: Contains_def)

lemma Split_part_Contains: "p \<in> set (Split s c) \<Longrightarrow> p \<noteq> [] \<Longrightarrow> Contains s p"
proof (induction s arbitrary: p)
  case (Cons x xs)
  have pre: "HasPrefix (x # xs) (hd (Split (x # xs) c))" by (rule HasPrefix_hd_Split)
  show ?case
  proof (cases "p = hd (Split (x # xs) c)")
    case True
    then show ?thesis using pre by (simp add: Contains_def)
  next
    case False
    then have "p \<in> set (Split xs c)" using Cons.prems by (cases "Split xs c") (auto split: if_splits)
    then show ?thesis using Cons.IH Cons.prems(2) Contains_ConsI by blast
  qed
qed simp

text \<open>C29. No accepted \<open>try_files\<close> entry leads out of the document root: none of its path segments is \<open>..\<close>, and it contains
  no null byte.\<close>

theorem try_files_stay_inside:
  assumes "validateTryFilesPattern p = None"
  shows "''..'' \<notin> set (Split p (CHR ''/'')) \<and> CHR 0x00 \<notin> set p"
proof
  have v: "p \<noteq> []" "\<not> Contains p [CHR 0x00]"
    and alt: "p = ''$uri'' \<or> p = ''$uri/'' \<or> HasPrefix p ''$uri.'' \<and> \<not> has_separator (drop 5 p) \<or> \<not> Contains p ''..''"
    using assms by (auto simp: validateTryFilesPattern_def check_simps validateTryFilesExtension_def validateTryFilesFilename_def split: if_splits)
  show "CHR 0x00 \<notin> set p" using v(2) by (simp add: Contains_single)
  have lit: "''..'' \<notin> set (Split ''$uri'' (CHR ''/''))" "''..'' \<notin> set (Split ''$uri/'' (CHR ''/''))" by code_simp+
  have ext: "''..'' \<notin> set (Split p (CHR ''/''))" if "HasPrefix p ''$uri.''" "\<not> has_separator (drop 5 p)"
  proof -
    have p: "p = ''$uri.'' @ drop 5 p" using HasPrefix_split [OF that(1)] by (simp add: eval_nat_numeral)
    have "CHR ''/'' \<notin> set (''$uri.'' @ drop 5 p)" using that(2) by (simp add: has_separator_def)
    then have "CHR ''/'' \<notin> set p" by (subst p)
    then have "Split p (CHR ''/'') = [p]" by (rule Split_no_sep)
    moreover have "p \<noteq> ''..''" by (subst p) simp
    ultimately show "''..'' \<notin> set (Split p (CHR ''/''))" by simp
  qed
  show "''..'' \<notin> set (Split p (CHR ''/''))"
    using alt lit ext Split_part_Contains [of "''..''" p "CHR ''/''"] by blast
qed

theorem try_files_stay_inside_witness: "''..'' \<notin> set (Split ''$uri.html'' (CHR ''/''))"
proof -
  have "validateTryFilesPattern ''$uri.html'' = None" by code_simp
  then show ?thesis using try_files_stay_inside by blast
qed

end
