(* ===== verification/SharedDict.thy ===== *)
theory SharedDict
  imports Complex_Main Config "HOL-Library.AList"
begin

text \<open>
  \<^verbatim>\<open>internal/lua/shared_dict.go\<close> and the Lua methods of \<^verbatim>\<open>internal/lua/api_shared_dict.go\<close>: the dictionary
  scripts share, a map and a recency list with a capacity and expiry times. The map is an association list with
  distinct keys; an entry's \<open>key\<close> field is the key it is stored under, its \<open>element\<close> the list element that holds that key; the recency list runs from the most to the least recently
  used key. An operation holds the mutex from its start to its end and reads the clock once. The zero
  time is \<open>None\<close>. The bindings get the arguments the Lua state has checked and return the values they push.

  The dictionary refines a single list of entries in recency order; the contract of a
  simulation is the locale \<open>refines\<close>.
\<close>

section \<open>Data\<close>

record sharedDictEntry =
  se_expiredAt :: "nanos option"
  se_value :: string

record SharedDict =
  sd_data :: "(string \<times> sharedDictEntry) list"
  sd_lruList :: "string list"
  sd_name :: string
  sd_maxItems :: int

definition NewSharedDict :: "string \<Rightarrow> int \<Rightarrow> SharedDict" where
  "NewSharedDict n mx = \<lparr>sd_data = [], sd_lruList = [], sd_name = n, sd_maxItems = mx\<rparr>"

definition entry_expired :: "nanos \<Rightarrow> sharedDictEntry \<Rightarrow> bool" where
  "entry_expired now e = (case se_expiredAt e of None \<Rightarrow> False | Some t \<Rightarrow> t < now)"

definition expiry :: "nanos \<Rightarrow> nanos \<Rightarrow> nanos option" where
  "expiry now ttl = (if ttl > 0 then Some (now + ttl) else None)"

section \<open>Operations\<close>

text \<open>\<open>MoveToFront\<close>, \<open>Remove\<close> and \<open>PushFront\<close> of \<open>container/list\<close>.\<close>

definition sd_MoveToFront :: "string \<Rightarrow> SharedDict \<Rightarrow> SharedDict" where
  "sd_MoveToFront k d = d\<lparr>sd_lruList := k # remove1 k (sd_lruList d)\<rparr>"

definition deleteEntry :: "string \<Rightarrow> SharedDict \<Rightarrow> SharedDict" where
  "deleteEntry k d = d\<lparr>sd_lruList := remove1 k (sd_lruList d), sd_data := AList.delete k (sd_data d)\<rparr>"

definition put_entry :: "string \<Rightarrow> sharedDictEntry \<Rightarrow> SharedDict \<Rightarrow> SharedDict" where
  "put_entry k e d = d\<lparr>sd_data := AList.update k e (sd_data d)\<rparr>"

definition push_entry :: "string \<Rightarrow> sharedDictEntry \<Rightarrow> SharedDict \<Rightarrow> SharedDict" where
  "push_entry k e d = put_entry k e (d\<lparr>sd_lruList := k # sd_lruList d\<rparr>)"

text \<open>The loop over the recency list from its back: an element without an entry is removed, an expired
  entry is deleted and the scan starts again from the back, the first live entry ends it. Both
  shorten the list.\<close>

function evictExpired :: "nanos \<Rightarrow> SharedDict \<Rightarrow> int \<times> SharedDict" where
  "evictExpired now d =
     (if sd_lruList d = [] then (0, d)
      else let key = last (sd_lruList d)
           in case map_of (sd_data d) key of
                None \<Rightarrow> evictExpired now (d\<lparr>sd_lruList := butlast (sd_lruList d)\<rparr>)
              | Some e \<Rightarrow>
                  if entry_expired now e then
                    (let (count, d') = evictExpired now (deleteEntry key d) in (count + 1, d'))
                  else (0, d))"
  by pat_completeness auto
termination
  by (relation "measure (\<lambda>(now, d). length (sd_lruList d))")
    (auto simp: deleteEntry_def length_remove1)

declare evictExpired.simps [simp del]

function evictLRU_dict :: "SharedDict \<Rightarrow> bool \<times> SharedDict" where
  "evictLRU_dict d =
     (if sd_lruList d = [] then (False, d)
      else let key = last (sd_lruList d)
           in case map_of (sd_data d) key of
                Some e \<Rightarrow> (True, deleteEntry key d)
              | None \<Rightarrow> evictLRU_dict (d\<lparr>sd_lruList := butlast (sd_lruList d)\<rparr>))"
  by pat_completeness auto
termination
  by (relation "measure (\<lambda>d. length (sd_lruList d))") auto

declare evictLRU_dict.simps [simp del]

text \<open>The capacity check that \<open>Set\<close>, \<open>Add\<close> and \<open>Incr\<close> share: whether there is room for one more entry.\<close>

definition make_room :: "nanos \<Rightarrow> SharedDict \<Rightarrow> bool \<times> SharedDict" where
  "make_room now d =
     (if int (length (sd_data d)) \<ge> sd_maxItems d then
        let d1 = snd (evictExpired now d)
        in if int (length (sd_data d1)) \<ge> sd_maxItems d1 then evictLRU_dict d1 else (True, d1)
      else (True, d))"

definition SharedDict_Get :: "nanos \<Rightarrow> string \<Rightarrow> SharedDict \<Rightarrow> (string \<times> bool) \<times> SharedDict" where
  "SharedDict_Get now key d =
     (case map_of (sd_data d) key of
        None \<Rightarrow> (([], False), d)
      | Some e \<Rightarrow>
          if entry_expired now e then (([], True), deleteEntry key d)
          else ((se_value e, False), sd_MoveToFront key d))"

definition SharedDict_Set :: "nanos \<Rightarrow> string \<Rightarrow> string \<Rightarrow> nanos \<Rightarrow> SharedDict \<Rightarrow> bool \<times> SharedDict" where
  "SharedDict_Set now key val ttl d =
     (let e = \<lparr>se_expiredAt = expiry now ttl, se_value = val\<rparr>
      in case map_of (sd_data d) key of
           Some _ \<Rightarrow> (True, sd_MoveToFront key (put_entry key e d))
         | None \<Rightarrow> (case make_room now d of (ok, d1) \<Rightarrow> if ok then (True, push_entry key e d1) else (False, d1)))"

definition SharedDict_Add :: "nanos \<Rightarrow> string \<Rightarrow> string \<Rightarrow> nanos \<Rightarrow> SharedDict \<Rightarrow> bool \<times> SharedDict" where
  "SharedDict_Add now key val ttl d =
     (case map_of (sd_data d) key of
        Some _ \<Rightarrow> (False, d)
      | None \<Rightarrow>
          (case make_room now d of (ok, d1) \<Rightarrow>
             if ok then (True, push_entry key \<lparr>se_expiredAt = expiry now ttl, se_value = val\<rparr> d1) else (False, d1)))"

text \<open>The number a value spells: machine arithmetic, an error at the first character that is no digit.\<close>

fun parse_counter :: "string \<Rightarrow> int \<Rightarrow> int option" where
  "parse_counter [] current = Some current"
| "parse_counter (c # cs) current =
     (if is_digit c then parse_counter cs (wrap64 (wrap64 (current * 10) + int (digit_val c))) else None)"

text \<open>The digits of \<open>intToStr\<close>, least significant first; the loop does not run for the smallest
  integer, whose negation is itself.\<close>

fun digits_loop :: "nat \<Rightarrow> string" where
  "digits_loop n = (if n = 0 then [] else digit_char (n mod 10) # digits_loop (n div 10))"

declare digits_loop.simps [simp del]

definition intToStr :: "int \<Rightarrow> string" where
  "intToStr n =
     (if n = 0 then ''0''
      else let negative = n < 0;
               m = (if negative then wrap64 (- n) else n);
               buf = digits_loop (nat m)
           in rev (if negative then buf @ ''-'' else buf))"

definition SharedDict_Incr :: "nanos \<Rightarrow> string \<Rightarrow> int \<Rightarrow> SharedDict \<Rightarrow> (string + int) \<times> SharedDict" where
  "SharedDict_Incr now key increment d =
     (case (case map_of (sd_data d) key of
              Some e \<Rightarrow> Some (e, d)
            | None \<Rightarrow>
                (case make_room now d of (ok, d1) \<Rightarrow>
                   let e = \<lparr>se_expiredAt = None, se_value = ''0''\<rparr>
                   in if ok then Some (e, push_entry key e d1) else None)) of
        None \<Rightarrow> (Inr 0, snd (make_room now d))
      | Some (e, d2) \<Rightarrow>
          (case parse_counter (se_value e) 0 of
             None \<Rightarrow> (Inl ''not a number'', d2)
           | Some current \<Rightarrow>
               let newValue = wrap64 (current + increment)
               in (Inr newValue, sd_MoveToFront key (put_entry key (e\<lparr>se_value := intToStr newValue\<rparr>) d2))))"

definition SharedDict_Delete :: "string \<Rightarrow> SharedDict \<Rightarrow> SharedDict" where
  "SharedDict_Delete key d = (case map_of (sd_data d) key of Some _ \<Rightarrow> deleteEntry key d | None \<Rightarrow> d)"

definition FlushAll :: "SharedDict \<Rightarrow> SharedDict" where
  "FlushAll d = d\<lparr>sd_data := [], sd_lruList := []\<rparr>"

definition FlushExpired :: "nanos \<Rightarrow> SharedDict \<Rightarrow> int \<times> SharedDict" where
  "FlushExpired now d = evictExpired now d"

definition SharedDict_Size :: "SharedDict \<Rightarrow> int" where
  "SharedDict_Size d = int (length (sd_data d))"

definition FreeSlots :: "SharedDict \<Rightarrow> int" where
  "FreeSlots d = sd_maxItems d - int (length (sd_data d))"

section \<open>The Lua methods\<close>

text \<open>\<open>exptime\<close> is the optional fourth argument in seconds; the conversion to a duration truncates.\<close>

datatype lua_value = LNil | LBool bool | LString string | LNumber int | LTable

definition ttl_of :: "rat option \<Rightarrow> nanos" where
  "ttl_of exptime =
     (case exptime of
        None \<Rightarrow> 0
      | Some s \<Rightarrow> let x = s * 1000000000 in if x \<ge> 0 then \<lfloor>x\<rfloor> else \<lceil>x\<rceil>)"

definition dictGet :: "nanos \<Rightarrow> string \<Rightarrow> SharedDict \<Rightarrow> lua_value list \<times> SharedDict" where
  "dictGet now key d =
     (case SharedDict_Get now key d of ((val, expired), d1) \<Rightarrow>
        (if expired then [LNil, LString ''expired'']
         else if val = [] then [LNil]
         else [LString val, LNumber 0], d1))"

definition dictSet :: "nanos \<Rightarrow> string \<Rightarrow> string \<Rightarrow> rat option \<Rightarrow> SharedDict \<Rightarrow> lua_value list \<times> SharedDict" where
  "dictSet now key val exptime d =
     (case SharedDict_Set now key val (ttl_of exptime) d of (ok, d1) \<Rightarrow>
        (if ok then [LBool True] else [LBool False, LString ''no memory''], d1))"

definition dictAdd :: "nanos \<Rightarrow> string \<Rightarrow> string \<Rightarrow> rat option \<Rightarrow> SharedDict \<Rightarrow> lua_value list \<times> SharedDict" where
  "dictAdd now key val exptime d =
     (case SharedDict_Add now key val (ttl_of exptime) d of (ok, d1) \<Rightarrow>
        (if ok then [LBool True] else [LBool False, LString ''exists''], d1))"

text \<open>\<open>replace\<close> takes the mutex twice; nothing comes between the two calls here.\<close>

definition dictReplace :: "nanos \<Rightarrow> string \<Rightarrow> string \<Rightarrow> rat option \<Rightarrow> SharedDict \<Rightarrow> lua_value list \<times> SharedDict" where
  "dictReplace now key val exptime d =
     (case SharedDict_Get now key d of ((old, expired), d1) \<Rightarrow>
        if old = [] \<and> \<not> expired then ([LBool False, LString ''not found''], d1)
        else if expired then ([LBool False, LString ''not found''], d1)
        else case SharedDict_Set now key val (ttl_of exptime) d1 of (ok, d2) \<Rightarrow>
               (if ok then [LBool True] else [LBool False, LString ''no memory''], d2))"

definition dictIncr :: "nanos \<Rightarrow> string \<Rightarrow> int \<Rightarrow> SharedDict \<Rightarrow> lua_value list \<times> SharedDict" where
  "dictIncr now key increment d =
     (case SharedDict_Incr now key increment d of
        (Inl err, d1) \<Rightarrow> ([LNil, LString err], d1)
      | (Inr newValue, d1) \<Rightarrow>
          (if newValue = 0 then [LNil, LString ''not a number''] else [LNumber newValue], d1))"

definition dictDelete :: "string \<Rightarrow> SharedDict \<Rightarrow> lua_value list \<times> SharedDict" where
  "dictDelete key d = ([LBool True], SharedDict_Delete key d)"

definition dictFlushAll :: "SharedDict \<Rightarrow> lua_value list \<times> SharedDict" where
  "dictFlushAll d = ([], FlushAll d)"

definition dictFlushExpired :: "nanos \<Rightarrow> SharedDict \<Rightarrow> lua_value list \<times> SharedDict" where
  "dictFlushExpired now d = (case FlushExpired now d of (n, d1) \<Rightarrow> ([LNumber n], d1))"

definition dictGetKeys :: "SharedDict \<Rightarrow> lua_value list \<times> SharedDict" where
  "dictGetKeys d = ([LTable], d)"

definition dictSize :: "SharedDict \<Rightarrow> lua_value list \<times> SharedDict" where
  "dictSize d = ([LNumber (SharedDict_Size d)], d)"

definition dictFreeSpace :: "SharedDict \<Rightarrow> lua_value list \<times> SharedDict" where
  "dictFreeSpace d = ([LNumber (FreeSlots d)], d)"

definition dictToString :: "SharedDict \<Rightarrow> string" where
  "dictToString d = ''ngx.shared.dict:'' @ sd_name d"

text \<open>The manager of the named dictionaries; \<open>dicts\<close> is nil after \<open>Close\<close>, and writing to a nil map panics.\<close>

record SharedDictManager =
  sm_dicts :: "(string \<rightharpoonup> SharedDict) option"

definition NewSharedDictManager :: SharedDictManager where
  "NewSharedDictManager = \<lparr>sm_dicts = Some Map.empty\<rparr>"

definition GetDict :: "string \<Rightarrow> SharedDictManager \<Rightarrow> SharedDict option" where
  "GetDict n m = (case sm_dicts m of None \<Rightarrow> None | Some ds \<Rightarrow> ds n)"

definition CreateDict :: "string \<Rightarrow> int \<Rightarrow> SharedDictManager \<Rightarrow> go_panic + SharedDict \<times> SharedDictManager" where
  "CreateDict n mx m =
     (case GetDict n m of
        Some d \<Rightarrow> Inr (d, m)
      | None \<Rightarrow>
          (let d = NewSharedDict n mx
           in case sm_dicts m of
                None \<Rightarrow> Inl NilDereference
              | Some ds \<Rightarrow> Inr (d, m\<lparr>sm_dicts := Some (ds(n \<mapsto> d))\<rparr>)))"

definition Manager_Close :: "SharedDictManager \<Rightarrow> SharedDictManager" where
  "Manager_Close m = m\<lparr>sm_dicts := None\<rparr>"

section \<open>Specification: a recency list\<close>

text \<open>An abstract dictionary is its capacity and the list of its entries, most recently used first.\<close>

type_synonym dict_entry = "string \<times> string \<times> nanos option"
type_synonym dict_spec = "int \<times> dict_entry list"

fun past :: "nanos \<Rightarrow> dict_entry \<Rightarrow> bool" where
  "past now (k, v, None) \<longleftrightarrow> False"
| "past now (k, v, Some t) \<longleftrightarrow> t < now"

definition drop_key :: "string \<Rightarrow> dict_entry list \<Rightarrow> dict_entry list" where
  "drop_key k xs = filter (\<lambda>x. fst x \<noteq> k) xs"

definition trim_past :: "nanos \<Rightarrow> dict_entry list \<Rightarrow> dict_entry list" where
  "trim_past now xs = rev (dropWhile (past now) (rev xs))"

definition spec_room :: "nanos \<Rightarrow> dict_spec \<Rightarrow> bool \<times> dict_spec" where
  "spec_room now s =
     (case s of (cap, xs) \<Rightarrow>
        if int (length xs) < cap then (True, cap, xs)
        else let ys = trim_past now xs
             in if int (length ys) < cap then (True, cap, ys)
                else (ys \<noteq> [], cap, butlast ys))"

definition spec_insert :: "nanos \<Rightarrow> dict_entry \<Rightarrow> dict_spec \<Rightarrow> bool \<times> dict_spec" where
  "spec_insert now x s = (case spec_room now s of (ok, cap, ys) \<Rightarrow> (ok, cap, if ok then x # ys else ys))"

datatype dict_op =
    DGet string
  | DSet string string nanos
  | DAdd string string nanos
  | DIncr string int
  | DDelete string
  | DFlushAll
  | DFlushExpired
  | DSize
  | DFreeSlots

datatype dict_answer = AValue string bool | ADone bool | ANumber int | ANotANumber

fun spec_step :: "nanos \<times> dict_op \<Rightarrow> dict_spec \<Rightarrow> dict_answer \<times> dict_spec" where
  "spec_step (now, DGet k) (cap, xs) =
     (case map_of xs k of
        None \<Rightarrow> (AValue [] False, cap, xs)
      | Some (v, t) \<Rightarrow>
          if past now (k, v, t) then (AValue [] True, cap, drop_key k xs)
          else (AValue v False, cap, (k, v, t) # drop_key k xs))"
| "spec_step (now, DSet k v ttl) (cap, xs) =
     (if map_of xs k = None then map_prod ADone id (spec_insert now (k, v, expiry now ttl) (cap, xs))
      else (ADone True, cap, (k, v, expiry now ttl) # drop_key k xs))"
| "spec_step (now, DAdd k v ttl) (cap, xs) =
     (if map_of xs k = None then map_prod ADone id (spec_insert now (k, v, expiry now ttl) (cap, xs))
      else (ADone False, cap, xs))"
| "spec_step (now, DIncr k n) (cap, xs) =
     (case map_of xs k of
        None \<Rightarrow>
          (case spec_insert now (k, intToStr (wrap64 n), None) (cap, xs) of
             (ok, s) \<Rightarrow> (ANumber (if ok then wrap64 n else 0), s))
      | Some (v, t) \<Rightarrow>
          (case parse_counter v 0 of
             None \<Rightarrow> (ANotANumber, cap, xs)
           | Some m \<Rightarrow> (ANumber (wrap64 (m + n)), cap, (k, intToStr (wrap64 (m + n)), t) # drop_key k xs)))"
| "spec_step (now, DDelete k) (cap, xs) = (ADone True, cap, drop_key k xs)"
| "spec_step (now, DFlushAll) (cap, xs) = (ADone True, cap, [])"
| "spec_step (now, DFlushExpired) (cap, xs) =
     (ANumber (int (length xs) - int (length (trim_past now xs))), cap, trim_past now xs)"
| "spec_step (now, DSize) (cap, xs) = (ANumber (int (length xs)), cap, xs)"
| "spec_step (now, DFreeSlots) (cap, xs) = (ANumber (cap - int (length xs)), cap, xs)"

text \<open>The same operations of the program.\<close>

fun dict_step :: "nanos \<times> dict_op \<Rightarrow> SharedDict \<Rightarrow> dict_answer \<times> SharedDict" where
  "dict_step (now, DGet k) d = map_prod (case_prod AValue) id (SharedDict_Get now k d)"
| "dict_step (now, DSet k v ttl) d = map_prod ADone id (SharedDict_Set now k v ttl d)"
| "dict_step (now, DAdd k v ttl) d = map_prod ADone id (SharedDict_Add now k v ttl d)"
| "dict_step (now, DIncr k n) d = map_prod (case_sum (\<lambda>_. ANotANumber) ANumber) id (SharedDict_Incr now k n d)"
| "dict_step (now, DDelete k) d = (ADone True, SharedDict_Delete k d)"
| "dict_step (now, DFlushAll) d = (ADone True, FlushAll d)"
| "dict_step (now, DFlushExpired) d = map_prod ANumber id (FlushExpired now d)"
| "dict_step (now, DSize) d = (ANumber (SharedDict_Size d), d)"
| "dict_step (now, DFreeSlots) d = (ANumber (FreeSlots d), d)"

section \<open>The refinement\<close>

definition sd_inv :: "SharedDict \<Rightarrow> bool" where
  "sd_inv d \<longleftrightarrow> distinct (map fst (sd_data d)) \<and> distinct (sd_lruList d) \<and> set (sd_lruList d) = fst ` set (sd_data d)"

definition entry_of :: "(string \<times> sharedDictEntry) list \<Rightarrow> string \<Rightarrow> dict_entry" where
  "entry_of al k = (k, case map_of al k of Some e \<Rightarrow> (se_value e, se_expiredAt e) | None \<Rightarrow> ([], None))"

definition sd_abs :: "SharedDict \<Rightarrow> dict_spec" where
  "sd_abs d = (sd_maxItems d, map (entry_of (sd_data d)) (sd_lruList d))"

lemma fst_entry_of [simp]: "fst (entry_of al k) = k"
  by (simp add: entry_of_def)

lemma sd_inv_lookup: "sd_inv d \<Longrightarrow> map_of (sd_data d) k = None \<longleftrightarrow> k \<notin> set (sd_lruList d)"
  by (simp add: sd_inv_def map_of_eq_None_iff)

lemma sd_inv_length: "sd_inv d \<Longrightarrow> length (sd_data d) = length (sd_lruList d)"
  unfolding sd_inv_def by (metis distinct_card length_map list.set_map)

lemma map_of_entries:
  assumes "sd_inv d"
  shows "map_of (snd (sd_abs d)) k = map_option (\<lambda>e. (se_value e, se_expiredAt e)) (map_of (sd_data d) k)"
proof -
  have "map_of (map (entry_of al) ks) k = (if k \<in> set ks then Some (snd (entry_of al k)) else None)" for ks al
    by (induction ks) (simp_all add: entry_of_def)
  then show ?thesis
    using sd_inv_lookup [OF assms, of k] by (cases "map_of (sd_data d) k") (simp_all add: entry_of_def sd_abs_def)
qed

lemma past_entry_of: "map_of al k = Some e \<Longrightarrow> past now (entry_of al k) = entry_expired now e"
  by (cases "se_expiredAt e") (simp_all add: entry_of_def entry_expired_def)

lemma entry_of_delete: "k \<notin> set ks \<Longrightarrow> map (entry_of (AList.delete k al)) ks = map (entry_of al) ks"
  by (auto simp: entry_of_def AList.delete_conv')

lemma entry_of_update: "k \<notin> set ks \<Longrightarrow> map (entry_of (AList.update k e al)) ks = map (entry_of al) ks"
  by (auto simp: entry_of_def AList.update_conv')

lemma drop_key_map: "drop_key k (map (entry_of al) ks) = map (entry_of al) (removeAll k ks)"
  by (induction ks) (simp_all add: drop_key_def)

lemma length_sd_abs: "sd_inv d \<Longrightarrow> length (snd (sd_abs d)) = length (sd_data d)"
  by (simp add: sd_abs_def sd_inv_length)

lemma fst_sd_abs [simp]: "fst (sd_abs d) = sd_maxItems d"
  by (simp add: sd_abs_def)

text \<open>How the primitive updates act on the recency list.\<close>

lemma keys_delete: "fst ` set (AList.delete k al) = fst ` set al - {k}"
  by (metis delete_keys list.set_map set_removeAll)

lemma keys_update: "fst ` set (AList.update k e al) = insert k (fst ` set al)"
  by (simp add: dom_update)

lemma inv_delete: "sd_inv d \<Longrightarrow> sd_inv (deleteEntry k d)"
  by (simp add: sd_inv_def deleteEntry_def AList.distinct_delete keys_delete)

lemma abs_delete: "sd_inv d \<Longrightarrow> sd_abs (deleteEntry k d) = (sd_maxItems d, drop_key k (snd (sd_abs d)))"
  by (simp add: sd_abs_def deleteEntry_def drop_key_map distinct_remove1_removeAll sd_inv_def entry_of_delete)

lemma inv_touch: "sd_inv d \<Longrightarrow> map_of (sd_data d) k \<noteq> None \<Longrightarrow> sd_inv (sd_MoveToFront k d)"
  by (auto simp: sd_inv_def sd_MoveToFront_def map_of_eq_None_iff)

lemma abs_touch: "sd_inv d \<Longrightarrow> sd_abs (sd_MoveToFront k d) = (sd_maxItems d, entry_of (sd_data d) k # drop_key k (snd (sd_abs d)))"
  by (simp add: sd_abs_def sd_MoveToFront_def drop_key_map distinct_remove1_removeAll sd_inv_def)

lemma inv_put: "sd_inv d \<Longrightarrow> map_of (sd_data d) k \<noteq> None \<Longrightarrow> sd_inv (put_entry k e d)"
  by (auto simp: sd_inv_def put_entry_def keys_update AList.distinct_update map_of_eq_None_iff)

lemma abs_put_touch:
  "sd_inv d \<Longrightarrow> sd_abs (sd_MoveToFront k (put_entry k e d)) =
     (sd_maxItems d, (k, se_value e, se_expiredAt e) # drop_key k (snd (sd_abs d)))"
  by (simp add: sd_abs_def sd_MoveToFront_def put_entry_def drop_key_map distinct_remove1_removeAll sd_inv_def
      entry_of_update) (simp add: entry_of_def AList.update_conv')

lemma inv_push: "sd_inv d \<Longrightarrow> map_of (sd_data d) k = None \<Longrightarrow> sd_inv (push_entry k e d)"
  by (auto simp: sd_inv_def push_entry_def put_entry_def keys_update AList.distinct_update map_of_eq_None_iff)

lemma abs_push:
  "sd_inv d \<Longrightarrow> map_of (sd_data d) k = None \<Longrightarrow>
     sd_abs (push_entry k e d) = (sd_maxItems d, (k, se_value e, se_expiredAt e) # snd (sd_abs d))"
  by (simp add: sd_abs_def push_entry_def put_entry_def sd_inv_lookup entry_of_update) (simp add: entry_of_def AList.update_conv')

lemma trim_past_snoc: "trim_past now (xs @ [x]) = (if past now x then trim_past now xs else xs @ [x])"
  by (simp add: trim_past_def)

lemma evictExpired_abs:
  "sd_inv d \<Longrightarrow> sd_inv (snd (evictExpired now d)) \<and>
     sd_abs (snd (evictExpired now d)) = (sd_maxItems d, trim_past now (snd (sd_abs d))) \<and>
     fst (evictExpired now d) = int (length (snd (sd_abs d))) - int (length (trim_past now (snd (sd_abs d))))"
proof (induction now d rule: evictExpired.induct)
  case (1 now d)
  show ?case
  proof (cases "sd_lruList d = []")
    case True
    then show ?thesis using 1 by (subst (1 2 3) evictExpired.simps) (simp add: sd_abs_def trim_past_def)
  next
    case False
    then obtain ks k where ks: "sd_lruList d = ks @ [k]" by (metis rev_exhaust)
    then have k: "last (sd_lruList d) = k" "k \<notin> set ks" using "1.prems" by (simp_all add: sd_inv_def)
    obtain e where e: "map_of (sd_data d) k = Some e" using sd_inv_lookup [OF "1.prems", of k] ks by auto
    show ?thesis
    proof (cases "entry_expired now e")
      case False
      then show ?thesis
        using k e ks \<open>sd_lruList d \<noteq> []\<close> "1.prems"
        by (subst (1 2 3) evictExpired.simps) (simp add: sd_abs_def trim_past_snoc past_entry_of)
    next
      case True
      have d': "snd (sd_abs (deleteEntry k d)) = map (entry_of (sd_data d)) ks"
        using ks k(2) by (simp add: sd_abs_def deleteEntry_def entry_of_delete remove1_append)
      have old: "snd (sd_abs d) = map (entry_of (sd_data d)) ks @ [entry_of (sd_data d) k]"
        "trim_past now (snd (sd_abs d)) = trim_past now (map (entry_of (sd_data d)) ks)"
        "sd_maxItems (deleteEntry k d) = sd_maxItems d"
        using ks e True by (simp_all add: sd_abs_def trim_past_snoc past_entry_of deleteEntry_def)
      have step: "evictExpired now d = (let (count, d') = evictExpired now (deleteEntry k d) in (count + 1, d'))"
        using k e True \<open>sd_lruList d \<noteq> []\<close> by (subst evictExpired.simps) simp
      show ?thesis
        unfolding step
        using "1.IH"(2) [OF False k(1) [symmetric] e True inv_delete [OF "1.prems"]] old d'
        by (simp add: split_beta)
    qed
  qed
qed

lemma evictLRU_abs:
  assumes "sd_inv d"
  shows "sd_inv (snd (evictLRU_dict d)) \<and> sd_abs (snd (evictLRU_dict d)) = (sd_maxItems d, butlast (snd (sd_abs d))) \<and>
    fst (evictLRU_dict d) = (snd (sd_abs d) \<noteq> [])"
proof (cases "sd_lruList d = []")
  case True
  then show ?thesis using assms by (subst (1 2 3) evictLRU_dict.simps) (simp add: sd_abs_def)
next
  case False
  then obtain ks k where ks: "sd_lruList d = ks @ [k]" by (metis rev_exhaust)
  then have k: "last (sd_lruList d) = k" "k \<notin> set ks" using assms by (simp_all add: sd_inv_def)
  obtain e where e: "map_of (sd_data d) k = Some e" using sd_inv_lookup [OF assms, of k] ks by auto
  have "evictLRU_dict d = (True, deleteEntry k d)" using False k(1) e by (subst evictLRU_dict.simps) simp
  moreover have "snd (sd_abs (deleteEntry k d)) = map (entry_of (sd_data d)) ks"
    using ks k(2) by (simp add: sd_abs_def deleteEntry_def entry_of_delete remove1_append)
  ultimately show ?thesis using inv_delete [OF assms] ks by (simp add: sd_abs_def deleteEntry_def)
qed

lemma make_room_abs:
  assumes "sd_inv d"
  shows "sd_inv (snd (make_room now d)) \<and> spec_room now (sd_abs d) = map_prod id sd_abs (make_room now d)"
proof -
  let ?d = "snd (evictExpired now d)"
  note x = evictExpired_abs [OF assms, of now]
  then have y: "sd_inv ?d" by simp
  have len: "length (sd_data ?d) = length (trim_past now (snd (sd_abs d)))"
    using length_sd_abs [OF y] x by simp
  have mx: "sd_maxItems ?d = sd_maxItems d" using x by (simp add: sd_abs_def)
  obtain xs where z: "sd_abs d = (sd_maxItems d, xs)" by (simp add: sd_abs_def)
  consider "int (length (sd_data d)) < sd_maxItems d"
    | "sd_maxItems d \<le> int (length (sd_data d))" "int (length (sd_data ?d)) < sd_maxItems d"
    | "sd_maxItems d \<le> int (length (sd_data d))" "sd_maxItems d \<le> int (length (sd_data ?d))" by linarith
  then show ?thesis
  proof cases
    case 1
    then show ?thesis using assms length_sd_abs [OF assms] z by (simp add: make_room_def spec_room_def)
  next
    case 2
    then show ?thesis using x y len mx length_sd_abs [OF assms] z by (simp add: make_room_def spec_room_def Let_def)
  next
    case 3
    then show ?thesis using x y len mx length_sd_abs [OF assms] evictLRU_abs [OF y] z
      by (simp add: make_room_def spec_room_def Let_def map_prod_def split_beta)
  qed
qed

lemma make_room_absent:
  assumes "sd_inv d" "map_of (sd_data d) k = None"
  shows "map_of (sd_data (snd (make_room now d))) k = None"
proof -
  have "set (snd (sd_abs (snd (make_room now d)))) \<subseteq> set (snd (sd_abs d))"
  proof -
    have t: "set (trim_past now xs) \<subseteq> set xs" for xs
      by (simp add: trim_past_def) (metis set_dropWhileD set_rev subsetI)
    have b: "set (butlast (trim_past now xs)) \<subseteq> set xs" for xs
      using t by (metis in_set_butlastD subset_iff)
    have "set (snd (snd (spec_room now s))) \<subseteq> set (snd s)" for s
      using t b by (cases s) (simp add: spec_room_def Let_def)
    then show ?thesis using make_room_abs [OF assms(1), of now] by (metis snd_map_prod)
  qed
  moreover have "k \<notin> fst ` set (snd (sd_abs d))"
    using assms sd_inv_lookup [OF assms(1)] by (auto simp: sd_abs_def)
  ultimately have "k \<notin> fst ` set (snd (sd_abs (snd (make_room now d))))" by blast
  then show ?thesis
    using sd_inv_lookup [of "snd (make_room now d)" k] make_room_abs [OF assms(1), of now] by (simp add: sd_abs_def image_image)
qed

text \<open>Inserting a new key.\<close>

definition insert_new :: "nanos \<Rightarrow> string \<Rightarrow> sharedDictEntry \<Rightarrow> SharedDict \<Rightarrow> bool \<times> SharedDict" where
  "insert_new now k e d = (case make_room now d of (ok, d1) \<Rightarrow> if ok then (True, push_entry k e d1) else (False, d1))"

lemma insert_new_abs:
  assumes "sd_inv d" "map_of (sd_data d) k = None"
  shows "sd_inv (snd (insert_new now k e d)) \<and>
    spec_insert now (k, se_value e, se_expiredAt e) (sd_abs d) = map_prod id sd_abs (insert_new now k e d)"
proof -
  obtain ok d1 where r: "make_room now d = (ok, d1)" by (metis prod.exhaust_sel)
  have d1: "sd_inv d1" "spec_room now (sd_abs d) = (ok, sd_abs d1)" "map_of (sd_data d1) k = None"
    using make_room_abs [OF assms(1), of now] make_room_absent [OF assms, of now] r by simp_all
  show ?thesis
    using d1 r inv_push [OF d1(1,3)] abs_push [OF d1(1,3)]
    by (cases ok) (simp_all add: insert_new_def spec_insert_def split_beta)
qed

lemma drop_absent: "k \<notin> fst ` set xs \<Longrightarrow> drop_key k xs = xs"
  by (auto simp: drop_key_def filter_id_conv)

lemma parse_zero: "parse_counter ''0'' 0 = Some 0"
  by code_simp

lemma Incr_new:
  assumes "map_of (sd_data d) k = None"
  shows "SharedDict_Incr now k n d =
    (let (ok, d1) = make_room now d
     in if ok then (Inr (wrap64 n), sd_MoveToFront k (put_entry k \<lparr>se_expiredAt = None, se_value = intToStr (wrap64 n)\<rparr>
                                     (push_entry k \<lparr>se_expiredAt = None, se_value = ''0''\<rparr> d1)))
        else (Inr 0, d1))"
  using assms parse_zero by (cases "make_room now d") (simp add: SharedDict_Incr_def Let_def)

lemma touch_push: "sd_MoveToFront k (put_entry k e (push_entry k e' d)) = push_entry k e d"
  by (simp add: sd_MoveToFront_def put_entry_def push_entry_def)

lemma Incr_new_insert:
  assumes "map_of (sd_data d) k = None"
  shows "SharedDict_Incr now k n d =
    (let (ok, d1) = insert_new now k \<lparr>se_expiredAt = None, se_value = intToStr (wrap64 n)\<rparr> d
     in (Inr (if ok then wrap64 n else 0), d1))"
  unfolding Incr_new [OF assms] touch_push insert_new_def
  by (cases "make_room now d") (simp add: Let_def)

definition simulated :: "nanos \<times> dict_op \<Rightarrow> SharedDict \<Rightarrow> bool" where
  "simulated op d \<longleftrightarrow>
     sd_inv (snd (dict_step op d)) \<and> spec_step op (sd_abs d) = map_prod id sd_abs (dict_step op d)"

lemma sd_abs_cases: obtains xs where "sd_abs d = (sd_maxItems d, xs)"
  by (simp add: sd_abs_def)

lemma simulated_insert:
  assumes "sd_inv d" "map_of (sd_data d) k = None"
    and "dict_step op d = map_prod f id (insert_new now k e d)"
    and "spec_step op (sd_abs d) = map_prod f id (spec_insert now (k, se_value e, se_expiredAt e) (sd_abs d))"
  shows "simulated op d"
  using assms(3,4) insert_new_abs [OF assms(1,2), of now e] by (simp add: simulated_def map_prod_def split_beta)

lemma simulated_update:
  assumes "sd_inv d" "map_of (sd_data d) k \<noteq> None"
    and "dict_step op d = (r, sd_MoveToFront k (put_entry k e d))"
    and "spec_step op (sd_abs d) = (r, sd_maxItems d, (k, se_value e, se_expiredAt e) # drop_key k (snd (sd_abs d)))"
  shows "simulated op d"
proof -
  have "sd_inv (sd_MoveToFront k (put_entry k e d))"
    using inv_put [OF assms(1,2), of e] assms(2) by (intro inv_touch) (simp_all add: put_entry_def AList.update_conv')
  then show ?thesis using assms(3,4) abs_put_touch [OF assms(1), of k e] by (simp add: simulated_def)
qed

lemma Get_simulated:
  assumes inv: "sd_inv d"
  shows "simulated (now, DGet k) d"
proof -
  obtain xs where z: "sd_abs d = (sd_maxItems d, xs)" by (rule sd_abs_cases)
  show ?thesis
  proof (cases "map_of (sd_data d) k")
    case None
    then show ?thesis using map_of_entries [OF inv, of k] inv z
      by (simp add: simulated_def SharedDict_Get_def)
  next
    case (Some e)
    then have p: "past now (k, se_value e, se_expiredAt e) = entry_expired now e"
      "entry_of (sd_data d) k = (k, se_value e, se_expiredAt e)"
      using past_entry_of [of "sd_data d" k e now] by (simp_all add: entry_of_def)
    then show ?thesis
      using Some map_of_entries [OF inv, of k] inv_delete [OF inv] abs_delete [OF inv] inv_touch [OF inv, of k] abs_touch [OF inv] z
      by (cases "entry_expired now e") (simp_all add: simulated_def SharedDict_Get_def)
  qed
qed

lemma Set_simulated:
  assumes inv: "sd_inv d"
  shows "simulated (now, DSet k v ttl) d"
proof -
  obtain xs where z: "sd_abs d = (sd_maxItems d, xs)" by (rule sd_abs_cases)
  show ?thesis
  proof (cases "map_of (sd_data d) k")
    case None
    then show ?thesis
      using map_of_entries [OF inv, of k] z
      by (intro simulated_insert [OF inv None, where e = "\<lparr>se_expiredAt = expiry now ttl, se_value = v\<rparr>" and f = ADone and now = now])
        (simp_all add: SharedDict_Set_def insert_new_def)
  next
    case (Some e)
    then show ?thesis
      using map_of_entries [OF inv, of k] z
      by (intro simulated_update [OF inv, where e = "\<lparr>se_expiredAt = expiry now ttl, se_value = v\<rparr>" and k = k and r = "ADone True"])
        (simp_all add: SharedDict_Set_def)
  qed
qed

lemma Add_simulated:
  assumes inv: "sd_inv d"
  shows "simulated (now, DAdd k v ttl) d"
proof -
  obtain xs where z: "sd_abs d = (sd_maxItems d, xs)" by (rule sd_abs_cases)
  show ?thesis
  proof (cases "map_of (sd_data d) k")
    case None
    then show ?thesis
      using map_of_entries [OF inv, of k] z
      by (intro simulated_insert [OF inv None, where e = "\<lparr>se_expiredAt = expiry now ttl, se_value = v\<rparr>" and f = ADone and now = now])
        (simp_all add: SharedDict_Add_def insert_new_def)
  next
    case (Some e)
    then show ?thesis using map_of_entries [OF inv, of k] inv z
      by (simp add: simulated_def SharedDict_Add_def)
  qed
qed

lemma Incr_simulated:
  assumes inv: "sd_inv d"
  shows "simulated (now, DIncr k n) d"
proof -
  obtain xs where z: "sd_abs d = (sd_maxItems d, xs)" by (rule sd_abs_cases)
  show ?thesis
  proof (cases "map_of (sd_data d) k")
    case None
    show ?thesis
      using None map_of_entries [OF inv, of k] z Incr_new_insert [OF None, of now n]
      by (intro simulated_insert [OF inv None, where e = "\<lparr>se_expiredAt = None, se_value = intToStr (wrap64 n)\<rparr>" and now = now
            and f = "\<lambda>ok. ANumber (if ok then wrap64 n else 0)"])
        (simp_all add: Let_def split_beta map_prod_def)
  next
    case (Some e)
    show ?thesis
    proof (cases "parse_counter (se_value e) 0")
      case None
      then show ?thesis using Some map_of_entries [OF inv, of k] inv z
        by (simp add: simulated_def SharedDict_Incr_def)
    next
      case c: (Some c)
      show ?thesis
        using Some c map_of_entries [OF inv, of k] z
        by (intro simulated_update [OF inv, where e = "e\<lparr>se_value := intToStr (wrap64 (c + n))\<rparr>" and k = k
              and r = "ANumber (wrap64 (c + n))"]) (simp_all add: SharedDict_Incr_def Let_def)
    qed
  qed
qed

lemma dict_step_simulated:
  assumes inv: "sd_inv d"
  shows "simulated (now, op) d"
proof -
  obtain xs where z: "sd_abs d = (sd_maxItems d, xs)" by (rule sd_abs_cases)
  show ?thesis
  proof (cases op)
    case (DDelete k)
    have "k \<notin> fst ` set (snd (sd_abs d))" if "map_of (sd_data d) k = None"
      using that map_of_entries [OF inv, of k] by (metis map_of_eq_None_iff option.simps(8))
    then show ?thesis
      using DDelete inv inv_delete [OF inv, of k] abs_delete [OF inv, of k] drop_absent [of k "snd (sd_abs d)"] z
      by (cases "map_of (sd_data d) k") (simp_all add: simulated_def SharedDict_Delete_def)
  next
    case DFlushAll
    then show ?thesis using z by (simp add: simulated_def FlushAll_def sd_inv_def) (simp add: sd_abs_def)
  next
    case DFlushExpired
    then show ?thesis using z evictExpired_abs [OF inv, of now]
      by (simp add: simulated_def FlushExpired_def map_prod_def split_beta)
  next
    case DSize
    then show ?thesis using z inv length_sd_abs [OF inv] by (simp add: simulated_def SharedDict_Size_def)
  next
    case DFreeSlots
    then show ?thesis using z inv length_sd_abs [OF inv] by (simp add: simulated_def FreeSlots_def)
  qed (simp_all add: inv Get_simulated Set_simulated Add_simulated Incr_simulated)
qed

interpretation dict: refines dict_step spec_step sd_abs sd_inv
  by unfold_locales (metis dict_step_simulated prod.exhaust simulated_def)+

lemma sd_inv_new: "sd_inv (NewSharedDict n mx)"
  by (simp add: NewSharedDict_def sd_inv_def)

section \<open>Properties\<close>

text \<open>C7. The dictionary refines the recency list: every sequence of operations at
  any times gives, on a new dictionary of any capacity, the answers of the specification, and leaves the map and
  the recency list as one list of entries.\<close>

theorem shared_dict_refines:
  "run_ops spec_step ops (mx, []) = map_prod id sd_abs (run_ops dict_step ops (NewSharedDict n mx))"
proof -
  have "sd_abs (NewSharedDict n mx) = (mx, [])" by (simp add: NewSharedDict_def sd_abs_def)
  then show ?thesis using dict.run_refines [OF sd_inv_new, of ops n mx] by simp
qed

text \<open>What room making drops: a tail of the recency list, in which only the most recently used entry may be live.\<close>

lemma trim_past_take: "\<exists>m. trim_past now xs = take m xs \<and> list_all (past now) (drop m xs)"
proof -
  let ?w = "takeWhile (past now) (rev xs)"
  have "xs = trim_past now xs @ rev ?w"
    by (metis rev_append rev_rev_ident takeWhile_dropWhile_id trim_past_def)
  moreover have "list_all (past now) (rev ?w)" by (auto simp: list_all_iff dest: set_takeWhileD)
  ultimately show ?thesis by (metis append_eq_conv_conj)
qed

lemma butlast_take_tl:
  assumes "ys = take m xs" "list_all P (drop m xs)"
  shows "\<exists>j. butlast ys = take j xs \<and> list_all P (tl (drop j xs))"
proof (cases "m \<le> length xs \<and> m \<noteq> 0")
  case True
  then have "butlast ys = take (m - 1) xs" using assms(1) by (simp add: butlast_take)
  moreover have "tl (drop (m - 1) xs) = drop m xs" using True by (simp add: tl_drop drop_Suc [symmetric] flip: drop_Suc)
  ultimately show ?thesis using assms(2) by metis
next
  case False
  then consider "m = 0" | "length xs < m" by linarith
  then show ?thesis
  proof cases
    case 1
    then show ?thesis using assms by (intro exI [of _ 0]) (cases xs, simp_all)
  next
    case 2
    then show ?thesis using assms(1) by (intro exI [of _ "length xs - 1"]) (cases xs rule: rev_cases, simp_all)
  qed
qed

lemma spec_room_tail:
  assumes "cap > 0"
  shows "\<exists>m ys. spec_room now (cap, xs) = (True, cap, ys) \<and> ys = take m xs \<and> list_all (past now) (tl (drop m xs)) \<and>
    int (length ys) \<le> max (cap - 1) (int (length xs) - 1) \<and> (int (length xs) < cap \<longrightarrow> ys = xs)"
proof (cases "int (length xs) < cap")
  case True
  then show ?thesis by (intro exI [of _ "length xs"]) (simp add: spec_room_def)
next
  case False
  obtain m where m: "trim_past now xs = take m xs" "list_all (past now) (drop m xs)" using trim_past_take by blast
  show ?thesis
  proof (cases "int (length (trim_past now xs)) < cap")
    case True
    have "list_all (past now) (tl (drop m xs))" using m(2) by (cases "drop m xs") simp_all
    then show ?thesis using False True m by (intro exI [of _ m] exI [of _ "take m xs"]) (simp add: spec_room_def Let_def)
  next
    case full: False
    obtain j where j: "butlast (trim_past now xs) = take j xs" "list_all (past now) (tl (drop j xs))"
      using butlast_take_tl [OF m] by blast
    have ne: "trim_past now xs \<noteq> []" using full assms by auto
    have "length (trim_past now xs) \<le> length xs" using m(1) by simp
    then have "length (trim_past now xs) - Suc 0 < length xs" using ne by (cases "trim_past now xs") auto
    then show ?thesis using False full ne j
      by (intro exI [of _ j] exI [of _ "take j xs"]) (simp add: spec_room_def Let_def flip: j(1))
  qed
qed

lemma Set_abs:
  assumes inv: "sd_inv d" and cap: "sd_maxItems d > 0"
  shows "\<exists>m d1. SharedDict_Set now k v ttl d = (True, d1) \<and> sd_inv d1 \<and>
    sd_abs d1 = (sd_maxItems d, (k, v, expiry now ttl) # take m (drop_key k (snd (sd_abs d)))) \<and>
    list_all (past now) (tl (drop m (drop_key k (snd (sd_abs d))))) \<and>
    (map_of (sd_data d) k \<noteq> None \<or> SharedDict_Size d < sd_maxItems d \<longrightarrow> drop m (drop_key k (snd (sd_abs d))) = [])"
proof -
  obtain xs where z: "sd_abs d = (sd_maxItems d, xs)" by (rule sd_abs_cases)
  have sim: "sd_inv (snd (SharedDict_Set now k v ttl d))"
    "spec_step (now, DSet k v ttl) (sd_abs d) = map_prod ADone sd_abs (SharedDict_Set now k v ttl d)"
    using Set_simulated [OF inv, of now k v ttl] by (simp_all add: simulated_def map_prod_def split_beta)
  obtain ok d1 where s: "SharedDict_Set now k v ttl d = (ok, d1)" by (metis prod.exhaust)
  have len: "length xs = length (sd_data d)" using length_sd_abs [OF inv] z by simp
  show ?thesis
  proof (cases "map_of xs k")
    case None
    then have drop: "drop_key k xs = xs" by (intro drop_absent) (simp add: map_of_eq_None_iff)
    have old: "map_of (sd_data d) k = None" using None map_of_entries [OF inv, of k] z by simp
    obtain m ys where r: "spec_room now (sd_maxItems d, xs) = (True, sd_maxItems d, ys)" "ys = take m xs"
        "list_all (past now) (tl (drop m xs))" "int (length xs) < sd_maxItems d \<longrightarrow> ys = xs"
      using spec_room_tail [OF cap, of now xs] by blast
    have "drop m xs = []" if "int (length xs) < sd_maxItems d"
      using r(2,4) that by (metis append_take_drop_id self_append_conv)
    then show ?thesis
      using None z s r(1-3) drop old sim len
      by (intro exI [of _ m] exI [of _ d1]) (simp add: spec_insert_def SharedDict_Size_def)
  next
    case (Some e)
    then show ?thesis using z s sim
      by (intro exI [of _ "length (drop_key k xs)"] exI [of _ d1]) simp
  qed
qed

text \<open>C35. \<open>Set\<close> on a consistent dictionary with a positive capacity always succeeds. The entry is read
  back until its expiry time, inclusively, and reported as expired later; a time to live that is not
  positive never expires. The other entries keep their order; those dropped are the least recently used ones, none
  when the key was present or the dictionary was not full, and of them at most the most recently used is
  still live.\<close>

theorem shared_dict_set_get:
  assumes "sd_inv d" "sd_maxItems d > 0"
  shows "fst (SharedDict_Set now k v ttl d) \<and>
    fst (SharedDict_Get t k (snd (SharedDict_Set now k v ttl d))) =
      (if ttl > 0 \<and> t > now + ttl then ([], True) else (v, False)) \<and>
    (\<exists>m. snd (sd_abs (snd (SharedDict_Set now k v ttl d))) = (k, v, expiry now ttl) # take m (drop_key k (snd (sd_abs d))) \<and>
      list_all (past now) (tl (drop m (drop_key k (snd (sd_abs d))))) \<and>
      (map_of (sd_data d) k \<noteq> None \<or> SharedDict_Size d < sd_maxItems d \<longrightarrow> drop m (drop_key k (snd (sd_abs d))) = []))"
proof -
  obtain m d1 where d1: "SharedDict_Set now k v ttl d = (True, d1)" "sd_inv d1"
      "sd_abs d1 = (sd_maxItems d, (k, v, expiry now ttl) # take m (drop_key k (snd (sd_abs d))))"
      "list_all (past now) (tl (drop m (drop_key k (snd (sd_abs d)))))"
      "map_of (sd_data d) k \<noteq> None \<or> SharedDict_Size d < sd_maxItems d \<longrightarrow> drop m (drop_key k (snd (sd_abs d))) = []"
    using Set_abs [OF assms, of now k v ttl] by blast
  obtain e where "map_of (sd_data d1) k = Some e" "se_value e = v" "se_expiredAt e = expiry now ttl"
    using map_of_entries [OF d1(2), of k] d1(3) by (cases "map_of (sd_data d1) k") auto
  then have "fst (SharedDict_Get t k d1) = (if ttl > 0 \<and> t > now + ttl then ([], True) else (v, False))"
    by (simp add: SharedDict_Get_def entry_expired_def expiry_def)
  then show ?thesis using d1 by auto
qed

definition demo_dict :: SharedDict where
  "demo_dict = snd (run_ops dict_step [(0, DSet ''a'' ''1'' 50), (1, DSet ''b'' ''2'' 0), (2, DGet ''a'')] (NewSharedDict ''d'' 2))"

theorem shared_dict_set_get_witness:
  "fst (SharedDict_Get 130 ''c'' (snd (SharedDict_Set 100 ''c'' ''3'' 30 demo_dict))) = (''3'', False) \<and>
   fst (SharedDict_Get 131 ''c'' (snd (SharedDict_Set 100 ''c'' ''3'' 30 demo_dict))) = ([], True)"
proof -
  have "sd_inv demo_dict" "sd_maxItems demo_dict > 0" by code_simp+
  from shared_dict_set_get [OF this, of 100 "''c''" "''3''" 30] show ?thesis by simp
qed

lemma digits_loop_rev: "n > 0 \<Longrightarrow> rev (digits_loop n) = show_nat n"
proof (induction n rule: digits_loop.induct)
  case (1 n)
  then show ?case
    by (subst digits_loop.simps, subst show_nat.simps) (auto simp: digits_loop.simps [of 0])
qed

lemma parse_counter_digits:
  "list_all is_digit s \<Longrightarrow> 0 \<le> m \<Longrightarrow> foldl (\<lambda>acc c. acc * 10 + int (digit_val c)) m s < 2 ^ 63 \<Longrightarrow>
     parse_counter s m = Some (foldl (\<lambda>acc c. acc * 10 + int (digit_val c)) m s)"
proof (induction s arbitrary: m)
  case (Cons c s)
  have mono: "a \<le> foldl (\<lambda>acc c. acc * 10 + int (digit_val c)) a s" if "0 \<le> a" for a s
    using that
  proof (induction s arbitrary: a)
    case (Cons c s)
    have "a \<le> a * 10 + int (digit_val c)" using Cons.prems by simp
    then show ?case using Cons.IH [of "a * 10 + int (digit_val c)"] Cons.prems by simp
  qed simp
  have "m * 10 + int (digit_val c) < 2 ^ 63"
    using mono [of "m * 10 + int (digit_val c)" s] Cons.prems(2,3) by simp
  then have "wrap64 (wrap64 (m * 10) + int (digit_val c)) = m * 10 + int (digit_val c)"
    using Cons.prems(2) by (simp add: wrap64_id in_int64_def)
  then show ?case using Cons by simp
qed simp

lemma foldl_int_digits: "foldl (\<lambda>acc c. acc * 10 + int (digit_val c)) (int m) s = int (foldl (\<lambda>acc c. acc * 10 + digit_val c) m s)"
proof (induction s arbitrary: m)
  case (Cons c s)
  show ?case using Cons [of "m * 10 + digit_val c"] by simp
qed simp

text \<open>C36. The numbers \<open>Incr\<close> writes are read back exactly when they are not negative: a counter that went below zero is
  not a number for the next \<open>Incr\<close>.\<close>

theorem counter_roundtrip:
  assumes "in_int64 n"
  shows "parse_counter (intToStr n) 0 = (if n \<ge> 0 then Some n else None)"
proof -
  consider "n = 0" | "n > 0" | "n < 0" by linarith
  then show ?thesis
  proof cases
    case 2
    have "intToStr n = show_nat (nat n)" using 2 digits_loop_rev [of "nat n"] by (simp add: intToStr_def)
    moreover have "foldl (\<lambda>acc c. acc * 10 + int (digit_val c)) 0 (show_nat (nat n)) = n"
      using foldl_int_digits [of 0 "show_nat (nat n)"] show_nat_digits [of "nat n"] 2 by (simp add: digits_val_def)
    ultimately show ?thesis
      using parse_counter_digits [of "show_nat (nat n)" 0] show_nat_digits [of "nat n"] assms 2 by (simp add: in_int64_def)
  next
    case 3
    then have "\<exists>s. intToStr n = CHR ''-'' # s" by (simp add: intToStr_def Let_def)
    then show ?thesis using 3 by (auto simp: is_digit_def)
  next
    case 1
    then have "intToStr n = ''0''" by (simp add: intToStr_def)
    then show ?thesis using 1 parse_zero by simp
  qed
qed

theorem counter_roundtrip_witness:
  "parse_counter (intToStr 120) 0 = Some 120 \<and> parse_counter (intToStr (- 1)) 0 = None"
  using counter_roundtrip [of 120] counter_roundtrip [of "- 1"] by (simp add: in_int64_def)

text \<open>\<open>FlushExpired\<close> stops at the first live entry from the back: an expired entry that was used later than a
  live one stays.\<close>

lemma flush_expired_incomplete:
  "SharedDict_Size (snd (FlushExpired 1000 demo_dict)) = 2 \<and> fst (SharedDict_Get 1000 ''a'' demo_dict) = ([], True)"
  by code_simp

end
