(* ===== verification/NginxParser.thy ===== *)
theory NginxParser
  imports GoPath
begin

text \<open>
  \<^verbatim>\<open>internal/converter/nginx/parser.go\<close>: the recursive-descent parser for nginx configuration files. The
  parser's state is the record \<open>parser\<close>, with the input that is left in place of the whole input and a
  position. The file system is the record \<open>fs\<close>, a parameter. Reading the blocks of one
  file takes fuel, one unit per nested call, and \<open>None\<close> means that it ran out; \<open>parse_text\<close> gives three units per
  byte and three more, which is always enough. Included files are read one level of depth down; the depth
  limit of the code bounds the levels.
\<close>

section \<open>Data\<close>

datatype Directive = Directive (d_Name: string) (d_Args: "string list") (d_Block: "Directive list") (d_Line: int) (d_File: string)

datatype parse_message =
    ExpectedName | UnexpectedEnd | ExpectedClose | UnexpectedChar char
  | UnterminatedEscape | UnterminatedString
  | DepthExceeded | InvalidPattern string | FileNotFound string | ResolveFailed string | CircularInclude string | ReadFailed | AbsFailed

record ParseError =
  pe_File :: string
  pe_Line :: int
  pe_Message :: parse_message

record parser =
  ps_rest :: string
  ps_line :: int
  ps_file :: string
  ps_includeStack :: "string list"
  ps_depth :: int
  ps_extra :: "Directive list"

record fs =
  fs_read :: "string \<Rightarrow> string option"
  fs_glob :: "string \<Rightarrow> string list option"
  fs_resolve :: "string \<Rightarrow> string option"
  fs_abs :: "string \<Rightarrow> string option"

type_synonym 'a parsed = "(ParseError + 'a) option"

definition pbind :: "'a parsed \<Rightarrow> ('a \<Rightarrow> 'b parsed) \<Rightarrow> 'b parsed" where
  "pbind r k = (case r of None \<Rightarrow> None | Some (Inl e) \<Rightarrow> Some (Inl e) | Some (Inr x) \<Rightarrow> k x)"

definition maxDepth :: int where
  "maxDepth = 10"

definition parse_errorf :: "parser \<Rightarrow> parse_message \<Rightarrow> ParseError" where
  "parse_errorf p msg = \<lparr>pe_File = ps_file p, pe_Line = ps_line p, pe_Message = msg\<rparr>"

section \<open>Tokens\<close>

definition blank :: "char \<Rightarrow> bool" where
  "blank c \<longleftrightarrow> c = CHR '' '' \<or> c = CHR 0x09 \<or> c = CHR 0x0D"

function skip_loop :: "string \<Rightarrow> int \<Rightarrow> string \<times> int" where
  "skip_loop [] line = ([], line)"
| "skip_loop (c # cs) line =
     (if blank c then skip_loop cs line
      else if c = CHR 0x0A then skip_loop cs (line + 1)
      else if c = CHR ''#'' then skip_loop (dropWhile (\<lambda>c. c \<noteq> CHR 0x0A) cs) line
      else (c # cs, line))"
  by pat_completeness auto
termination
  by (relation "measure (\<lambda>(s, line). length s)") (auto simp: less_Suc_eq_le length_dropWhile_le)

definition skipWhitespaceAndComments :: "parser \<Rightarrow> parser" where
  "skipWhitespaceAndComments p = (case skip_loop (ps_rest p) (ps_line p) of (r, l) \<Rightarrow> p\<lparr>ps_rest := r, ps_line := l\<rparr>)"

text \<open>The body of a quoted string: what is left, the line and the text, or an error and its line. An escaped
  newline does not count as a line.\<close>

fun quoted_loop :: "char \<Rightarrow> string \<Rightarrow> int \<Rightarrow> string \<Rightarrow> (parse_message \<times> int) + (string \<times> string \<times> int)" where
  "quoted_loop q [] line buf = Inl (UnterminatedString, line)"
| "quoted_loop q (c # cs) line buf =
     (if c = CHR 0x5C then
        (case cs of [] \<Rightarrow> Inl (UnterminatedEscape, line) | e # es \<Rightarrow> quoted_loop q es line (buf @ [e]))
      else if c = q then Inr (buf, cs, line)
      else quoted_loop q cs (if c = CHR 0x0A then line + 1 else line) (buf @ [c]))"

definition readQuotedString :: "char \<Rightarrow> parser \<Rightarrow> ParseError + string \<times> parser" where
  "readQuotedString q p =
     (case quoted_loop q (tl (ps_rest p)) (ps_line p) [] of
        Inl (msg, line) \<Rightarrow> Inl (parse_errorf (p\<lparr>ps_line := line\<rparr>) msg)
      | Inr (buf, r, line) \<Rightarrow> Inr (buf, p\<lparr>ps_rest := r, ps_line := line\<rparr>))"

definition special :: "char \<Rightarrow> bool" where
  "special c \<longleftrightarrow> c = CHR ''{'' \<or> c = CHR ''}'' \<or> c = CHR '';''"

definition is_quote :: "char \<Rightarrow> bool" where
  "is_quote c \<longleftrightarrow> c = CHR 0x22 \<or> c = CHR 0x27"

definition word_end :: "char \<Rightarrow> bool" where
  "word_end c \<longleftrightarrow> blank c \<or> c = CHR 0x0A \<or> special c \<or> c = CHR ''#'' \<or> is_quote c"

definition readToken :: "parser \<Rightarrow> ParseError + string \<times> parser" where
  "readToken p =
     (case ps_rest p of
        [] \<Rightarrow> Inr ([], p)
      | c # cs \<Rightarrow>
          if is_quote c then
            (case readQuotedString c p of
               Inl e \<Rightarrow> Inl e
             | Inr (token, p1) \<Rightarrow> Inr (if token = [] then [CHR 0x22, CHR 0x22] else token, p1))
          else if special c then Inr ([], p)
          else Inr (takeWhile (\<lambda>c. \<not> word_end c) (ps_rest p),
                    p\<lparr>ps_rest := dropWhile (\<lambda>c. \<not> word_end c) (ps_rest p)\<rparr>))"

definition isGlobPattern :: "string \<Rightarrow> bool" where
  "isGlobPattern s \<longleftrightarrow> list_ex (\<lambda>c. c = CHR ''*'' \<or> c = CHR ''?'' \<or> c = CHR ''['') s"

section \<open>Directives\<close>

text \<open>Reading an included file: the path and the include stack.\<close>

type_synonym file_reader = "string \<Rightarrow> string list \<Rightarrow> Directive list parsed"

fun include_files :: "fs \<Rightarrow> file_reader \<Rightarrow> parser \<Rightarrow> string list \<Rightarrow> Directive list \<Rightarrow> Directive list parsed" where
  "include_files f rd p [] acc = Some (Inr acc)"
| "include_files f rd p (m # ms) acc =
     (case fs_resolve f m of
        None \<Rightarrow> Some (Inl (parse_errorf p (ResolveFailed m)))
      | Some resolved \<Rightarrow>
          if resolved \<in> set (ps_includeStack p) then Some (Inl (parse_errorf p (CircularInclude resolved)))
          else pbind (rd resolved (ps_includeStack p)) (\<lambda>ds. include_files f rd p ms (acc @ ds)))"

definition handleInclude :: "fs \<Rightarrow> file_reader \<Rightarrow> string \<Rightarrow> parser \<Rightarrow> (Directive option \<times> parser) parsed" where
  "handleInclude f rd pattern p =
     (if ps_depth p \<ge> maxDepth then Some (Inl (parse_errorf p DepthExceeded))
      else
        let fullPattern = (if is_rooted pattern then pattern else path_Join [path_Dir (ps_file p), pattern])
        in case fs_glob f fullPattern of
             None \<Rightarrow> Some (Inl (parse_errorf p (InvalidPattern pattern)))
           | Some matches \<Rightarrow>
               if matches = [] then
                 (if \<not> isGlobPattern pattern then Some (Inl (parse_errorf p (FileNotFound fullPattern)))
                  else Some (Inr (None, p)))
               else pbind (include_files f rd p matches [])
                      (\<lambda>all. case all of [] \<Rightarrow> Some (Inr (None, p)) | d # ds \<Rightarrow> Some (Inr (Some d, p\<lparr>ps_extra := ds\<rparr>))))"

fun parseDirectives :: "nat \<Rightarrow> fs \<Rightarrow> file_reader \<Rightarrow> parser \<Rightarrow> (Directive list \<times> parser) parsed"
and parseDirective :: "nat \<Rightarrow> fs \<Rightarrow> file_reader \<Rightarrow> parser \<Rightarrow> (Directive option \<times> parser) parsed"
and parse_args :: "nat \<Rightarrow> fs \<Rightarrow> file_reader \<Rightarrow> string list \<Rightarrow> parser \<Rightarrow> ((string list \<times> Directive list) \<times> parser) parsed" where
  "parseDirectives 0 f rd p0 = None"
| "parseDirectives (Suc n) f rd p0 =
     (let p = skipWhitespaceAndComments p0
      in if ps_rest p = [] \<or> HasPrefix (ps_rest p) ''}'' then Some (Inr ([], p))
         else pbind (parseDirective n f rd p) (\<lambda>(od, p1).
                case od of
                  None \<Rightarrow> parseDirectives n f rd p1
                | Some d \<Rightarrow>
                    pbind (parseDirectives n f rd (p1\<lparr>ps_extra := []\<rparr>)) (\<lambda>(ds, p2).
                      Some (Inr (d # ps_extra p1 @ ds, p2)))))"
| "parseDirective 0 f rd p0 = None"
| "parseDirective (Suc n) f rd p0 =
     (let p = skipWhitespaceAndComments p0
      in pbind (Some (readToken p)) (\<lambda>(name, p1).
           if name = [] then Some (Inl (parse_errorf p1 ExpectedName))
           else pbind (parse_args n f rd [] p1) (\<lambda>((args, block), p2).
                  if name = ''include'' \<and> args \<noteq> [] then handleInclude f rd (args ! 0) p2
                  else Some (Inr (Some (Directive name args block (ps_line p) (ps_file p)), p2)))))"
| "parse_args 0 f rd args p0 = None"
| "parse_args (Suc n) f rd args p0 =
     (let p = skipWhitespaceAndComments p0
      in if ps_rest p = [] then Some (Inl (parse_errorf p UnexpectedEnd))
         else if HasPrefix (ps_rest p) '';'' then Some (Inr ((args, []), p\<lparr>ps_rest := tl (ps_rest p)\<rparr>))
         else if HasPrefix (ps_rest p) ''{'' then
           pbind (parseDirectives n f rd (p\<lparr>ps_rest := tl (ps_rest p)\<rparr>)) (\<lambda>(block, p1).
             let p2 = skipWhitespaceAndComments p1
             in if HasPrefix (ps_rest p2) ''}'' then Some (Inr ((args, block), p2\<lparr>ps_rest := tl (ps_rest p2)\<rparr>))
                else Some (Inl (parse_errorf p2 ExpectedClose)))
         else pbind (Some (readToken p)) (\<lambda>(arg, p1).
                if arg = [] then Some (Inl (parse_errorf p1 (UnexpectedChar (ps_rest p ! 0))))
                else parse_args n f rd (args @ [arg]) p1))"

section \<open>Files\<close>

definition parse_fuel :: "string \<Rightarrow> nat" where
  "parse_fuel s = 3 * length s + 3"

definition parse_text :: "fs \<Rightarrow> file_reader \<Rightarrow> string \<Rightarrow> string list \<Rightarrow> int \<Rightarrow> string \<Rightarrow> Directive list parsed" where
  "parse_text f rd file stack depth s =
     pbind (parseDirectives (parse_fuel s) f rd
             \<lparr>ps_rest = s, ps_line = 1, ps_file = file, ps_includeStack = stack, ps_depth = depth, ps_extra = []\<rparr>)
       (\<lambda>(ds, p). Some (Inr ds))"

text \<open>\<open>parseFileWithStack\<close> at the depth \<open>maxDepth - n\<close>. The reader of the last level is never called:
  \<open>handleInclude\<close> refuses there.\<close>

fun parseFileWithStack :: "nat \<Rightarrow> fs \<Rightarrow> string \<Rightarrow> string list \<Rightarrow> Directive list parsed" where
  "parseFileWithStack n f path stack =
     (case fs_read f path of
        None \<Rightarrow> Some (Inl \<lparr>pe_File = path, pe_Line = 1, pe_Message = ReadFailed\<rparr>)
      | Some s \<Rightarrow>
          parse_text f (case n of 0 \<Rightarrow> \<lambda>_ _. None | Suc k \<Rightarrow> parseFileWithStack k f) path
            (if path \<in> set stack then stack else path # stack) (maxDepth - int n) s)"

declare parseFileWithStack.simps [simp del]

definition ParseString :: "fs \<Rightarrow> string \<Rightarrow> Directive list parsed" where
  "ParseString f content = parse_text f (parseFileWithStack (nat (maxDepth - 1)) f) ''<string>'' [] 0 content"

definition ParseFile :: "fs \<Rightarrow> string \<Rightarrow> Directive list parsed" where
  "ParseFile f path =
     (case fs_abs f path of
        None \<Rightarrow> Some (Inl \<lparr>pe_File = path, pe_Line = 1, pe_Message = AbsFailed\<rparr>)
      | Some absPath \<Rightarrow>
          (case fs_resolve f absPath of
             None \<Rightarrow> Some (Inl \<lparr>pe_File = path, pe_Line = 1, pe_Message = ResolveFailed absPath\<rparr>)
           | Some resolved \<Rightarrow> parseFileWithStack (nat maxDepth) f resolved [resolved]))"

section \<open>The parser returns\<close>

text \<open>A step from \<open>p\<close> to \<open>p'\<close> stays in its file and consumes at least \<open>k\<close> bytes.\<close>

definition advances :: "nat \<Rightarrow> parser \<Rightarrow> parser \<Rightarrow> bool" where
  "advances k p p' \<longleftrightarrow> ps_file p' = ps_file p \<and> ps_includeStack p' = ps_includeStack p \<and> ps_depth p' = ps_depth p \<and>
     length (ps_rest p') + k \<le> length (ps_rest p)"

definition returns :: "nat \<Rightarrow> parser \<Rightarrow> ('a \<times> parser) parsed \<Rightarrow> bool" where
  "returns k p r = (case r of None \<Rightarrow> False | Some (Inl e) \<Rightarrow> True | Some (Inr (x, p')) \<Rightarrow> advances k p p')"

lemma advances_refl [simp]: "advances 0 p p"
  by (simp add: advances_def)

lemma advances_trans: "advances j p p' \<Longrightarrow> advances k p' p'' \<Longrightarrow> advances (j + k) p p''"
  by (simp add: advances_def)

lemma advances_weaken: "advances j p p' \<Longrightarrow> k \<le> j \<Longrightarrow> advances k p p'"
  by (simp add: advances_def)

lemma returns_trans: "advances j p p' \<Longrightarrow> returns k p' r \<Longrightarrow> i \<le> j + k \<Longrightarrow> returns i p r"
  by (auto simp: returns_def advances_def split: option.splits sum.splits)

lemma returns_bind:
  assumes "returns j p r"
    and "\<And>x p'. r = Some (Inr (x, p')) \<Longrightarrow> advances j p p' \<Longrightarrow> returns i p (k (x, p'))"
  shows "returns i p (pbind r k)"
  using assms by (auto simp: returns_def pbind_def split: option.splits sum.splits)

lemma returns_simps [simp]:
  "returns k p (Some (Inl e))"
  "returns k p (Some (Inr (x, p'))) \<longleftrightarrow> advances k p p'"
  by (simp_all add: returns_def)

lemma pbind_defined: "r \<noteq> None \<Longrightarrow> (\<And>x. k x \<noteq> None) \<Longrightarrow> pbind r k \<noteq> None"
  by (simp add: pbind_def split: option.split sum.split)

lemma skip_loop_length: "length (fst (skip_loop s line)) \<le> length s"
proof (induction s line rule: skip_loop.induct)
  case (2 c cs line)
  then show ?case using length_dropWhile_le [of "\<lambda>c. c \<noteq> CHR 0x0A" cs] by (auto simp: le_SucI)
qed simp

lemma skip_advances: "advances 0 p (skipWhitespaceAndComments p)"
  using skip_loop_length [of "ps_rest p" "ps_line p"]
  by (simp add: skipWhitespaceAndComments_def advances_def split_beta)

lemma quoted_loop_length: "quoted_loop q s line buf = Inr (t, r, l) \<Longrightarrow> length r < length s"
  by (induction q s line buf rule: quoted_loop.induct) (force split: if_splits list.splits)+

lemma readToken_advances:
  "readToken p = Inr (t, p') \<Longrightarrow> advances (if t = [] then 0 else 1) p p'"
proof (cases "ps_rest p")
  case (Cons c cs)
  assume r: "readToken p = Inr (t, p')"
  consider "is_quote c" | "\<not> is_quote c" "special c" | "\<not> is_quote c" "\<not> special c" by blast
  then show ?thesis
  proof cases
    case 1
    then obtain b r' l where "quoted_loop c cs (ps_line p) [] = Inr (b, r', l)" "p' = p\<lparr>ps_rest := r', ps_line := l\<rparr>"
      using r Cons by (auto simp: readToken_def readQuotedString_def split: sum.splits)
    then show ?thesis using quoted_loop_length Cons by (fastforce simp: advances_def)
  next
    case 2
    then show ?thesis using r Cons by (auto simp: readToken_def)
  next
    case 3
    then have "t = takeWhile (\<lambda>c. \<not> word_end c) (ps_rest p)" "p' = p\<lparr>ps_rest := dropWhile (\<lambda>c. \<not> word_end c) (ps_rest p)\<rparr>"
      using r Cons by (auto simp: readToken_def)
    moreover have "length (takeWhile (\<lambda>c. \<not> word_end c) (ps_rest p)) + length (dropWhile (\<lambda>c. \<not> word_end c) (ps_rest p)) = length (ps_rest p)"
      by (metis length_append takeWhile_dropWhile_id)
    moreover have "takeWhile (\<lambda>c. \<not> word_end c) (ps_rest p) \<noteq> [] \<Longrightarrow>
        length (dropWhile (\<lambda>c. \<not> word_end c) (ps_rest p)) < length (ps_rest p)"
      using calculation(3) by (cases "takeWhile (\<lambda>c. \<not> word_end c) (ps_rest p)") simp_all
    ultimately show ?thesis by (simp add: advances_def Suc_le_eq)
  qed
qed (auto simp: readToken_def)

lemma readToken_returns: "returns 0 p (Some (readToken p))"
  using readToken_advances [of p] advances_weaken [of _ p _ 0]
  by (cases "readToken p") (auto simp: returns_def)

lemma include_files_returns:
  assumes "\<forall>path st. rd path st \<noteq> None"
  shows "include_files f rd p ms acc \<noteq> None"
proof (induction ms arbitrary: acc)
  case (Cons m ms)
  have "pbind (rd r (ps_includeStack p)) (\<lambda>ds. include_files f rd p ms (acc @ ds)) \<noteq> None" for r
    using assms Cons by (intro pbind_defined) blast+
  then show ?case by (simp split: option.split)
qed simp

lemma handleInclude_returns:
  assumes "ps_depth p < maxDepth \<Longrightarrow> \<forall>path st. rd path st \<noteq> None"
  shows "returns 0 p (handleInclude f rd pattern p)"
proof (cases "ps_depth p < maxDepth")
  case True
  then have n: "include_files f rd p ms [] \<noteq> None" for ms using assms include_files_returns by metis
  have k: "returns 0 p (pbind (include_files f rd p ms [])
      (\<lambda>all. case all of [] \<Rightarrow> Some (Inr (None, p)) | d # ds \<Rightarrow> Some (Inr (Some d, p\<lparr>ps_extra := ds\<rparr>))))" for ms
    using n [of ms] by (auto simp: pbind_def advances_def split: sum.split list.split)
  show ?thesis using True k by (auto simp: handleInclude_def Let_def split: option.split)
qed (simp add: handleInclude_def)

lemma returns_skip: "returns i (skipWhitespaceAndComments p) r \<Longrightarrow> returns i p r"
  by (rule returns_trans [OF skip_advances], assumption) simp

definition all_return :: "nat \<Rightarrow> fs \<Rightarrow> file_reader \<Rightarrow> int \<Rightarrow> bool" where
  "all_return n f rd dp \<longleftrightarrow>
     (\<forall>p args. ps_depth p = dp \<longrightarrow>
        (3 * length (ps_rest p) + 3 \<le> n \<longrightarrow> returns 0 p (parseDirectives n f rd p)) \<and>
        (3 * length (ps_rest p) + 2 \<le> n \<longrightarrow> returns 1 p (parseDirective n f rd p)) \<and>
        (3 * length (ps_rest p) + 1 \<le> n \<longrightarrow> returns 1 p (parse_args n f rd args p)))"

lemma all_returnD:
  assumes "all_return n f rd (ps_depth p)"
  shows "3 * length (ps_rest p) + 3 \<le> n \<Longrightarrow> returns 0 p (parseDirectives n f rd p)"
    and "3 * length (ps_rest p) + 2 \<le> n \<Longrightarrow> returns 1 p (parseDirective n f rd p)"
    and "3 * length (ps_rest p) + 1 \<le> n \<Longrightarrow> returns 1 p (parse_args n f rd args p)"
  using assms by (simp_all add: all_return_def)

lemma parseDirectives_returns:
  assumes IH: "all_return n f rd (ps_depth p)" and fuel: "3 * length (ps_rest p) + 2 \<le> n"
  shows "returns 0 p (parseDirectives (Suc n) f rd p)"
proof -
  define q where "q = skipWhitespaceAndComments p"
  have sk: "advances 0 p q" unfolding q_def by (rule skip_advances)
  have go: "returns 0 q (parseDirectives n f rd p1)" if "advances 1 q p1" for p1
    using that sk IH fuel by (intro returns_trans [OF that all_returnD(1)]) (simp_all add: advances_def)
  let ?k = "\<lambda>(od, p1). case od of None \<Rightarrow> parseDirectives n f rd p1
    | Some d \<Rightarrow> pbind (parseDirectives n f rd (p1\<lparr>ps_extra := []\<rparr>)) (\<lambda>(ds, p2). Some (Inr (d # ps_extra p1 @ ds, p2)))"
  have "returns 0 q (pbind (parseDirective n f rd q) ?k)"
  proof (rule returns_bind [where j = 1])
    show "returns 1 q (parseDirective n f rd q)" using sk IH fuel by (intro all_returnD(2)) (simp_all add: advances_def)
  next
    fix od p1 assume p1: "advances 1 q p1"
    then have p1': "advances 1 q (p1\<lparr>ps_extra := []\<rparr>)" by (simp add: advances_def)
    show "returns 0 q (?k (od, p1))"
      using go [OF p1] by (cases od) (auto intro!: returns_bind [OF go [OF p1']])
  qed
  from returns_skip [of 0 p, folded q_def, OF this] show ?thesis using sk by (simp add: Let_def flip: q_def)
qed

lemma parseDirective_returns:
  assumes IH: "all_return n f rd (ps_depth p)" and fuel: "3 * length (ps_rest p) + 1 \<le> n"
    and rd: "ps_depth p < maxDepth \<Longrightarrow> \<forall>path st. rd path st \<noteq> None"
  shows "returns 1 p (parseDirective (Suc n) f rd p)"
proof -
  define q where "q = skipWhitespaceAndComments p"
  have sk: "advances 0 p q" unfolding q_def by (rule skip_advances)
  let ?k = "\<lambda>name ((args, block), p2). if name = ''include'' \<and> args \<noteq> [] then handleInclude f rd (args ! 0) p2
      else Some (Inr (Some (Directive name args block (ps_line q) (ps_file q)), p2))"
  have fin: "returns 1 q (pbind (parse_args n f rd [] p1) (?k name))" if "advances 1 q p1" for p1 name
  proof (rule returns_trans [OF that returns_bind [where j = 1 and i = 0]])
    show "returns 1 p1 (parse_args n f rd [] p1)" using that sk IH fuel by (intro all_returnD(3)) (simp_all add: advances_def)
  next
    fix x :: "string list \<times> Directive list" and p2 assume p2: "advances 1 p1 p2"
    have "returns 0 p2 (handleInclude f rd (fst x ! 0) p2)"
      using that p2 sk rd by (intro handleInclude_returns) (simp add: advances_def)
    then have "returns 0 p1 (handleInclude f rd (fst x ! 0) p2)" by (rule returns_trans [OF p2]) simp
    then show "returns 0 p1 (?k name (x, p2))" using advances_weaken [OF p2, of 0] by (simp add: split_beta)
  qed simp
  have "returns 1 q (pbind (Some (readToken q)) (\<lambda>(name, p1). if name = [] then Some (Inl (parse_errorf p1 ExpectedName))
      else pbind (parse_args n f rd [] p1) (?k name)))"
    using readToken_advances [of q] fin by (intro returns_bind [OF readToken_returns]) auto
  from returns_skip [of 1 p, folded q_def, OF this] show ?thesis by (simp add: Let_def flip: q_def)
qed

lemma parse_args_returns:
  assumes IH: "all_return n f rd (ps_depth p)" and fuel: "3 * length (ps_rest p) \<le> n"
  shows "returns 1 p (parse_args (Suc n) f rd args p)"
proof -
  define q where "q = skipWhitespaceAndComments p"
  have sk: "advances 0 p q" unfolding q_def by (rule skip_advances)
  let ?q = "q\<lparr>ps_rest := tl (ps_rest q)\<rparr>"
  have tl: "advances 1 r (r\<lparr>ps_rest := tl (ps_rest r)\<rparr>)" if "ps_rest r \<noteq> []" for r
    using that by (cases "ps_rest r") (simp_all add: advances_def)
  let ?k = "\<lambda>(block, p1). let p2 = skipWhitespaceAndComments p1
      in if HasPrefix (ps_rest p2) ''}'' then Some (Inr ((args, block), p2\<lparr>ps_rest := tl (ps_rest p2)\<rparr>))
         else Some (Inl (parse_errorf p2 ExpectedClose))"
  have block: "returns 1 q (pbind (parseDirectives n f rd ?q) ?k)" if "ps_rest q \<noteq> []"
  proof (rule returns_trans [OF tl [OF that] returns_bind [where j = 0 and i = 0]])
    show "returns 0 ?q (parseDirectives n f rd ?q)"
      using tl [OF that] sk IH fuel by (intro all_returnD(1)) (simp_all add: advances_def)
  next
    fix b p1 assume p1: "advances 0 ?q p1"
    have c: "advances 1 s (s\<lparr>ps_rest := tl (ps_rest s)\<rparr>)" if "HasPrefix (ps_rest s) ''}''" for s
      using that by (intro tl) (auto simp: HasPrefix_def)
    have "advances 1 ?q ((skipWhitespaceAndComments p1)\<lparr>ps_rest := tl (ps_rest (skipWhitespaceAndComments p1))\<rparr>)"
      if "HasPrefix (ps_rest (skipWhitespaceAndComments p1)) ''}''"
      using advances_trans [OF advances_trans [OF p1 skip_advances] c [OF that]] by simp
    then show "returns 0 ?q (?k (b, p1))" using advances_weaken [of 1 ?q _ 0] by (simp add: Let_def)
  qed simp
  have "returns 1 q (parse_args n f rd (args @ [arg]) p1)" if "advances 1 q p1" for p1 arg
    using that sk IH fuel by (intro returns_trans [OF that all_returnD(3)]) (simp_all add: advances_def)
  then have "returns 1 q (pbind (Some (readToken q)) (\<lambda>(arg, p1). if arg = [] then
      Some (Inl (parse_errorf p1 (UnexpectedChar (ps_rest q ! 0)))) else parse_args n f rd (args @ [arg]) p1))"
    using readToken_advances [of q] by (intro returns_bind [OF readToken_returns]) auto
  then have "returns 1 q (parse_args (Suc n) f rd args p)"
    using block tl [of q] by (simp add: Let_def flip: q_def)
  then show ?thesis using returns_skip [of 1 p, folded q_def] by blast
qed

lemma parser_returns:
  assumes "dp < maxDepth \<Longrightarrow> \<forall>path st. rd path st \<noteq> None"
  shows "all_return n f rd dp"
proof (induction n)
  case (Suc n)
  show ?case
    unfolding all_return_def [of "Suc n"]
  proof (intro allI impI conjI)
    fix p :: parser and args assume d: "ps_depth p = dp"
    then have IH: "all_return n f rd (ps_depth p)" using Suc by simp
    show "returns 0 p (parseDirectives (Suc n) f rd p)" if "3 * length (ps_rest p) + 3 \<le> Suc n"
      using that by (intro parseDirectives_returns [OF IH]) linarith
    show "returns 1 p (parseDirective (Suc n) f rd p)" if "3 * length (ps_rest p) + 2 \<le> Suc n"
      using that assms d by (intro parseDirective_returns [OF IH]) (linarith, simp)
    show "returns 1 p (parse_args (Suc n) f rd args p)" if "3 * length (ps_rest p) + 1 \<le> Suc n"
      using that by (intro parse_args_returns [OF IH]) linarith
  qed
qed (simp add: all_return_def)

lemma parse_text_returns:
  assumes "depth < maxDepth \<Longrightarrow> \<forall>path st. rd path st \<noteq> None"
  shows "parse_text f rd file stack depth s \<noteq> None"
proof -
  let ?p = "\<lparr>ps_rest = s, ps_line = 1, ps_file = file, ps_includeStack = stack, ps_depth = depth, ps_extra = []\<rparr>"
  have "returns 0 ?p (parseDirectives (parse_fuel s) f rd ?p)"
    using parser_returns [OF assms, where n = "parse_fuel s" and f = f] by (intro all_returnD(1)) (simp_all add: parse_fuel_def)
  then show ?thesis by (auto simp: parse_text_def pbind_def returns_def split: option.splits sum.splits)
qed

lemma parseFile_returns: "parseFileWithStack n f path stack \<noteq> None"
proof (induction n arbitrary: path stack)
  case 0
  then show ?case by (subst parseFileWithStack.simps) (auto split: option.split intro: parse_text_returns [THEN not_None_eq [THEN iffD1]])
next
  case (Suc n)
  have "parse_text f (parseFileWithStack n f) path st (maxDepth - int (Suc n)) s \<noteq> None" for s st
    using Suc by (intro parse_text_returns) blast
  then show ?case by (subst parseFileWithStack.simps) (simp split: option.split)
qed

text \<open>C8. The parser returns, with directives or with an error, for every text, file and file system: no input exhausts
  the fuel and no chain of includes runs on.\<close>

theorem nginx_parser_returns:
  "(\<exists>r. ParseString f s = Some r) \<and> (\<exists>r. ParseFile f path = Some r)"
proof -
  have "ParseString f s \<noteq> None" unfolding ParseString_def by (intro parse_text_returns) (simp add: parseFile_returns)
  moreover have "ParseFile f path \<noteq> None" by (simp add: ParseFile_def split: option.split) (metis parseFile_returns option.exhaust)
  ultimately show ?thesis by blast
qed

section \<open>Printing and parsing\<close>

fun escape :: "string \<Rightarrow> string" where
  "escape [] = []"
| "escape (c # cs) = (if c = CHR 0x22 \<or> c = CHR 0x5C then [CHR 0x5C, c] else [c]) @ escape cs"

definition print_token :: "string \<Rightarrow> string" where
  "print_token s = CHR 0x22 # escape s @ [CHR 0x22]"

definition print_args :: "string list \<Rightarrow> string" where
  "print_args args = concat (map (\<lambda>a. CHR '' '' # print_token a) args)"

fun print_directive :: "Directive \<Rightarrow> string" where
  "print_directive (Directive n args block l f) =
     print_token n @ print_args args @
     (if block = [] then '';'' else '' {'' @ concat (map print_directive block) @ ''}'')"

text \<open>A directive without its position, and the directives that can be written down: no empty name or argument, which the
  reader replaces by a marker, and no \<open>include\<close>.\<close>

fun plain :: "Directive \<Rightarrow> Directive" where
  "plain (Directive n args block l f) = Directive n args (map plain block) 0 []"

fun printable :: "Directive \<Rightarrow> bool" where
  "printable (Directive n args block l f) \<longleftrightarrow>
     n \<noteq> [] \<and> [] \<notin> set args \<and> (n = ''include'' \<longrightarrow> args = []) \<and> list_all printable block"

lemma quoted_loop_escape:
  "\<exists>l. quoted_loop (CHR 0x22) (escape s @ CHR 0x22 # r) line buf = Inr (buf @ s, r, l)"
proof (induction s arbitrary: line buf)
  case (Cons c s)
  show ?case
    using Cons [of line "buf @ [c]"] Cons [of "if c = CHR 0x0A then line + 1 else line" "buf @ [c]"] by auto
qed simp

lemma readToken_print:
  assumes "ps_rest p = print_token s @ r" "s \<noteq> []"
  shows "\<exists>l. readToken p = Inr (s, p\<lparr>ps_rest := r, ps_line := l\<rparr>)"
proof -
  obtain l where "quoted_loop (CHR 0x22) (escape s @ CHR 0x22 # r) (ps_line p) [] = Inr (s, r, l)"
    using quoted_loop_escape [of s r "ps_line p" "[]"] by auto
  then show ?thesis using assms by (auto simp: readToken_def readQuotedString_def print_token_def is_quote_def)
qed

definition sharp :: "string \<Rightarrow> bool" where
  "sharp s \<longleftrightarrow> s = [] \<or> \<not> blank (hd s) \<and> hd s \<noteq> CHR 0x0A \<and> hd s \<noteq> CHR ''#''"

lemma skip_sharp: "sharp (ps_rest p) \<Longrightarrow> skipWhitespaceAndComments p = p"
  by (cases "ps_rest p") (simp_all add: skipWhitespaceAndComments_def sharp_def)

lemma skip_space: "ps_rest p = CHR '' '' # r \<Longrightarrow> sharp r \<Longrightarrow> skipWhitespaceAndComments p = p\<lparr>ps_rest := r\<rparr>"
  by (cases r) (simp_all add: skipWhitespaceAndComments_def sharp_def blank_def)

lemma print_directive_starts: "\<exists>r. print_directive d = CHR 0x22 # r"
  by (cases d) (simp add: print_token_def)

definition block_text :: "Directive list \<Rightarrow> string" where
  "block_text block = (if block = [] then '';'' else '' {'' @ concat (map print_directive block) @ ''}'')"

text \<open>What reading printed text gives: the directives up to their positions, and the text after them.\<close>

definition reads_directives :: "nat \<Rightarrow> fs \<Rightarrow> file_reader \<Rightarrow> bool" where
  "reads_directives n f rd \<longleftrightarrow>
     (\<forall>ds suf p. ps_rest p = concat (map print_directive ds) @ suf \<longrightarrow> suf = [] \<or> HasPrefix suf ''}'' \<longrightarrow>
        list_all printable ds \<longrightarrow> ps_extra p = [] \<longrightarrow> 3 * length (ps_rest p) + 3 \<le> n \<longrightarrow>
        (\<exists>ds' l. parseDirectives n f rd p = Some (Inr (ds', p\<lparr>ps_rest := suf, ps_line := l\<rparr>)) \<and> map plain ds' = map plain ds))"

definition reads_directive :: "nat \<Rightarrow> fs \<Rightarrow> file_reader \<Rightarrow> bool" where
  "reads_directive n f rd \<longleftrightarrow>
     (\<forall>d suf p. ps_rest p = print_directive d @ suf \<longrightarrow> printable d \<longrightarrow> ps_extra p = [] \<longrightarrow> 3 * length (ps_rest p) + 2 \<le> n \<longrightarrow>
        (\<exists>d' l. parseDirective n f rd p = Some (Inr (Some d', p\<lparr>ps_rest := suf, ps_line := l\<rparr>)) \<and> plain d' = plain d))"

definition reads_args :: "nat \<Rightarrow> fs \<Rightarrow> file_reader \<Rightarrow> bool" where
  "reads_args n f rd \<longleftrightarrow>
     (\<forall>args block acc suf p. ps_rest p = print_args args @ block_text block @ suf \<longrightarrow> [] \<notin> set args \<longrightarrow>
        list_all printable block \<longrightarrow> ps_extra p = [] \<longrightarrow> 3 * length (ps_rest p) + 1 \<le> n \<longrightarrow>
        (\<exists>block' l. parse_args n f rd acc p = Some (Inr ((acc @ args, block'), p\<lparr>ps_rest := suf, ps_line := l\<rparr>)) \<and>
           map plain block' = map plain block))"

lemma reads_directives_Suc:
  assumes IH: "reads_directives n f rd" "reads_directive n f rd"
  shows "reads_directives (Suc n) f rd"
  unfolding reads_directives_def
proof (intro allI impI)
  fix ds suf and p :: parser
  assume rest: "ps_rest p = concat (map print_directive ds) @ suf" and suf: "suf = [] \<or> HasPrefix suf ''}''"
    and ok: "list_all printable ds" "ps_extra p = []" and fuel: "3 * length (ps_rest p) + 3 \<le> Suc n"
  show "\<exists>ds' l. parseDirectives (Suc n) f rd p = Some (Inr (ds', p\<lparr>ps_rest := suf, ps_line := l\<rparr>)) \<and> map plain ds' = map plain ds"
  proof (cases ds)
    case Nil
    then have "skipWhitespaceAndComments p = p"
      using rest suf by (intro skip_sharp) (cases suf, auto simp: sharp_def HasPrefix_def blank_def)
    then show ?thesis using Nil rest suf by (intro exI [of _ "[]"] exI [of _ "ps_line p"]) simp
  next
    case (Cons d rs)
    let ?suf = "concat (map print_directive rs) @ suf"
    have start: "\<exists>r. ps_rest p = CHR 0x22 # r" using rest Cons print_directive_starts [of d] by auto
    then have sk: "skipWhitespaceAndComments p = p" by (intro skip_sharp) (auto simp: sharp_def blank_def)
    obtain d' l where d': "parseDirective n f rd p = Some (Inr (Some d', p\<lparr>ps_rest := ?suf, ps_line := l\<rparr>))" "plain d' = plain d"
      using IH(2) rest Cons ok fuel unfolding reads_directive_def by fastforce
    have "length ?suf < length (ps_rest p)" using rest Cons print_directive_starts [of d] by auto
    then obtain ds' l' where ds': "parseDirectives n f rd (p\<lparr>ps_rest := ?suf, ps_line := l\<rparr>) = Some (Inr (ds', p\<lparr>ps_rest := suf, ps_line := l'\<rparr>))"
        "map plain ds' = map plain rs"
      using IH(1) [unfolded reads_directives_def, rule_format, of "p\<lparr>ps_rest := ?suf, ps_line := l\<rparr>" rs suf] Cons ok suf fuel by auto
    have "p\<lparr>ps_rest := ?suf, ps_line := l, ps_extra := []\<rparr> = p\<lparr>ps_rest := ?suf, ps_line := l\<rparr>" using ok(2) by (cases p) simp
    then have "parseDirectives n f rd (p\<lparr>ps_rest := ?suf, ps_line := l, ps_extra := []\<rparr>) = Some (Inr (ds', p\<lparr>ps_rest := suf, ps_line := l'\<rparr>))"
      using ds'(1) by (simp only:)
    then show ?thesis
      using sk start d' ds'(2) ok(2) Cons by (intro exI [of _ "d' # ds'"] exI [of _ l']) (auto simp: pbind_def HasPrefix_def)
  qed
qed

lemma reads_directive_Suc:
  assumes IH: "reads_args n f rd"
  shows "reads_directive (Suc n) f rd"
  unfolding reads_directive_def
proof (intro allI impI)
  fix d suf and p :: parser
  assume rest: "ps_rest p = print_directive d @ suf" and ok: "printable d" "ps_extra p = []"
    and fuel: "3 * length (ps_rest p) + 2 \<le> Suc n"
  obtain name args block ln fl where d: "d = Directive name args block ln fl" by (cases d)
  have start: "\<exists>r. ps_rest p = CHR 0x22 # r" using rest print_directive_starts [of d] by auto
  then have sk: "skipWhitespaceAndComments p = p" by (intro skip_sharp) (auto simp: sharp_def blank_def)
  let ?r = "print_args args @ block_text block @ suf"
  have rest': "ps_rest p = print_token name @ ?r" using rest d by (simp add: block_text_def)
  obtain l where t: "readToken p = Inr (name, p\<lparr>ps_rest := ?r, ps_line := l\<rparr>)"
    using readToken_print [OF rest'] ok d by auto
  have "length ?r < length (ps_rest p)" using rest' by (simp add: print_token_def)
  then obtain block' l' where a: "parse_args n f rd [] (p\<lparr>ps_rest := ?r, ps_line := l\<rparr>) =
      Some (Inr ((args, block'), p\<lparr>ps_rest := suf, ps_line := l'\<rparr>))" "map plain block' = map plain block"
    using IH [unfolded reads_args_def, rule_format, of "p\<lparr>ps_rest := ?r, ps_line := l\<rparr>" args block suf "[]"] ok d fuel by auto
  show "\<exists>d' l. parseDirective (Suc n) f rd p = Some (Inr (Some d', p\<lparr>ps_rest := suf, ps_line := l\<rparr>)) \<and> plain d' = plain d"
    using sk t a ok d
    by (intro exI [of _ "Directive name args block' (ps_line p) (ps_file p)"] exI [of _ l']) (auto simp: pbind_def)
qed

lemma reads_block:
  assumes IH: "reads_directives n f rd"
    and rest: "ps_rest p = '' {'' @ concat (map print_directive block) @ ''}'' @ suf"
    and ok: "list_all printable block" "ps_extra p = []" and fuel: "3 * length (ps_rest p) \<le> n"
  shows "\<exists>block' l. parse_args (Suc n) f rd acc p = Some (Inr ((acc, block'), p\<lparr>ps_rest := suf, ps_line := l\<rparr>)) \<and>
    map plain block' = map plain block"
proof -
  let ?r = "concat (map print_directive block) @ ''}'' @ suf"
  have sk: "skipWhitespaceAndComments p = p\<lparr>ps_rest := CHR ''{'' # ?r\<rparr>"
    using rest by (intro skip_space) (simp_all add: sharp_def blank_def)
  obtain block' l where b: "parseDirectives n f rd (p\<lparr>ps_rest := ?r\<rparr>) = Some (Inr (block', p\<lparr>ps_rest := ''}'' @ suf, ps_line := l\<rparr>))"
      "map plain block' = map plain block"
    using IH [unfolded reads_directives_def, rule_format, of "p\<lparr>ps_rest := ?r\<rparr>" block "''}'' @ suf"] rest ok fuel
    by (auto simp: HasPrefix_def)
  have "skipWhitespaceAndComments (p\<lparr>ps_rest := ''}'' @ suf, ps_line := l\<rparr>) = p\<lparr>ps_rest := ''}'' @ suf, ps_line := l\<rparr>"
    by (intro skip_sharp) (simp add: sharp_def blank_def)
  then show ?thesis using sk b by (intro exI [of _ block'] exI [of _ l]) (simp add: pbind_def HasPrefix_def Let_def)
qed

lemma reads_args_Suc:
  assumes IH: "reads_directives n f rd" "reads_args n f rd"
  shows "reads_args (Suc n) f rd"
  unfolding reads_args_def
proof (intro allI impI)
  fix args block acc suf and p :: parser
  assume rest: "ps_rest p = print_args args @ block_text block @ suf" and ok: "[] \<notin> set args" "list_all printable block" "ps_extra p = []"
    and fuel: "3 * length (ps_rest p) + 1 \<le> Suc n"
  show "\<exists>block' l. parse_args (Suc n) f rd acc p = Some (Inr ((acc @ args, block'), p\<lparr>ps_rest := suf, ps_line := l\<rparr>)) \<and>
    map plain block' = map plain block"
  proof (cases args)
    case Nil
    show ?thesis
    proof (cases "block = []")
      case True
      have "skipWhitespaceAndComments p = p"
        using rest Nil True by (intro skip_sharp) (simp add: sharp_def blank_def block_text_def print_args_def)
      then show ?thesis using rest Nil True
        by (intro exI [of _ "[]"] exI [of _ "ps_line p"]) (simp add: block_text_def print_args_def HasPrefix_def)
    next
      case False
      then show ?thesis using reads_block [OF IH(1), of p block suf acc] rest Nil ok fuel by (simp add: block_text_def print_args_def)
    qed
  next
    case (Cons a as)
    let ?r = "print_args as @ block_text block @ suf"
    have rest': "ps_rest p = CHR '' '' # print_token a @ ?r" using rest Cons by (simp add: print_args_def)
    have sk: "skipWhitespaceAndComments p = p\<lparr>ps_rest := print_token a @ ?r\<rparr>"
      using rest' by (intro skip_space) (simp_all add: sharp_def blank_def print_token_def)
    obtain l where t: "readToken (p\<lparr>ps_rest := print_token a @ ?r\<rparr>) = Inr (a, p\<lparr>ps_rest := ?r, ps_line := l\<rparr>)"
      using readToken_print [of "p\<lparr>ps_rest := print_token a @ ?r\<rparr>" a ?r] ok Cons by auto
    obtain block' l' where "parse_args n f rd (acc @ [a]) (p\<lparr>ps_rest := ?r, ps_line := l\<rparr>) =
        Some (Inr ((acc @ args, block'), p\<lparr>ps_rest := suf, ps_line := l'\<rparr>))" "map plain block' = map plain block"
      using IH(2) [unfolded reads_args_def, rule_format, of "p\<lparr>ps_rest := ?r, ps_line := l\<rparr>" as block suf "acc @ [a]"] ok Cons fuel rest'
      by auto
    then show ?thesis using sk t ok Cons
      by (intro exI [of _ block'] exI [of _ l']) (auto simp: pbind_def print_token_def HasPrefix_def)
  qed
qed

lemma reads_all: "reads_directives n f rd \<and> reads_directive n f rd \<and> reads_args n f rd"
proof (induction n)
  case 0
  then show ?case by (simp add: reads_directives_def reads_directive_def reads_args_def)
next
  case (Suc n)
  then show ?case by (simp add: reads_directives_Suc reads_directive_Suc reads_args_Suc)
qed

text \<open>C9. A configuration printed with quoted names and arguments is parsed back to itself, up to the
  positions of the directives.\<close>

theorem nginx_print_parse:
  assumes "list_all printable ds"
  shows "\<exists>ds'. ParseString f (concat (map print_directive ds)) = Some (Inr ds') \<and> map plain ds' = map plain ds"
proof -
  let ?s = "concat (map print_directive ds)"
  let ?p = "\<lparr>ps_rest = ?s, ps_line = 1, ps_file = ''<string>'', ps_includeStack = [], ps_depth = 0, ps_extra = []\<rparr>"
  obtain ds' l where "parseDirectives (parse_fuel ?s) f (parseFileWithStack (nat (maxDepth - 1)) f) ?p =
      Some (Inr (ds', ?p\<lparr>ps_rest := [], ps_line := l\<rparr>))" "map plain ds' = map plain ds"
    using reads_all [THEN conjunct1, unfolded reads_directives_def, rule_format, of ?p ds "[]" "parse_fuel ?s" f
        "parseFileWithStack (nat (maxDepth - 1)) f"] assms
    by (auto simp: parse_fuel_def)
  then show ?thesis by (simp add: ParseString_def parse_text_def pbind_def)
qed

definition demo_nginx :: "Directive list" where
  "demo_nginx = [Directive ''server'' [] [Directive ''listen'' [''80''] [] 0 [], Directive ''return'' [''301'', ''a b''] [] 0 []] 0 []]"

definition no_files :: fs where
  "no_files = \<lparr>fs_read = \<lambda>_. None, fs_glob = \<lambda>_. Some [], fs_resolve = Some, fs_abs = Some\<rparr>"

theorem nginx_print_parse_witness:
  "\<exists>ds'. ParseString no_files (concat (map print_directive demo_nginx)) = Some (Inr ds') \<and> map plain ds' = map plain demo_nginx"
  by (rule nginx_print_parse) (simp add: demo_nginx_def)

text \<open>A file that includes a file of its own include stack is refused.\<close>

lemma include_self_refused:
  "ParseFile \<lparr>fs_read = \<lambda>_. Some ''include a;'', fs_glob = \<lambda>s. Some [s], fs_resolve = Some, fs_abs = Some\<rparr> ''/a'' =
     Some (Inl \<lparr>pe_File = ''/a'', pe_Line = 1, pe_Message = CircularInclude ''/a''\<rparr>)"
  by code_simp

end
