(* ===== verification/GoDuration.thy ===== *)
theory GoDuration
  imports Config
begin

text \<open>
  \<open>time.ParseDuration\<close> of the Go library: a sign, then decimal numbers with a unit each. Amounts above
  \<open>2\<^sup>6\<^sup>3\<close> are errors. The fractional part is exact here where the library uses \<open>float64\<close>. A microsecond has
  three spellings, two of them with a letter outside ASCII.
\<close>

definition unit_nanos :: "string \<Rightarrow> nat option" where
  "unit_nanos u =
     (if u = ''ns'' then Some 1
      else if u \<in> {''us'', [CHR 0xC2, CHR 0xB5, CHR ''s''], [CHR 0xCE, CHR 0xBC, CHR ''s'']} then Some 1000
      else if u = ''ms'' then Some 1000000
      else if u = ''s'' then Some 1000000000
      else if u = ''m'' then Some 60000000000
      else if u = ''h'' then Some 3600000000000
      else None)"

definition num_char :: "char \<Rightarrow> bool" where
  "num_char c \<longleftrightarrow> c = CHR ''.'' \<or> is_digit c"

text \<open>One number with its unit: its nanoseconds and what follows.\<close>

definition dur_item :: "string \<Rightarrow> (nat \<times> string) option" where
  "dur_item s =
     (let whole = takeWhile is_digit s;
          s1 = dropWhile is_digit s;
          dot = HasPrefix s1 ''.'';
          frac = (if dot then takeWhile is_digit (tl s1) else []);
          s2 = (if dot then dropWhile is_digit (tl s1) else s1);
          u = takeWhile (\<lambda>c. \<not> num_char c) s2
      in if whole = [] \<and> frac = [] then None
         else if u = [] then None
         else case unit_nanos u of
                None \<Rightarrow> None
              | Some n \<Rightarrow>
                  let v = digits_val whole * n + digits_val frac * n div 10 ^ length frac
                  in if digits_val whole * n > 2 ^ 63 \<or> v > 2 ^ 63 then None
                     else Some (v, dropWhile (\<lambda>c. \<not> num_char c) s2))"

lemma takeWhile_shorter: "takeWhile P s \<noteq> [] \<Longrightarrow> length (dropWhile P s) < length s"
  by (cases s) (auto simp: le_imp_less_Suc length_dropWhile_le split: if_splits)

lemma dur_item_shorter:
  assumes "dur_item s = Some (v, r)"
  shows "length r < length s"
proof -
  define s1 where "s1 = dropWhile is_digit s"
  define s2 where "s2 = (if HasPrefix s1 ''.'' then dropWhile is_digit (tl s1) else s1)"
  have r: "r = dropWhile (\<lambda>c. \<not> num_char c) s2" "takeWhile (\<lambda>c. \<not> num_char c) s2 \<noteq> []"
    using assms by (auto simp: dur_item_def Let_def s1_def s2_def split: if_splits option.splits)
  have "length s2 \<le> length s1"
    using length_dropWhile_le [of is_digit "tl s1"] by (auto simp: s2_def intro: le_trans [OF _ diff_le_self])
  also have "length s1 \<le> length s" by (simp add: s1_def length_dropWhile_le)
  finally show ?thesis using r takeWhile_shorter [of "\<lambda>c. \<not> num_char c" s2] by simp
qed

function dur_loop :: "nat \<Rightarrow> string \<Rightarrow> nat option" where
  "dur_loop d s =
     (if s = [] then Some d
      else case dur_item s of
             None \<Rightarrow> None
           | Some (v, r) \<Rightarrow> if d + v > 2 ^ 63 then None else dur_loop (d + v) r)"
  by pat_completeness auto
termination
  by (relation "measure (\<lambda>(d, s). length s)") (auto dest: dur_item_shorter)

declare dur_loop.simps [simp del]

definition ParseDuration :: "string \<Rightarrow> nanos option" where
  "ParseDuration s0 =
     (let neg = HasPrefix s0 ''-'';
          s = (if neg \<or> HasPrefix s0 ''+'' then tl s0 else s0)
      in if s = ''0'' then Some 0
         else if s = [] then None
         else case dur_loop 0 s of
                None \<Rightarrow> None
              | Some d \<Rightarrow> if neg then Some (- int d) else if int d > 2 ^ 63 - 1 then None else Some (int d))"

section \<open>A printed number of units is read back\<close>

lemma ParseDuration_unit:
  assumes "unit_nanos u = Some m" "n > 0" "n * m < 2 ^ 63"
  shows "ParseDuration (show_nat n @ u) = Some (int (n * m))"
proof -
  have u: "u \<noteq> []" "\<forall>c \<in> set u. \<not> num_char c" "\<not> is_digit (hd u)"
    using assms(1) by (auto simp: unit_nanos_def num_char_def is_digit_def split: if_splits)
  have ds: "\<forall>c \<in> set (show_nat n). is_digit c" "show_nat n \<noteq> []" "digits_val (show_nat n) = n"
    using show_nat_digits [of n] by (auto simp: list_all_iff)
  have tw: "takeWhile is_digit (show_nat n @ u) = show_nat n" "dropWhile is_digit (show_nat n @ u) = u"
    using ds(1) u(1,3) by (cases u; simp add: takeWhile_append2 dropWhile_append2)+
  have dot: "\<not> HasPrefix u ''.''" using u by (cases u) (auto simp: HasPrefix_def num_char_def)
  have uw: "takeWhile (\<lambda>c. \<not> num_char c) u = u" "dropWhile (\<lambda>c. \<not> num_char c) u = []" using u(2) by simp_all
  have item: "dur_item (show_nat n @ u) = Some (n * m, [])"
  proof -
    have "digits_val [] = 0" by (simp add: digits_val_def)
    moreover have "\<not> (2 ^ 63 < n * m)" using assms(3) by simp
    ultimately show ?thesis unfolding dur_item_def Let_def tw using dot ds(2,3) assms(1) u(1)
      by (simp only: if_False uw simp_thms option.case list.size power_0 div_by_1 mult_0 add_0_right)
  qed
  obtain c cs where c: "show_nat n = c # cs" "is_digit c" using ds by (cases "show_nat n") auto
  have sign: "\<not> HasPrefix (show_nat n @ u) ''-''" "\<not> HasPrefix (show_nat n @ u) ''+''"
    using c is_digit_not_sign [of c] by (auto simp: HasPrefix_def)
  have "show_nat n @ u \<noteq> ''0''" using ds(2) u(1) by (cases "show_nat n"; cases u) auto
  moreover have "dur_loop 0 (show_nat n @ u) = Some (n * m)"
    using item assms(3) u(1) by (subst dur_loop.simps) (simp add: dur_loop.simps [of _ "[]"])
  ultimately show ?thesis using sign u(1) assms(3) unfolding ParseDuration_def Let_def
    by (simp flip: of_nat_mult)
qed

end
