(* ===== verification/NginxConvert.thy ===== *)
theory NginxConvert
  imports NginxParser ServerConfig GoDuration "HOL-Library.AList"
begin

text \<open>
  \<^verbatim>\<open>internal/converter/nginx/converter.go\<close>: parsed nginx directives become a configuration and a list of warnings.
  The functions of the source update the server, the proxy entry or the result they get a pointer to; here they return the
  updated value. A slice expression out of range is the panic \<open>IndexOutOfRange\<close>, so the functions that may
  meet one return a sum. The maps of the configuration are association lists.
\<close>

section \<open>Data\<close>

record Warning =
  w_Directive :: string
  w_Line :: int
  w_File :: string
  w_Message :: string

record ConvertResult =
  cr_Config :: Config
  cr_Warnings :: "Warning list"

record upstreamInfo =
  ui_Targets :: "ProxyTarget list"
  ui_LoadBalance :: string

record locationClassification =
  lc_LocType :: string
  lc_Path :: string
  lc_Modifier :: string
  lc_Directives :: "Directive list"

record listenInfo =
  li_Addr :: string
  li_IsSSL :: bool
  li_IsDefault :: bool

type_synonym upstreams = "(string \<times> upstreamInfo) list"

definition unsupportedDirectives :: "(string \<times> string) list" where
  "unsupportedDirectives =
    [(''if'', ''the 'if' directive is not supported; consider using map or rewrite''),
     (''map'', ''the 'map' directive is not supported; use variables config instead''),
     (''set'', ''the 'set' directive is not supported; use variables config instead''),
     (''limit_req'', ''the 'limit_req' directive is not supported; use rate_limit config instead''),
     (''limit_conn'', ''the 'limit_conn' directive is not supported''),
     (''add_header'', ''the 'add_header' directive is not supported; use security.headers config instead''),
     (''more_set_headers'', ''the 'more_set_headers' directive is not supported; use security.headers config instead''),
     (''auth_request'', ''the 'auth_request' directive is not supported; use security.auth_request config instead''),
     (''split_clients'', ''the 'split_clients' directive is not supported''),
     (''geo'', ''the 'geo' directive is not supported; use access.geoip config instead''),
     (''range'', ''the 'range' directive is not supported''),
     (''return'', ''the 'return' directive is not supported for non-redirect status codes; only 301/302 are supported'')]"

definition warn :: "Directive \<Rightarrow> string \<Rightarrow> ConvertResult \<Rightarrow> ConvertResult" where
  "warn d msg r = r\<lparr>cr_Warnings := cr_Warnings r @ [\<lparr>w_Directive = d_Name d, w_Line = d_Line d, w_File = d_File d, w_Message = msg\<rparr>]\<rparr>"

definition warn_bare :: "string \<Rightarrow> string \<Rightarrow> ConvertResult \<Rightarrow> ConvertResult" where
  "warn_bare n msg r = r\<lparr>cr_Warnings := cr_Warnings r @ [\<lparr>w_Directive = n, w_Line = 0, w_File = [], w_Message = msg\<rparr>]\<rparr>"

definition warn_unsupported :: "Directive \<Rightarrow> ConvertResult \<Rightarrow> ConvertResult" where
  "warn_unsupported d r = (case map_of unsupportedDirectives (d_Name d) of Some msg \<Rightarrow> warn d msg r | None \<Rightarrow> r)"

text \<open>Loops whose body may panic.\<close>

fun gfold :: "('a \<Rightarrow> 's \<Rightarrow> go_panic + 's) \<Rightarrow> 'a list \<Rightarrow> 's \<Rightarrow> go_panic + 's" where
  "gfold f [] s = Inr s"
| "gfold f (x # xs) s = (case f x s of Inl e \<Rightarrow> Inl e | Inr s' \<Rightarrow> gfold f xs s')"

section \<open>Durations\<close>

definition parseDuration :: "string \<Rightarrow> go_panic + nanos" where
  "parseDuration s0 =
     (if s0 = [] then Inr 0
      else case ParseDuration s0 of
             Some d \<Rightarrow> Inr d
           | None \<Rightarrow>
               (let s = TrimSpace s0
                in if s = [] then Inl IndexOutOfRange
                   else case Atoi (butlast s) of
                          None \<Rightarrow> Inr 0
                        | Some v \<Rightarrow>
                            Inr (if last s = CHR ''s'' then wrap64 (v * second)
                                 else if last s = CHR ''m'' then wrap64 (v * (60 * second))
                                 else if last s = CHR ''h'' then wrap64 (v * (3600 * second))
                                 else if last s = CHR ''d'' then wrap64 (wrap64 (v * 24) * (3600 * second))
                                 else 0)))"

section \<open>Upstreams\<close>

definition target_arg :: "string \<Rightarrow> ProxyTarget \<Rightarrow> go_panic + ProxyTarget" where
  "target_arg arg t =
     (if HasPrefix arg ''weight='' then
        Inr (case Atoi (TrimPrefix arg ''weight='') of Some v \<Rightarrow> t\<lparr>pt_Weight := v\<rparr> | None \<Rightarrow> t)
      else if HasPrefix arg ''max_fails='' then
        Inr (case Atoi (TrimPrefix arg ''max_fails='') of Some v \<Rightarrow> t\<lparr>pt_MaxFails := v\<rparr> | None \<Rightarrow> t)
      else if HasPrefix arg ''fail_timeout='' then
        (case parseDuration (TrimPrefix arg ''fail_timeout='') of Inl e \<Rightarrow> Inl e | Inr d \<Rightarrow> Inr (t\<lparr>pt_FailTimeout := d\<rparr>))
      else if arg = ''backup'' then Inr (t\<lparr>pt_Backup := True\<rparr>)
      else if arg = ''down'' then Inr (t\<lparr>pt_Down := True\<rparr>)
      else Inr t)"

definition convertUpstreamServer :: "Directive \<Rightarrow> go_panic + ProxyTarget" where
  "convertUpstreamServer d =
     (case d_Args d of
        [] \<Rightarrow> Inl IndexOutOfRange
      | url # rest \<Rightarrow>
          gfold target_arg rest
            (zero_ProxyTarget\<lparr>pt_URL := if \<not> HasPrefix url ''http://'' \<and> \<not> HasPrefix url ''https://'' then ''http://'' @ url else url\<rparr>))"

definition upstream_step :: "Directive \<Rightarrow> upstreamInfo \<times> ConvertResult \<Rightarrow> go_panic + upstreamInfo \<times> ConvertResult" where
  "upstream_step bd s =
     (case s of (info, r) \<Rightarrow>
        let n = d_Name bd
        in if n = ''server'' then
             (case convertUpstreamServer bd of Inl e \<Rightarrow> Inl e | Inr t \<Rightarrow> Inr (info\<lparr>ui_Targets := ui_Targets info @ [t]\<rparr>, r))
           else if n = ''least_conn'' then Inr (info\<lparr>ui_LoadBalance := ''least_conn''\<rparr>, r)
           else if n = ''ip_hash'' then Inr (info\<lparr>ui_LoadBalance := ''ip_hash''\<rparr>, r)
           else if n = ''hash'' then Inr (if d_Args bd \<noteq> [] then info\<lparr>ui_LoadBalance := ''consistent_hash''\<rparr> else info, r)
           else if n = ''random'' then Inr (info\<lparr>ui_LoadBalance := ''random''\<rparr>, r)
           else Inr (info, warn bd (''unsupported directive in upstream block: '' @ n) r))"

definition convertUpstream :: "Directive \<Rightarrow> ConvertResult \<Rightarrow> go_panic + upstreamInfo \<times> ConvertResult" where
  "convertUpstream d r = gfold upstream_step (d_Block d) (\<lparr>ui_Targets = [], ui_LoadBalance = []\<rparr>, r)"

section \<open>Server-level directives\<close>

definition parseListenInfo :: "Directive \<Rightarrow> listenInfo" where
  "parseListenInfo d =
     (case d_Args d of
        [] \<Rightarrow> \<lparr>li_Addr = [], li_IsSSL = False, li_IsDefault = False\<rparr>
      | addr # rest \<Rightarrow>
          \<lparr>li_Addr = (case Atoi addr of
                       Some port \<Rightarrow> '':'' @ show_int port
                     | None \<Rightarrow> if Contains addr '':'' then addr else '':'' @ addr),
           li_IsSSL = (''ssl'' \<in> set rest),
           li_IsDefault = (''default_server'' \<in> set rest)\<rparr>)"

definition parseServerName :: "Directive \<Rightarrow> ServerConfig \<Rightarrow> ServerConfig" where
  "parseServerName d sv =
     (if d_Args d = [] then sv
      else sv\<lparr>sv_Name := d_Args d ! 0, sv_ServerNames := sv_ServerNames sv @ d_Args d\<rparr>)"

definition parseGzip :: "Directive \<Rightarrow> ServerConfig \<Rightarrow> ServerConfig" where
  "parseGzip d sv =
     (if d_Args d \<noteq> [] \<and> d_Args d ! 0 = ''on'' then sv\<lparr>sv_Compression := (sv_Compression sv)\<lparr>cm_Type := ''gzip''\<rparr>\<rparr> else sv)"

definition set_logging :: "(LoggingConfig \<Rightarrow> LoggingConfig) \<Rightarrow> ConvertResult \<Rightarrow> ConvertResult" where
  "set_logging f r = r\<lparr>cr_Config := (cr_Config r)\<lparr>cf_Logging := f (cf_Logging (cr_Config r))\<rparr>\<rparr>"

definition parseAccessLog :: "Directive \<Rightarrow> ConvertResult \<Rightarrow> ConvertResult" where
  "parseAccessLog d r =
     set_logging (\<lambda>lo. lo\<lparr>lo_Access :=
       (let a = lo_Access lo;
            a1 = (if d_Args d \<noteq> [] then a\<lparr>al_Path := d_Args d ! 0\<rparr> else a)
        in if length (d_Args d) > 1 then a1\<lparr>al_Format := d_Args d ! 1\<rparr> else a1)\<rparr>) r"

definition parseErrorLog :: "Directive \<Rightarrow> ConvertResult \<Rightarrow> ConvertResult" where
  "parseErrorLog d r =
     set_logging (\<lambda>lo. lo\<lparr>lo_Error :=
       (let a = lo_Error lo;
            a1 = (if d_Args d \<noteq> [] then a\<lparr>el_Path := d_Args d ! 0\<rparr> else a)
        in if length (d_Args d) > 1 then a1\<lparr>el_Level := d_Args d ! 1\<rparr> else a1)\<rparr>) r"

definition add_rewrite :: "string \<Rightarrow> string \<Rightarrow> string \<Rightarrow> ServerConfig \<Rightarrow> ServerConfig" where
  "add_rewrite pat repl flag sv =
     sv\<lparr>sv_Rewrite := sv_Rewrite sv @ [\<lparr>rwr_Pattern = pat, rwr_Replacement = repl, rwr_Flag = flag\<rparr>]\<rparr>"

definition parseServerReturn :: "Directive \<Rightarrow> ServerConfig \<Rightarrow> ConvertResult \<Rightarrow> ServerConfig \<times> ConvertResult" where
  "parseServerReturn d sv r =
     (if d_Args d = [] then (sv, r)
      else case Atoi (d_Args d ! 0) of
             None \<Rightarrow> (sv, r)
           | Some code \<Rightarrow>
               let url = (if length (d_Args d) > 1 then d_Args d ! 1 else [])
               in if code = 301 then (add_rewrite ''^/'' url ''permanent'' sv, r)
                  else if code = 302 then (add_rewrite ''^/'' url ''redirect'' sv, r)
                  else (sv, warn (Directive ''return'' [] [] (d_Line d) (d_File d))
                        (''return '' @ show_int code @ '' is not a redirect; only 301/302 are supported at server level'') r))"

definition parseRewrite :: "Directive \<Rightarrow> ServerConfig \<Rightarrow> ServerConfig" where
  "parseRewrite d sv =
     (if length (d_Args d) < 2 then sv
      else add_rewrite (d_Args d ! 0) (d_Args d ! 1) (if length (d_Args d) > 2 then d_Args d ! 2 else []) sv)"

definition parseErrorPage :: "Directive \<Rightarrow> ServerConfig \<Rightarrow> ServerConfig" where
  "parseErrorPage d sv =
     (if length (d_Args d) < 2 then sv
      else
        let pagePath = last (d_Args d);
            put = (\<lambda>pages arg. case Atoi arg of Some code \<Rightarrow> AList.update code pagePath pages | None \<Rightarrow> pages);
            sec = sv_Security sv;
            ep = se_ErrorPage sec
        in sv\<lparr>sv_Security := sec\<lparr>se_ErrorPage := ep\<lparr>ep_Pages := foldl put (ep_Pages ep) (butlast (d_Args d))\<rparr>\<rparr>\<rparr>)"

definition parseAuthBasic :: "Directive \<Rightarrow> ServerConfig \<Rightarrow> ServerConfig" where
  "parseAuthBasic d sv =
     (if d_Args d \<noteq> [] \<and> d_Args d ! 0 \<noteq> ''off'' then
        sv\<lparr>sv_Security := (sv_Security sv)\<lparr>se_Auth := (se_Auth (sv_Security sv))\<lparr>au_Type := ''basic'', au_Realm := d_Args d ! 0\<rparr>\<rparr>\<rparr>
      else sv)"

section \<open>Locations\<close>

definition is_redirect_code :: "Directive \<Rightarrow> bool" where
  "is_redirect_code d \<longleftrightarrow> d_Args d \<noteq> [] \<and> (Atoi (d_Args d ! 0) = Some 301 \<or> Atoi (d_Args d ! 0) = Some 302)"

definition location_path :: "Directive \<Rightarrow> string \<times> string" where
  "location_path d =
     (case d_Args d of
        [] \<Rightarrow> ([], [])
      | first # rest \<Rightarrow>
          if first \<in> {''='', ''^~'', ''~'', ''~*''} then (first, if rest \<noteq> [] then rest ! 0 else [])
          else if HasPrefix first ''@'' then (''@'', tl first)
          else ([], first))"

definition classifyLocation :: "Directive \<Rightarrow> string \<Rightarrow> ConvertResult \<Rightarrow> locationClassification \<times> ConvertResult" where
  "classifyLocation d serverRoot r =
     (let (modifier, path) = location_path d;
          names = map d_Name (d_Block d);
          hasProxyPass = (''proxy_pass'' \<in> set names);
          hasRootOrAlias = (''root'' \<in> set names \<or> ''alias'' \<in> set names);
          hasTryFiles = (''try_files'' \<in> set names);
          hasRedirect = list_ex (\<lambda>b. d_Name b = ''return'' \<and> is_redirect_code b) (d_Block d);
          class = (\<lambda>t. \<lparr>lc_LocType = t, lc_Path = path, lc_Modifier = modifier, lc_Directives = d_Block d\<rparr>)
      in if hasProxyPass then
           (class ''proxy'',
            if hasRootOrAlias then
              warn (Directive ''location'' [] [] (d_Line d) (d_File d)) ''location has both proxy_pass and root/alias; proxy_pass takes priority'' r
            else r)
         else if hasRootOrAlias \<or> hasTryFiles then (class ''static'', r)
         else if hasRedirect then (class ''redirect'', r)
         else if serverRoot \<noteq> [] then (class ''static'', r)
         else (class ''unsupported'', r))"

definition modifierToLocationType :: "string \<Rightarrow> string" where
  "modifierToLocationType m =
     (if m = ''='' then ''exact''
      else if m = ''^~'' then ''prefix_priority''
      else if m = ''~'' then ''regex''
      else if m = ''~*'' then ''regex_caseless''
      else if m = ''@'' then ''named''
      else [])"

definition extractUpstreamName :: "string \<Rightarrow> string" where
  "extractUpstreamName url =
     (case StrIndex url ''://'' of
        None \<Rightarrow> []
      | Some i \<Rightarrow>
          let host = takeWhile (\<lambda>c. c \<noteq> CHR ''/'' \<and> c \<noteq> CHR ''?'') (drop (i + 3) url)
          in if \<not> Contains host '':'' \<and> \<not> Contains host ''.'' \<and> host \<noteq> [] then host else [])"

text \<open>\<open>strings.ReplaceAll\<close> for a non-empty pattern.\<close>

function ReplaceAll :: "string \<Rightarrow> string \<Rightarrow> string \<Rightarrow> string" where
  "ReplaceAll s old new =
     (if s = [] \<or> old = [] then s
      else if HasPrefix s old then new @ ReplaceAll (drop (length old) s) old new
      else hd s # ReplaceAll (tl s) old new)"
  by pat_completeness auto
termination
  by (relation "measure (\<lambda>(s, old, new). length s)") auto

declare ReplaceAll.simps [simp del]

definition mapVariable :: "string \<Rightarrow> ConvertResult \<Rightarrow> Directive \<Rightarrow> string \<times> ConvertResult" where
  "mapVariable val r d =
     (if Contains val ''$proxy_add_x_forwarded_for'' then
        (ReplaceAll val ''$proxy_add_x_forwarded_for'' ''$remote_addr'',
         warn (Directive ''proxy_set_header'' [] [] (d_Line d) (d_File d))
           ''$proxy_add_x_forwarded_for is replaced with $remote_addr; lolly automatically appends to X-Forwarded-For'' r)
      else (val, r))"

definition convertProxyRedirect :: "Directive \<Rightarrow> ProxyConfig \<Rightarrow> ProxyConfig" where
  "convertProxyRedirect d px =
     (if d_Args d = [] then px
      else
        let a = d_Args d ! 0;
            rr = (if a = ''off'' then \<lparr>rrc_Mode = ''off'', rrc_Rules = []\<rparr>
                  else if a = ''default'' then \<lparr>rrc_Mode = ''default'', rrc_Rules = []\<rparr>
                  else \<lparr>rrc_Mode = ''custom'',
                        rrc_Rules = (if length (d_Args d) \<ge> 2 then [\<lparr>rrr_Pattern = a, rrr_Replacement = d_Args d ! 1\<rparr>] else [])\<rparr>)
        in px\<lparr>px_RedirectRewrite := Some rr\<rparr>)"

definition cache_valid_arg :: "nanos \<Rightarrow> ProxyCacheValidConfig \<Rightarrow> string \<Rightarrow> ProxyCacheValidConfig" where
  "cache_valid_arg dur cv arg =
     (if arg \<in> {''200'', ''201'', ''202'', ''203'', ''204'', ''205'', ''206'', ''207'', ''208'', ''226''} then cv\<lparr>cv_OK := dur\<rparr>
      else if arg \<in> {''301'', ''302''} then cv\<lparr>cv_Redirect := dur\<rparr>
      else if arg = ''404'' then cv\<lparr>cv_NotFound := dur\<rparr>
      else if arg = ''any'' then
        cv\<lparr>cv_OK := dur, cv_Redirect := dur, cv_NotFound := dur, cv_ClientError := dur, cv_ServerError := dur\<rparr>
      else case Atoi arg of
             None \<Rightarrow> cv
           | Some code \<Rightarrow>
               if code \<ge> 400 \<and> code < 500 \<and> code \<noteq> 404 then cv\<lparr>cv_ClientError := dur\<rparr>
               else if code \<ge> 500 then cv\<lparr>cv_ServerError := dur\<rparr>
               else cv)"

definition parseProxyCacheValid :: "Directive \<Rightarrow> ProxyConfig \<Rightarrow> go_panic + ProxyConfig" where
  "parseProxyCacheValid d px =
     (if length (d_Args d) < 2 then Inr px
      else
        let cv = (case px_CacheValid px of
                    Some cv \<Rightarrow> cv
                  | None \<Rightarrow> \<lparr>cv_OK = 0, cv_Redirect = 0, cv_NotFound = 0, cv_ClientError = 0, cv_ServerError = 0\<rparr>)
        in case parseDuration (last (d_Args d)) of
             Inl e \<Rightarrow> Inl e
           | Inr dur \<Rightarrow> Inr (px\<lparr>px_CacheValid := Some (foldl (cache_valid_arg dur) cv (butlast (d_Args d)))\<rparr>))"

definition proxy_pass :: "upstreams \<Rightarrow> string \<Rightarrow> ProxyConfig \<Rightarrow> ProxyConfig" where
  "proxy_pass ups url px =
     (let upstreamName = extractUpstreamName url
      in case (if upstreamName \<noteq> [] then map_of ups upstreamName else None) of
           Some info \<Rightarrow>
             (let px1 = px\<lparr>px_Targets := px_Targets px @ ui_Targets info\<rparr>
              in if ui_LoadBalance info \<noteq> [] \<and> px_LoadBalance px = [] then px1\<lparr>px_LoadBalance := ui_LoadBalance info\<rparr> else px1)
         | None \<Rightarrow> px\<lparr>px_Targets := px_Targets px @ [zero_ProxyTarget\<lparr>pt_URL := url\<rparr>]\<rparr>)"

definition set_timeout :: "(nanos \<Rightarrow> ProxyTimeout \<Rightarrow> ProxyTimeout) \<Rightarrow> Directive \<Rightarrow> ProxyConfig \<Rightarrow> go_panic + ProxyConfig" where
  "set_timeout upd d px =
     (if d_Args d = [] then Inr px
      else case parseDuration (d_Args d ! 0) of
             Inl e \<Rightarrow> Inl e
           | Inr t \<Rightarrow> Inr (px\<lparr>px_Timeout := upd t (px_Timeout px)\<rparr>))"

definition set_header :: "Directive \<Rightarrow> ProxyConfig \<Rightarrow> ConvertResult \<Rightarrow> ProxyConfig \<times> ConvertResult" where
  "set_header d px r =
     (if length (d_Args d) \<ge> 2 then
        let (v, r1) = mapVariable (d_Args d ! 1) r d;
            v1 = (if v = [CHR 0x22, CHR 0x22] then [] else v)
        in (px\<lparr>px_Headers := (px_Headers px)\<lparr>ph_SetRequest := AList.update (d_Args d ! 0) v1 (ph_SetRequest (px_Headers px))\<rparr>\<rparr>, r1)
      else (px, r))"

definition proxy_directive :: "upstreams \<Rightarrow> Directive \<Rightarrow> ProxyConfig \<times> ConvertResult \<Rightarrow> go_panic + ProxyConfig \<times> ConvertResult" where
  "proxy_directive ups d s =
     (case s of (px, r) \<Rightarrow>
        let n = d_Name d; args = d_Args d;
            keep_result = (\<lambda>x. case x of Inl e \<Rightarrow> Inl e | Inr px' \<Rightarrow> Inr (px', r))
        in if n = ''proxy_pass'' then Inr (if args \<noteq> [] then proxy_pass ups (args ! 0) px else px, r)
           else if n = ''proxy_set_header'' then Inr (set_header d px r)
           else if n = ''proxy_hide_header'' then
             Inr (if args \<noteq> [] then px\<lparr>px_Headers := (px_Headers px)\<lparr>ph_HideResponse := ph_HideResponse (px_Headers px) @ [args ! 0]\<rparr>\<rparr> else px, r)
           else if n = ''proxy_pass_header'' then
             Inr (if args \<noteq> [] then px\<lparr>px_Headers := (px_Headers px)\<lparr>ph_PassResponse := ph_PassResponse (px_Headers px) @ [args ! 0]\<rparr>\<rparr> else px, r)
           else if n = ''proxy_redirect'' then Inr (convertProxyRedirect d px, r)
           else if n = ''proxy_connect_timeout'' then keep_result (set_timeout (\<lambda>t to. to\<lparr>to_Connect := t\<rparr>) d px)
           else if n = ''proxy_read_timeout'' then keep_result (set_timeout (\<lambda>t to. to\<lparr>to_Read := t\<rparr>) d px)
           else if n = ''proxy_send_timeout'' then keep_result (set_timeout (\<lambda>t to. to\<lparr>to_Write := t\<rparr>) d px)
           else if n = ''proxy_cache'' then Inr (px\<lparr>px_Cache := (px_Cache px)\<lparr>pcc_Enabled := True\<rparr>\<rparr>, r)
           else if n = ''proxy_cache_valid'' then keep_result (parseProxyCacheValid d px)
           else Inr (px, warn_unsupported d r))"

definition convertProxyDirectives ::
  "Directive list \<Rightarrow> ProxyConfig \<Rightarrow> upstreams \<Rightarrow> ConvertResult \<Rightarrow> go_panic + ProxyConfig \<times> ConvertResult" where
  "convertProxyDirectives ds px ups r = gfold (proxy_directive ups) ds (px, r)"

definition static_directive :: "Directive \<Rightarrow> StaticConfig \<times> ConvertResult \<Rightarrow> StaticConfig \<times> ConvertResult" where
  "static_directive d s =
     (case s of (st, r) \<Rightarrow>
        let n = d_Name d; args = d_Args d
        in if n = ''root'' then (if args \<noteq> [] then st\<lparr>st_Root := args ! 0\<rparr> else st, r)
           else if n = ''alias'' then (if args \<noteq> [] then st\<lparr>st_Alias := args ! 0\<rparr> else st, r)
           else if n = ''index'' then (st\<lparr>st_Index := st_Index st @ args\<rparr>, r)
           else if n = ''try_files'' then (st\<lparr>st_TryFiles := st_TryFiles st @ args\<rparr>, r)
           else if n = ''expires'' then (if args \<noteq> [] then st\<lparr>st_Expires := args ! 0\<rparr> else st, r)
           else (st, warn_unsupported d r))"

definition convertStaticDirectives :: "Directive list \<Rightarrow> StaticConfig \<Rightarrow> ConvertResult \<Rightarrow> StaticConfig \<times> ConvertResult" where
  "convertStaticDirectives ds st r = fold static_directive ds (st, r)"

definition redirect_directive :: "string \<Rightarrow> Directive \<Rightarrow> ServerConfig \<times> ConvertResult \<Rightarrow> ServerConfig \<times> ConvertResult" where
  "redirect_directive locPath d s =
     (case s of (sv, r) \<Rightarrow>
        if d_Name d \<noteq> ''return'' \<or> length (d_Args d) < 2 then (sv, r)
        else case Atoi (d_Args d ! 0) of
               None \<Rightarrow> (sv, r)
             | Some code \<Rightarrow>
                 let url = d_Args d ! 1; pat = ''^'' @ locPath @ ''$''
                 in if code = 301 then (add_rewrite pat url ''permanent'' sv, warn d ''return 301 converted to rewrite rule with permanent flag'' r)
                    else if code = 302 then (add_rewrite pat url ''redirect'' sv, warn d ''return 302 converted to rewrite rule with redirect flag'' r)
                    else (sv, warn d (''return '' @ show_int code @ '' in location is not a redirect; only 301/302 are supported'') r))"

definition convertRedirectDirectives :: "Directive list \<Rightarrow> string \<Rightarrow> ServerConfig \<Rightarrow> ConvertResult \<Rightarrow> ServerConfig \<times> ConvertResult" where
  "convertRedirectDirectives ds locPath sv r = fold (redirect_directive locPath) ds (sv, r)"

definition convertLocation ::
  "locationClassification \<Rightarrow> ServerConfig \<Rightarrow> upstreams \<Rightarrow> ConvertResult \<Rightarrow> go_panic + ServerConfig \<times> ConvertResult" where
  "convertLocation class sv ups r =
     (let locType = modifierToLocationType (lc_Modifier class)
      in if lc_LocType class = ''proxy'' then
           (case convertProxyDirectives (lc_Directives class)
                   (zero_ProxyConfig\<lparr>px_Path := lc_Path class, px_LocationType := locType,
                      px_LocationName := if lc_Modifier class = ''@'' then lc_Path class else []\<rparr>) ups r of
              Inl e \<Rightarrow> Inl e
            | Inr (px, r1) \<Rightarrow> Inr (sv\<lparr>sv_Proxy := sv_Proxy sv @ [px]\<rparr>, r1))
         else if lc_LocType class = ''static'' then
           (case convertStaticDirectives (lc_Directives class)
                   (zero_StaticConfig\<lparr>st_Path := lc_Path class, st_LocationType := locType\<rparr>) r of
              (st, r1) \<Rightarrow> Inr (sv\<lparr>sv_Static := sv_Static sv @ [st]\<rparr>, r1))
         else if lc_LocType class = ''redirect'' then Inr (convertRedirectDirectives (lc_Directives class) (lc_Path class) sv r)
         else if lc_LocType class = ''unsupported'' then
           Inr (sv, fold (\<lambda>bd. warn bd (''unsupported directive in location: '' @ d_Name bd)) (lc_Directives class)
                      (if lc_Directives class = [] then
                         warn_bare ''location'' (''location '' @ lc_Path class @ '' has no content and is unsupported'') r
                       else r))
         else Inr (sv, r))"

section \<open>Server blocks\<close>

record server_state =
  ss_server :: ServerConfig
  ss_root :: string
  ss_index :: "string list"
  ss_result :: ConvertResult

definition server_directive :: "upstreams \<Rightarrow> Directive \<Rightarrow> server_state \<Rightarrow> go_panic + server_state" where
  "server_directive ups bd s =
     (let n = d_Name bd; args = d_Args bd; sv = ss_server s; r = ss_result s;
          upd = (\<lambda>sv'. Inr (s\<lparr>ss_server := sv'\<rparr>));
          first = (\<lambda>f. if args \<noteq> [] then f (args ! 0) else Inr s)
      in if n = ''listen'' then Inr s
         else if n = ''server_name'' then upd (parseServerName bd sv)
         else if n = ''root'' then first (\<lambda>a. Inr (s\<lparr>ss_root := a\<rparr>))
         else if n = ''index'' then Inr (s\<lparr>ss_index := ss_index s @ args\<rparr>)
         else if n = ''ssl_certificate'' then first (\<lambda>a. upd (sv\<lparr>sv_SSL := (sv_SSL sv)\<lparr>ssl_Cert := a\<rparr>\<rparr>))
         else if n = ''ssl_certificate_key'' then first (\<lambda>a. upd (sv\<lparr>sv_SSL := (sv_SSL sv)\<lparr>ssl_Key := a\<rparr>\<rparr>))
         else if n = ''gzip'' then upd (parseGzip bd sv)
         else if n = ''gzip_types'' then upd (sv\<lparr>sv_Compression := (sv_Compression sv)\<lparr>cm_Types := args\<rparr>\<rparr>)
         else if n = ''gzip_min_length'' then
           first (\<lambda>a. case Atoi a of Some v \<Rightarrow> upd (sv\<lparr>sv_Compression := (sv_Compression sv)\<lparr>cm_MinSize := v\<rparr>\<rparr>) | None \<Rightarrow> Inr s)
         else if n = ''client_max_body_size'' then first (\<lambda>a. upd (sv\<lparr>sv_ClientMaxBodySize := a\<rparr>))
         else if n = ''server_tokens'' then first (\<lambda>a. upd (sv\<lparr>sv_ServerTokens := (a \<noteq> ''off'')\<rparr>))
         else if n = ''access_log'' then Inr (s\<lparr>ss_result := parseAccessLog bd r\<rparr>)
         else if n = ''error_log'' then Inr (s\<lparr>ss_result := parseErrorLog bd r\<rparr>)
         else if n = ''return'' then
           (case parseServerReturn bd sv r of (sv1, r1) \<Rightarrow> Inr (s\<lparr>ss_server := sv1, ss_result := r1\<rparr>))
         else if n = ''rewrite'' then upd (parseRewrite bd sv)
         else if n = ''location'' then
           (case classifyLocation bd (ss_root s) r of (class, r1) \<Rightarrow>
              (case convertLocation class sv ups r1 of
                 Inl e \<Rightarrow> Inl e
               | Inr (sv1, r2) \<Rightarrow> Inr (s\<lparr>ss_server := sv1, ss_result := r2\<rparr>)))
         else if n = ''error_page'' then upd (parseErrorPage bd sv)
         else if n = ''auth_basic'' then upd (parseAuthBasic bd sv)
         else if n = ''auth_basic_user_file'' then
           first (\<lambda>a. Inr (s\<lparr>ss_result := warn bd (''auth_basic_user_file ('' @ a @
             '') cannot be directly converted; htpasswd file must be manually migrated to auth.users'') r\<rparr>))
         else Inr (s\<lparr>ss_result := warn_unsupported bd r\<rparr>))"

definition inherit_root :: "string \<Rightarrow> string list \<Rightarrow> ServerConfig \<Rightarrow> ServerConfig" where
  "inherit_root dir index sv =
     (if dir = [] then sv
      else
        let statics = map (\<lambda>st. st\<lparr>st_Root := if st_Root st = [] then dir else st_Root st,
                                   st_Index := if st_Index st = [] \<and> index \<noteq> [] then index else st_Index st\<rparr>) (sv_Static sv);
            hasRoot = (list_ex (\<lambda>st. st_Path st = ''/'') statics \<or> list_ex (\<lambda>px. px_Path px = ''/'') (sv_Proxy sv))
        in sv\<lparr>sv_Static := if hasRoot then statics
                          else statics @ [zero_StaticConfig\<lparr>st_Path := ''/'', st_Root := dir, st_Index := index\<rparr>]\<rparr>)"

definition server_for :: "listenInfo \<Rightarrow> ServerConfig \<Rightarrow> ServerConfig" where
  "server_for li base = base\<lparr>sv_Listen := li_Addr li, sv_Default := li_IsDefault li\<rparr>"

definition ssl_warning :: "ServerConfig \<Rightarrow> listenInfo \<Rightarrow> ConvertResult \<Rightarrow> ConvertResult" where
  "ssl_warning base li r =
     (if li_IsSSL li \<and> (ssl_Cert (sv_SSL base) = [] \<or> ssl_Key (sv_SSL base) = []) then
        warn_bare ''listen'' ''SSL is enabled via listen directive but ssl_certificate and/or ssl_certificate_key are not configured; SSL config will be incomplete'' r
      else r)"

definition listens_of :: "Directive \<Rightarrow> listenInfo list" where
  "listens_of d =
     (let ls = map parseListenInfo (filter (\<lambda>bd. d_Name bd = ''listen'') (d_Block d))
      in if ls = [] then [\<lparr>li_Addr = ''0.0.0.0:80'', li_IsSSL = False, li_IsDefault = False\<rparr>] else ls)"

definition convertServerBlock :: "Directive \<Rightarrow> upstreams \<Rightarrow> ConvertResult \<Rightarrow> go_panic + ServerConfig list \<times> ConvertResult" where
  "convertServerBlock d ups r =
     (case gfold (server_directive ups) (d_Block d) \<lparr>ss_server = zero_ServerConfig, ss_root = [], ss_index = [], ss_result = r\<rparr> of
        Inl e \<Rightarrow> Inl e
      | Inr s \<Rightarrow>
          let base = inherit_root (ss_root s) (ss_index s) (ss_server s); listens = listens_of d
          in Inr (map (\<lambda>li. server_for li base) listens, fold (ssl_warning base) listens (ss_result s)))"

section \<open>The whole configuration\<close>

definition add_upstream :: "Directive \<Rightarrow> upstreams \<times> ConvertResult \<Rightarrow> go_panic + upstreams \<times> ConvertResult" where
  "add_upstream d s =
     (case s of (ups, r) \<Rightarrow>
        if d_Name d \<noteq> ''upstream'' then Inr (ups, r)
        else case convertUpstream d r of
               Inl e \<Rightarrow> Inl e
             | Inr (info, r1) \<Rightarrow> Inr (if d_Args d \<noteq> [] then AList.update (d_Args d ! 0) info ups else ups, r1))"

definition upstream_pass :: "Directive \<Rightarrow> upstreams \<times> ConvertResult \<Rightarrow> go_panic + upstreams \<times> ConvertResult" where
  "upstream_pass d s =
     (if d_Name d = ''http'' then gfold add_upstream (d_Block d) s else add_upstream d s)"

definition http_servers :: "Directive \<Rightarrow> Directive list \<times> ConvertResult \<Rightarrow> Directive list \<times> ConvertResult" where
  "http_servers bd s =
     (case s of (bs, r) \<Rightarrow> if d_Name bd = ''server'' then (bs @ [bd], r) else (bs, warn_unsupported bd r))"

definition collect_servers :: "Directive \<Rightarrow> Directive list \<times> ConvertResult \<Rightarrow> Directive list \<times> ConvertResult" where
  "collect_servers d s =
     (if d_Name d = ''http'' then fold http_servers (d_Block d) s
      else if d_Name d = ''server'' then (fst s @ [d], snd s)
      else s)"

definition add_servers :: "upstreams \<Rightarrow> Directive \<Rightarrow> ConvertResult \<Rightarrow> go_panic + ConvertResult" where
  "add_servers ups d r =
     (case convertServerBlock d ups r of
        Inl e \<Rightarrow> Inl e
      | Inr (svs, r1) \<Rightarrow> Inr (r1\<lparr>cr_Config := (cr_Config r1)\<lparr>cf_Servers := cf_Servers (cr_Config r1) @ svs\<rparr>\<rparr>))"

definition nginx_Convert :: "Directive list \<Rightarrow> go_panic + ConvertResult" where
  "nginx_Convert ds =
     (case gfold upstream_pass ds ([], \<lparr>cr_Config = zero_Config, cr_Warnings = []\<rparr>) of
        Inl e \<Rightarrow> Inl e
      | Inr (ups, r) \<Rightarrow>
          (case fold collect_servers ds ([], r) of (blocks, r1) \<Rightarrow> gfold (add_servers ups) blocks r1))"

section \<open>One server per listen directive\<close>

lemma gfold_inv:
  assumes "gfold f xs s = Inr s'" and "\<And>x s s'. f x s = Inr s' \<Longrightarrow> g s' = g s"
  shows "g s' = g s"
  using assms(1)
proof (induction xs arbitrary: s)
  case (Cons x xs)
  obtain s1 where s1: "f x s = Inr s1" "gfold f xs s1 = Inr s'" using Cons.prems by (auto split: sum.splits)
  show ?case using Cons.IH [OF s1(2)] assms(2) [OF s1(1)] by simp
qed simp

lemma fold_inv: "(\<And>x s. g (f x s) = g s) \<Longrightarrow> g (fold f xs s) = g s"
  by (induction xs arbitrary: s) simp_all

abbreviation servers_of :: "ConvertResult \<Rightarrow> ServerConfig list" where
  "servers_of r \<equiv> cf_Servers (cr_Config r)"

lemma warn_servers [simp]:
  "servers_of (warn d msg r) = servers_of r"
  "servers_of (warn_bare n msg r) = servers_of r"
  "servers_of (warn_unsupported d r) = servers_of r"
  "servers_of (set_logging f r) = servers_of r"
  by (simp_all add: warn_def warn_bare_def warn_unsupported_def set_logging_def split: option.split)

lemma upstream_step_servers: "upstream_step bd s = Inr s' \<Longrightarrow> servers_of (snd s') = servers_of (snd s)"
  by (auto simp: upstream_step_def Let_def split: prod.splits if_splits sum.splits)

lemma add_upstream_servers: "add_upstream d s = Inr s' \<Longrightarrow> servers_of (snd s') = servers_of (snd s)"
  using gfold_inv [of upstream_step "d_Block d" _ _ "\<lambda>s. servers_of (snd s)"] upstream_step_servers
  by (force simp: add_upstream_def convertUpstream_def split: prod.splits if_splits sum.splits)

lemma upstream_pass_servers: "upstream_pass d s = Inr s' \<Longrightarrow> servers_of (snd s') = servers_of (snd s)"
  using gfold_inv [of add_upstream "d_Block d" s s' "\<lambda>s. servers_of (snd s)"] add_upstream_servers
  by (auto simp: upstream_pass_def split: if_splits)

lemma mapVariable_servers [simp]: "servers_of (snd (mapVariable v r d)) = servers_of r"
  by (simp add: mapVariable_def)

lemma proxy_directive_servers: "proxy_directive ups d s = Inr s' \<Longrightarrow> servers_of (snd s') = servers_of (snd s)"
  by (cases s) (auto simp: proxy_directive_def set_header_def Let_def split_beta split: if_splits sum.splits)

lemma convertLocation_servers: "convertLocation class sv ups r = Inr (sv', r') \<Longrightarrow> servers_of r' = servers_of r"
proof -
  assume c: "convertLocation class sv ups r = Inr (sv', r')"
  have px: "servers_of (snd x) = servers_of r" if "convertProxyDirectives ds px ups r = Inr x" for ds px x
    using that gfold_inv [of "proxy_directive ups" ds "(px, r)" x "\<lambda>s. servers_of (snd s)"] proxy_directive_servers
    by (auto simp: convertProxyDirectives_def)
  have st: "servers_of (snd (convertStaticDirectives ds st r)) = servers_of r" for ds st
    unfolding convertStaticDirectives_def
    by (subst fold_inv [where g = "\<lambda>s. servers_of (snd s)"]) (auto simp: static_directive_def Let_def split_beta)
  have rd: "servers_of (snd (convertRedirectDirectives ds p sv r)) = servers_of r" for ds p
    unfolding convertRedirectDirectives_def
    by (subst fold_inv [where g = "\<lambda>s. servers_of (snd s)"])
      (auto simp: redirect_directive_def Let_def split_beta split: option.split)
  have un: "servers_of (fold (\<lambda>bd. warn bd (msg bd)) ds r1) = servers_of r1" for ds msg r1
    by (rule fold_inv) simp
  show ?thesis
    using c px st rd un by (auto simp: convertLocation_def Let_def split_beta split: if_splits sum.splits; metis snd_conv)
qed

lemma classifyLocation_servers [simp]: "servers_of (snd (classifyLocation d root' r)) = servers_of r"
  by (simp add: classifyLocation_def Let_def split_beta)

lemma parseServerReturn_servers [simp]: "servers_of (snd (parseServerReturn d sv r)) = servers_of r"
  by (simp add: parseServerReturn_def Let_def split: option.split)

lemma logs_servers [simp]:
  "servers_of (parseAccessLog d r) = servers_of r" "servers_of (parseErrorLog d r) = servers_of r"
  by (simp_all add: parseAccessLog_def parseErrorLog_def)

lemma server_directive_servers:
  assumes "server_directive ups bd s = Inr s'"
  shows "servers_of (ss_result s') = servers_of (ss_result s)"
proof (cases "d_Name bd = ''location''")
  case True
  obtain cl r1 where c: "classifyLocation bd (ss_root s) (ss_result s) = (cl, r1)" by (metis prod.exhaust)
  have r1: "servers_of r1 = servers_of (ss_result s)"
    using classifyLocation_servers [of bd "ss_root s" "ss_result s"] c by simp
  obtain sv1 r2 where l: "convertLocation cl (ss_server s) ups r1 = Inr (sv1, r2)" "s' = s\<lparr>ss_server := sv1, ss_result := r2\<rparr>"
    using assms True c by (auto simp: server_directive_def Let_def split: sum.splits)
  then show ?thesis using convertLocation_servers [OF l(1)] r1 by simp
next
  case False
  show ?thesis
  proof (cases "d_Name bd = ''return''")
    case True
    then show ?thesis using assms parseServerReturn_servers [of bd "ss_server s" "ss_result s"]
      by (auto simp: server_directive_def Let_def split_beta)
  next
    case not_return: False
    show ?thesis using assms False not_return
      by (auto simp: server_directive_def Let_def split: if_splits option.splits)
  qed
qed

lemma convertServerBlock_listens:
  assumes "convertServerBlock d ups r = Inr (svs, r')"
  shows "map sv_Listen svs = map li_Addr (listens_of d)" "servers_of r' = servers_of r"
    "\<exists>base. svs = map (\<lambda>li. server_for li base) (listens_of d)"
proof -
  obtain s where s: "gfold (server_directive ups) (d_Block d) \<lparr>ss_server = zero_ServerConfig, ss_root = [], ss_index = [], ss_result = r\<rparr> = Inr s"
      "svs = map (\<lambda>li. server_for li (inherit_root (ss_root s) (ss_index s) (ss_server s))) (listens_of d)"
      "r' = fold (ssl_warning (inherit_root (ss_root s) (ss_index s) (ss_server s))) (listens_of d) (ss_result s)"
    using assms by (auto simp: convertServerBlock_def Let_def split: sum.splits)
  have "servers_of (ss_result s) = servers_of r"
    using gfold_inv [OF s(1), of "\<lambda>s. servers_of (ss_result s)"] server_directive_servers by auto
  moreover have "servers_of (fold (ssl_warning base) ls r1) = servers_of r1" for base ls r1
    by (rule fold_inv) (simp add: ssl_warning_def)
  ultimately show "servers_of r' = servers_of r" using s(3) by simp
  show "map sv_Listen svs = map li_Addr (listens_of d)" using s(2) by (simp add: server_for_def)
  show "\<exists>base. svs = map (\<lambda>li. server_for li base) (listens_of d)" using s(2) by blast
qed

text \<open>The server blocks of a configuration: those at the top level and those inside \<open>http\<close> blocks, in order.\<close>

definition server_blocks :: "Directive list \<Rightarrow> Directive list" where
  "server_blocks ds =
     concat (map (\<lambda>d. if d_Name d = ''http'' then filter (\<lambda>bd. d_Name bd = ''server'') (d_Block d)
                      else if d_Name d = ''server'' then [d] else []) ds)"

lemma http_servers_fold:
  "fst (fold http_servers bds s) = fst s @ filter (\<lambda>bd. d_Name bd = ''server'') bds \<and>
   servers_of (snd (fold http_servers bds s)) = servers_of (snd s)"
  by (induction bds arbitrary: s) (auto simp: http_servers_def split_beta)

lemma collect_servers_fold:
  "fst (fold collect_servers ds s) = fst s @ server_blocks ds \<and> servers_of (snd (fold collect_servers ds s)) = servers_of (snd s)"
proof (induction ds arbitrary: s)
  case (Cons d ds)
  show ?case using Cons [of "collect_servers d s"] http_servers_fold [of "d_Block d" s]
    by (simp add: collect_servers_def server_blocks_def)
qed (simp add: server_blocks_def)

lemma add_servers_fold:
  "gfold (add_servers ups) bs r = Inr r' \<Longrightarrow>
     map sv_Listen (servers_of r') = map sv_Listen (servers_of r) @ concat (map (\<lambda>d. map li_Addr (listens_of d)) bs)"
proof (induction bs arbitrary: r)
  case (Cons d bs)
  obtain svs r1 where c: "convertServerBlock d ups r = Inr (svs, r1)"
      "gfold (add_servers ups) bs (r1\<lparr>cr_Config := (cr_Config r1)\<lparr>cf_Servers := servers_of r1 @ svs\<rparr>\<rparr>) = Inr r'"
    using Cons.prems by (auto simp: add_servers_def [of ups d r] split: sum.splits)
  show ?case using Cons.IH [OF c(2)] convertServerBlock_listens [OF c(1)] by simp
qed simp

text \<open>C16. A converted configuration has, for every server block at the top level or inside an \<open>http\<close> block and in their order,
  one server per \<open>listen\<close> directive, with the address of the directive (port 80 of all addresses for a block without one).\<close>

theorem nginx_convert_listens:
  assumes "nginx_Convert ds = Inr r"
  shows "map sv_Listen (cf_Servers (cr_Config r)) = concat (map (\<lambda>d. map li_Addr (listens_of d)) (server_blocks ds))"
proof -
  obtain ups r0 where u: "gfold upstream_pass ds ([], \<lparr>cr_Config = zero_Config, cr_Warnings = []\<rparr>) = Inr (ups, r0)"
      "gfold (add_servers ups) (fst (fold collect_servers ds ([], r0))) (snd (fold collect_servers ds ([], r0))) = Inr r"
    using assms by (auto simp: nginx_Convert_def split_beta split: sum.splits)
  have "servers_of r0 = []"
    using gfold_inv [OF u(1), of "\<lambda>s. servers_of (snd s)"] upstream_pass_servers by (simp add: zero_Config_def)
  then show ?thesis using add_servers_fold [OF u(2)] collect_servers_fold [of ds "([], r0)"] by simp
qed

definition demo_site :: "Directive list" where
  "demo_site =
    [Directive ''http'' []
       [Directive ''upstream'' [''app''] [Directive ''server'' [''10.0.0.1:80'', ''weight=3''] [] 2 [], Directive ''least_conn'' [] [] 3 []] 1 [],
        Directive ''server'' []
          [Directive ''listen'' [''80''] [] 5 [], Directive ''listen'' [''443'', ''ssl''] [] 6 [],
           Directive ''location'' [''='', ''/api''] [Directive ''proxy_pass'' [''http://app''] [] 8 []] 7 []] 4 []] 0 []]"

theorem nginx_convert_listens_witness:
  "\<exists>r. nginx_Convert demo_site = Inr r \<and> map sv_Listen (cf_Servers (cr_Config r)) = ['':80'', '':443'']"
proof -
  have "\<not> isl (nginx_Convert demo_site)" by code_simp
  then obtain r where r: "nginx_Convert demo_site = Inr r" by (cases "nginx_Convert demo_site") simp_all
  have "concat (map (\<lambda>d. map li_Addr (listens_of d)) (server_blocks demo_site)) = ['':80'', '':443'']" by code_simp
  then show ?thesis using nginx_convert_listens [OF r] r by simp
qed

section \<open>Panics\<close>

text \<open>What makes the conversion panic: in an upstream, at the top level or in \<open>http\<close>, a \<open>server\<close> without an address, or
  one whose \<open>fail_timeout\<close> is white space only; in a location with a \<open>proxy_pass\<close>, a time-out or the duration of
  \<open>proxy_cache_valid\<close> that is white space only.\<close>

definition blank :: "string \<Rightarrow> bool" where
  "blank a \<longleftrightarrow> a \<noteq> [] \<and> TrimSpace a = []"

definition bad_upstream_server :: "Directive \<Rightarrow> bool" where
  "bad_upstream_server b \<longleftrightarrow> d_Name b = ''server'' \<and>
     (d_Args b = [] \<or> list_ex (\<lambda>a. HasPrefix a ''fail_timeout='' \<and> blank (TrimPrefix a ''fail_timeout='')) (tl (d_Args b)))"

definition bad_upstream :: "Directive \<Rightarrow> bool" where
  "bad_upstream d \<longleftrightarrow> d_Name d = ''upstream'' \<and> list_ex bad_upstream_server (d_Block d)"

definition bad_duration :: "Directive \<Rightarrow> bool" where
  "bad_duration b \<longleftrightarrow>
     d_Name b \<in> {''proxy_connect_timeout'', ''proxy_read_timeout'', ''proxy_send_timeout''} \<and> d_Args b \<noteq> [] \<and> blank (hd (d_Args b))
     \<or> d_Name b = ''proxy_cache_valid'' \<and> length (d_Args b) \<ge> 2 \<and> blank (last (d_Args b))"

definition bad_location :: "Directive \<Rightarrow> bool" where
  "bad_location d \<longleftrightarrow> d_Name d = ''location'' \<and> list_ex (\<lambda>b. d_Name b = ''proxy_pass'') (d_Block d) \<and> list_ex bad_duration (d_Block d)"

definition panicking :: "Directive list \<Rightarrow> bool" where
  "panicking ds \<longleftrightarrow> list_ex (\<lambda>d. if d_Name d = ''http'' then list_ex bad_upstream (d_Block d) else bad_upstream d) ds
     \<or> list_ex (\<lambda>sv. list_ex bad_location (d_Block sv)) (server_blocks ds)"

lemma gfold_isl: "(\<And>x s. isl (f x s) \<longleftrightarrow> P x) \<Longrightarrow> isl (gfold f xs s) \<longleftrightarrow> list_ex P xs"
proof (induction xs arbitrary: s)
  case (Cons x xs)
  then show ?case using Cons.prems [where x = x and s = s] by (cases "f x s") auto
qed simp

lemma trims_not_number: "trims c \<Longrightarrow> \<not> num_char c \<and> c \<noteq> CHR ''-'' \<and> c \<noteq> CHR ''+''"
  by (auto simp: trims_def num_char_def is_digit_def is_space_def)

lemma blank_not_duration: "blank a \<Longrightarrow> ParseDuration a = None"
proof -
  assume "blank a"
  then obtain c t where a: "a = c # t" "trims c" using TrimSpace_removes [of a] by (cases a) (auto simp: blank_def)
  note c = trims_not_number [OF a(2)]
  have "dur_item a = None" using a(1) c by (auto simp: dur_item_def num_char_def HasPrefix_def Let_def)
  then show ?thesis using a(1) c by (auto simp: ParseDuration_def HasPrefix_def dur_loop.simps num_char_def is_digit_def Let_def)
qed

lemma parseDuration_isl: "isl (parseDuration a) \<longleftrightarrow> blank a"
  using blank_not_duration [of a] by (cases "a = []") (auto simp: parseDuration_def blank_def Let_def split: option.split)

lemma target_arg_isl: "isl (target_arg a t) \<longleftrightarrow> HasPrefix a ''fail_timeout='' \<and> blank (TrimPrefix a ''fail_timeout='')"
proof -
  have "\<not> HasPrefix a ''weight=''" "\<not> HasPrefix a ''max_fails=''" if "HasPrefix a ''fail_timeout=''"
    using that by (cases a; simp add: HasPrefix_def)+
  then show ?thesis
    using parseDuration_isl [of "TrimPrefix a ''fail_timeout=''"] by (auto simp: target_arg_def split: sum.split)
qed

lemma convertUpstreamServer_isl:
  "isl (convertUpstreamServer d) \<longleftrightarrow>
     d_Args d = [] \<or> list_ex (\<lambda>a. HasPrefix a ''fail_timeout='' \<and> blank (TrimPrefix a ''fail_timeout='')) (tl (d_Args d))"
  by (simp add: convertUpstreamServer_def gfold_isl [where f = target_arg, OF target_arg_isl] split: list.split)

lemma upstream_step_isl: "isl (upstream_step b s) \<longleftrightarrow> bad_upstream_server b"
  using convertUpstreamServer_isl [of b]
  by (cases s; cases "convertUpstreamServer b") (simp_all add: upstream_step_def bad_upstream_server_def Let_def)

lemma add_upstream_isl: "isl (add_upstream d s) \<longleftrightarrow> bad_upstream d"
  using gfold_isl [where f = upstream_step, OF upstream_step_isl, where xs = "d_Block d" and s = "(\<lparr>ui_Targets = [], ui_LoadBalance = []\<rparr>, snd s)"]
  by (cases s; cases "convertUpstream d (snd s)") (auto simp: add_upstream_def bad_upstream_def convertUpstream_def)

lemma upstream_pass_isl:
  "isl (upstream_pass d s) \<longleftrightarrow> (if d_Name d = ''http'' then list_ex bad_upstream (d_Block d) else bad_upstream d)"
  by (simp add: upstream_pass_def gfold_isl [where f = add_upstream, OF add_upstream_isl] add_upstream_isl)

lemma set_timeout_isl: "isl (set_timeout upd d px) \<longleftrightarrow> d_Args d \<noteq> [] \<and> blank (hd (d_Args d))"
  using parseDuration_isl [of "hd (d_Args d)"] by (auto simp: set_timeout_def hd_conv_nth split: sum.split)

lemma parseProxyCacheValid_isl: "isl (parseProxyCacheValid d px) \<longleftrightarrow> length (d_Args d) \<ge> 2 \<and> blank (last (d_Args d))"
  using parseDuration_isl [of "last (d_Args d)"] by (auto simp: parseProxyCacheValid_def Let_def split: sum.split)

lemma isl_keep: "isl (case x of Inl e \<Rightarrow> Inl e | Inr y \<Rightarrow> Inr (f y)) = isl x"
  by (simp split: sum.split)

lemma proxy_directive_isl: "isl (proxy_directive ups d s) \<longleftrightarrow> bad_duration d"
  by (cases s) (simp add: proxy_directive_def Let_def isl_keep set_timeout_isl parseProxyCacheValid_isl bad_duration_def)

lemma classifyLocation_proxy:
  "lc_LocType (fst (classifyLocation d dir r)) = ''proxy'' \<longleftrightarrow> list_ex (\<lambda>b. d_Name b = ''proxy_pass'') (d_Block d)"
proof -
  have "list_ex (\<lambda>b. d_Name b = ''proxy_pass'') (d_Block d) \<longleftrightarrow> ''proxy_pass'' \<in> set (map d_Name (d_Block d))"
    by (simp add: list_ex_iff image_iff eq_commute [of "''proxy_pass''"])
  then show ?thesis by (simp add: classifyLocation_def Let_def split_beta)
qed

lemma classifyLocation_directives: "lc_Directives (fst (classifyLocation d root' r)) = d_Block d"
  by (simp add: classifyLocation_def Let_def split_beta)

lemma convertLocation_isl: "isl (convertLocation class sv ups r) \<longleftrightarrow> lc_LocType class = ''proxy'' \<and> list_ex bad_duration (lc_Directives class)"
proof -
  have "isl (case convertProxyDirectives (lc_Directives class) px ups r of Inl e \<Rightarrow> Inl e
     | Inr (px, r1) \<Rightarrow> Inr (sv\<lparr>sv_Proxy := sv_Proxy sv @ [px]\<rparr>, r1)) \<longleftrightarrow> list_ex bad_duration (lc_Directives class)" for px
    using gfold_isl [where f = "proxy_directive ups", OF proxy_directive_isl, where xs = "lc_Directives class" and s = "(px, r)"]
    by (auto simp: convertProxyDirectives_def split: sum.split)
  then show ?thesis by (simp add: convertLocation_def Let_def split_beta)
qed

lemma server_directive_isl: "isl (server_directive ups bd s) \<longleftrightarrow> bad_location bd"
proof (cases "d_Name bd = ''location''")
  case True
  have "isl (case convertLocation cl (ss_server s) ups r1 of Inl e \<Rightarrow> Inl e | Inr (sv1, r2) \<Rightarrow> Inr (s\<lparr>ss_server := sv1, ss_result := r2\<rparr>))
      = isl (convertLocation cl (ss_server s) ups r1)" for cl r1
    by (auto split: sum.split)
  then show ?thesis
    using True convertLocation_isl classifyLocation_proxy [of bd] classifyLocation_directives [of bd]
    by (simp add: server_directive_def Let_def split_beta bad_location_def)
next
  case False
  then show ?thesis by (simp add: server_directive_def Let_def split_beta bad_location_def split: option.split)
qed

lemma add_servers_isl: "isl (add_servers ups b r) \<longleftrightarrow> list_ex bad_location (d_Block b)"
  using gfold_isl [where f = "server_directive ups", OF server_directive_isl, where xs = "d_Block b"
      and s = "\<lparr>ss_server = zero_ServerConfig, ss_root = [], ss_index = [], ss_result = r\<rparr>"]
  by (auto simp: add_servers_def convertServerBlock_def Let_def split: sum.split)

text \<open>C17. The conversion panics exactly when an upstream block (at the top level or in \<open>http\<close>) has a \<open>server\<close> without an
  address or with a \<open>fail_timeout\<close> of white space, or a location with a \<open>proxy_pass\<close> has one of the three time-outs or a
  \<open>proxy_cache_valid\<close> whose duration is white space, Unicode's included; for every other file it returns a configuration.\<close>

theorem nginx_convert_returns: "(\<exists>r. nginx_Convert ds = Inr r) \<longleftrightarrow> \<not> panicking ds"
proof -
  let ?up = "gfold upstream_pass ds ([], \<lparr>cr_Config = zero_Config, cr_Warnings = []\<rparr>)"
  have up: "isl ?up \<longleftrightarrow> list_ex (\<lambda>d. if d_Name d = ''http'' then list_ex bad_upstream (d_Block d) else bad_upstream d) ds"
    by (rule gfold_isl [where f = upstream_pass, OF upstream_pass_isl])
  have "isl (nginx_Convert ds) \<longleftrightarrow> panicking ds"
  proof (cases ?up)
    case (Inl e)
    then show ?thesis using up by (simp add: nginx_Convert_def panicking_def)
  next
    case (Inr s)
    then show ?thesis using up collect_servers_fold [of ds "([], snd s)"]
      by (simp add: nginx_Convert_def panicking_def split_beta gfold_isl [where f = "add_servers (fst s)", OF add_servers_isl])
  qed
  then show ?thesis by (cases "nginx_Convert ds") auto
qed

text \<open>Both causes occur.\<close>

lemma nginx_convert_panics:
  "nginx_Convert [Directive ''upstream'' [''app''] [Directive ''server'' [] [] 2 []] 1 []] = Inl IndexOutOfRange"
  "parseDuration '' '' = Inl IndexOutOfRange" "parseDuration [CHR 0xC2, CHR 0xA0] = Inl IndexOutOfRange"
  by code_simp+

section \<open>Locations\<close>

text \<open>What a server has of its locations: the entries, the rewrite rules and the warnings.\<close>

definition traces :: "ServerConfig \<Rightarrow> ConvertResult \<Rightarrow> nat" where
  "traces sv r = length (sv_Proxy sv) + length (sv_Static sv) + length (sv_Rewrite sv) + length (cr_Warnings r)"

lemma warn_length [simp]:
  "length (cr_Warnings (warn d msg r)) = Suc (length (cr_Warnings r))"
  "length (cr_Warnings (warn_bare n msg r)) = Suc (length (cr_Warnings r))"
  by (simp_all add: warn_def warn_bare_def)

lemma warn_unsupported_length: "length (cr_Warnings r) \<le> length (cr_Warnings (warn_unsupported d r))"
  by (simp add: warn_unsupported_def split: option.split)

lemma gfold_mono:
  assumes "gfold f xs s = Inr s'" and "\<And>x s s'. f x s = Inr s' \<Longrightarrow> (g s :: nat) \<le> g s'"
  shows "g s \<le> g s'"
  using assms(1)
proof (induction xs arbitrary: s)
  case (Cons x xs)
  obtain s1 where s1: "f x s = Inr s1" "gfold f xs s1 = Inr s'" using Cons.prems by (auto split: sum.splits)
  show ?case using Cons.IH [OF s1(2)] assms(2) [OF s1(1)] by simp
qed simp

lemma fold_mono: "(\<And>x s. (g s :: nat) \<le> g (f x s)) \<Longrightarrow> g s \<le> g (fold f xs s)"
proof (induction xs arbitrary: s)
  case (Cons x xs)
  show ?case using Cons.IH [OF Cons.prems, of "f x s"] Cons.prems [of s x] by simp
qed simp

lemma proxy_directive_warns:
  "proxy_directive ups d s = Inr s' \<Longrightarrow> length (cr_Warnings (snd s)) \<le> length (cr_Warnings (snd s'))"
  using warn_unsupported_length
  by (cases s) (auto simp: proxy_directive_def set_header_def mapVariable_def Let_def split_beta split: if_splits sum.splits)

lemma static_directive_warns: "length (cr_Warnings (snd s)) \<le> length (cr_Warnings (snd (static_directive d s)))"
  using warn_unsupported_length by (simp add: static_directive_def Let_def split_beta)

text \<open>A redirect location keeps a trace when one of its \<open>return\<close> directives has a code and a target.\<close>

definition effective_return :: "Directive \<Rightarrow> bool" where
  "effective_return d \<longleftrightarrow> d_Name d = ''return'' \<and> length (d_Args d) \<ge> 2 \<and> Atoi (d_Args d ! 0) \<noteq> None"

definition redirect_traces :: "ServerConfig \<times> ConvertResult \<Rightarrow> nat" where
  "redirect_traces s = length (sv_Rewrite (fst s)) + length (cr_Warnings (snd s))"

lemma redirect_directive_traces:
  "redirect_traces s + (if effective_return d then 1 else 0) \<le> redirect_traces (redirect_directive p d s)"
  by (auto simp: redirect_traces_def redirect_directive_def effective_return_def add_rewrite_def Let_def split_beta split: option.split)

lemma redirect_fold_traces:
  "redirect_traces s + (if list_ex effective_return ds then 1 else 0) \<le> redirect_traces (fold (redirect_directive p) ds s)"
proof (induction ds arbitrary: s)
  case (Cons d ds)
  show ?case using redirect_directive_traces [of s d p] Cons [of "redirect_directive p d s"] by (auto split: if_splits)
qed simp

lemma redirect_directive_frame:
  "sv_Proxy (fst (redirect_directive p d s)) = sv_Proxy (fst s)" "sv_Static (fst (redirect_directive p d s)) = sv_Static (fst s)"
  by (simp_all add: redirect_directive_def add_rewrite_def Let_def split_beta split: option.split)

lemma redirect_fold_frame:
  "sv_Proxy (fst (fold (redirect_directive p) ds s)) = sv_Proxy (fst s)"
  "sv_Static (fst (fold (redirect_directive p) ds s)) = sv_Static (fst s)"
  by (rule fold_inv, simp add: redirect_directive_frame)+

lemma convertLocation_traces:
  assumes c: "convertLocation class sv ups r = Inr (sv', r')"
    and t: "lc_LocType class \<in> {''proxy'', ''static'', ''unsupported''} \<or>
      lc_LocType class = ''redirect'' \<and> list_ex effective_return (lc_Directives class)"
  shows "traces sv r < traces sv' r'"
proof -
  consider "lc_LocType class = ''proxy''" | "lc_LocType class = ''static''" | "lc_LocType class = ''unsupported''"
    | "lc_LocType class = ''redirect''" "list_ex effective_return (lc_Directives class)" using t by auto
  then show ?thesis
  proof cases
    case 1
    then obtain px0 px where p: "gfold (proxy_directive ups) (lc_Directives class) (px0, r) = Inr (px, r')" "sv' = sv\<lparr>sv_Proxy := sv_Proxy sv @ [px]\<rparr>"
      using c by (auto simp: convertLocation_def convertProxyDirectives_def split: sum.splits)
    show ?thesis using gfold_mono [OF p(1), of "\<lambda>s. length (cr_Warnings (snd s))"] proxy_directive_warns p(2) by (simp add: traces_def)
  next
    case 2
    then obtain st0 st where p: "fold static_directive (lc_Directives class) (st0, r) = (st, r')" "sv' = sv\<lparr>sv_Static := sv_Static sv @ [st]\<rparr>"
      using c by (auto simp: convertLocation_def convertStaticDirectives_def split: prod.splits)
    have "length (cr_Warnings r) \<le> length (cr_Warnings r')"
      using fold_mono [of "\<lambda>s. length (cr_Warnings (snd s))" static_directive "(st0, r)" "lc_Directives class"] static_directive_warns p(1) by simp
    then show ?thesis using p(2) by (simp add: traces_def)
  next
    case 3
    have w: "length (cr_Warnings (fold (\<lambda>bd. warn bd (msg bd)) ds r0)) = length (cr_Warnings r0) + length ds" for msg ds r0
      by (induction ds arbitrary: r0) simp_all
    show ?thesis using 3 c by (cases "lc_Directives class") (auto simp: convertLocation_def w traces_def)
  next
    case 4
    then have "(sv', r') = fold (redirect_directive (lc_Path class)) (lc_Directives class) (sv, r)"
      using c by (simp add: convertLocation_def convertRedirectDirectives_def)
    then show ?thesis
      using redirect_fold_traces [of "(sv, r)" "lc_Directives class" "lc_Path class"] 4
        redirect_fold_frame [of "lc_Path class" "lc_Directives class" "(sv, r)"]
      by (simp add: traces_def redirect_traces_def prod_eq_iff)
  qed
qed

lemma classifyLocation_type:
  assumes "list_all (\<lambda>b. d_Name b = ''return'' \<and> is_redirect_code b \<longrightarrow> length (d_Args b) \<ge> 2) (d_Block d)"
  shows "lc_LocType (fst (classifyLocation d dir r)) \<in> {''proxy'', ''static'', ''unsupported''} \<or>
    lc_LocType (fst (classifyLocation d dir r)) = ''redirect'' \<and> list_ex effective_return (d_Block d)"
  using assms
  by (auto simp: classifyLocation_def Let_def split_beta list_ex_iff list_all_iff effective_return_def is_redirect_code_def)

lemma classifyLocation_warns: "length (cr_Warnings r) \<le> length (cr_Warnings (snd (classifyLocation d dir r)))"
  by (simp add: classifyLocation_def Let_def split_beta)

text \<open>C37. No location is dropped without a trace: converting one adds a proxy entry, a static entry, a rewrite rule or a
  warning, provided every redirecting \<open>return\<close> in it names its target.\<close>

theorem nginx_location_accounted:
  assumes "server_directive ups bd s = Inr s'" "d_Name bd = ''location''"
    and "list_all (\<lambda>b. d_Name b = ''return'' \<and> is_redirect_code b \<longrightarrow> length (d_Args b) \<ge> 2) (d_Block bd)"
  shows "traces (ss_server s) (ss_result s) < traces (ss_server s') (ss_result s')"
proof -
  obtain cl r1 where c: "classifyLocation bd (ss_root s) (ss_result s) = (cl, r1)" by (metis prod.exhaust)
  obtain sv1 r2 where l: "convertLocation cl (ss_server s) ups r1 = Inr (sv1, r2)" "s' = s\<lparr>ss_server := sv1, ss_result := r2\<rparr>"
    using assms(1,2) c by (auto simp: server_directive_def Let_def split: sum.splits)
  have "traces (ss_server s) r1 < traces sv1 r2"
    using convertLocation_traces [OF l(1)] classifyLocation_type [OF assms(3), of "ss_root s" "ss_result s"]
      classifyLocation_directives [of bd "ss_root s" "ss_result s"] c by simp
  then show ?thesis using l(2) classifyLocation_warns [of "ss_result s" bd "ss_root s"] c by (simp add: traces_def)
qed

theorem nginx_location_accounted_witness:
  "\<exists>s'. server_directive [] (Directive ''location'' [''/old''] [Directive ''return'' [''301'', ''/new''] [] 2 []] 1 [])
      \<lparr>ss_server = zero_ServerConfig, ss_root = [], ss_index = [], ss_result = \<lparr>cr_Config = zero_Config, cr_Warnings = []\<rparr>\<rparr> = Inr s' \<and>
     0 < traces (ss_server s') (ss_result s')"
proof -
  let ?d = "Directive ''location'' [''/old''] [Directive ''return'' [''301'', ''/new''] [] 2 []] 1 []"
  let ?s = "\<lparr>ss_server = zero_ServerConfig, ss_root = [], ss_index = [], ss_result = \<lparr>cr_Config = zero_Config, cr_Warnings = []\<rparr>\<rparr>"
  have "\<not> isl (server_directive [] ?d ?s)" by code_simp
  then obtain s' where s': "server_directive [] ?d ?s = Inr s'" by (cases "server_directive [] ?d ?s") simp_all
  have "d_Name ?d = ''location''" by simp
  moreover have "list_all (\<lambda>b. d_Name b = ''return'' \<and> is_redirect_code b \<longrightarrow> length (d_Args b) \<ge> 2) (d_Block ?d)" by simp
  ultimately have "traces (ss_server ?s) (ss_result ?s) < traces (ss_server s') (ss_result s')"
    by (rule nginx_location_accounted [OF s'])
  then show ?thesis using s' by auto
qed

end
