(* ===== verification/Middleware.thy ===== *)
theory Middleware
  imports Complex_Main Validate SharedDict
begin

text \<open>
  The middleware chain of \<^verbatim>\<open>internal/middleware/middleware.go\<close> and the middlewares that keep no state between
  requests: \<^verbatim>\<open>requestid.go\<close>, \<^verbatim>\<open>bodylimit.go\<close>, \<^verbatim>\<open>rewrite.go\<close>, \<^verbatim>\<open>cors.go\<close>, \<^verbatim>\<open>errorintercept.go\<close> with
  \<^verbatim>\<open>internal/handler/errorpage.go\<close>, and \<^verbatim>\<open>security/headers.go\<close>. A handler maps the exchange, that is the request, the
  response so far and the user values, to the exchange after it; a middleware maps handlers to handlers.

  What fasthttp does on \<open>ctx.Error\<close>, \<open>SetRequestURI\<close> and \<open>ctx.Redirect\<close> is the parameter \<open>fh\<close>. The contract of a
  middleware, one decision before and one change after the next handler, is the locale \<open>wrapper\<close>.
\<close>

section \<open>Exchanges and chains\<close>

record exchange =
  x_request :: request
  x_response :: response
  x_contentLength :: int

type_synonym handler = "exchange \<Rightarrow> exchange"
type_synonym middleware = "handler \<Rightarrow> handler"

record fh =
  fh_Error :: "string \<Rightarrow> int \<Rightarrow> response \<Rightarrow> response"
  fh_SetRequestURI :: "string \<Rightarrow> request \<Rightarrow> request"
  fh_Redirect :: "string \<Rightarrow> int \<Rightarrow> request \<Rightarrow> response \<Rightarrow> response"

definition ctx_Error :: "fh \<Rightarrow> string \<Rightarrow> int \<Rightarrow> exchange \<Rightarrow> exchange" where
  "ctx_Error f msg code x = x\<lparr>x_response := fh_Error f msg code (x_response x)\<rparr>"

definition set_resp_header :: "string \<Rightarrow> string \<Rightarrow> exchange \<Rightarrow> exchange" where
  "set_resp_header n v x = x\<lparr>x_response := (x_response x)\<lparr>rs_Headers := hdr_Set n v (rs_Headers (x_response x))\<rparr>\<rparr>"

definition set_user :: "string \<Rightarrow> string \<Rightarrow> exchange \<Rightarrow> exchange" where
  "set_user n v x = x\<lparr>x_request := (x_request x)\<lparr>hr_User := (hr_User (x_request x))(n \<mapsto> UStr v)\<rparr>\<rparr>"

definition Chain_Apply :: "middleware list \<Rightarrow> handler \<Rightarrow> handler" where
  "Chain_Apply ms final = foldl (\<lambda>h m. m h) final (rev ms)"

section \<open>Request identifiers\<close>

text \<open>\<open>uuid\<close> is the fresh identifier the library draws for this request.\<close>

definition RequestID_Process :: "string \<Rightarrow> middleware" where
  "RequestID_Process uuid next x =
     (let trimmed = TrimSpace (hdr_Peek (hr_Headers (x_request x)) ''X-Request-ID'');
          rid = (if trimmed = [] then uuid else trimmed)
      in next (set_resp_header ''X-Request-ID'' rid (set_user ''request_id'' rid x)))"

definition GetRequestID :: "exchange \<Rightarrow> string" where
  "GetRequestID x = (case hr_User (x_request x) ''request_id'' of Some (UStr s) \<Rightarrow> s | _ \<Rightarrow> [])"

section \<open>Body limits\<close>

record BodyLimit =
  bl_pathLimits :: "(string \<times> int) list"
  bl_maxBodySize :: int

definition DefaultMaxBodySize :: int where
  "DefaultMaxBodySize = 1048576"

text \<open>\<open>strconv.ParseFloat\<close> on digits and points, exactly.\<close>

definition parse_decimal :: "string \<Rightarrow> rat option" where
  "parse_decimal s =
     (let whole = takeWhile is_digit s; rest = dropWhile is_digit s
      in if rest = [] then (if whole = [] then None else Some (of_nat (digits_val whole)))
         else let frac = tl rest
              in if hd rest = CHR ''.'' \<and> list_all is_digit frac \<and> (whole \<noteq> [] \<or> frac \<noteq> []) then
                   Some (of_nat (digits_val whole) + of_nat (digits_val frac) / 10 ^ length frac)
                 else None)"

definition size_unit :: "string \<Rightarrow> int option" where
  "size_unit u =
     (if u = [] \<or> u = ''b'' then Some 1
      else if u = ''kb'' then Some 1024
      else if u = ''mb'' then Some 1048576
      else if u = ''gb'' then Some 1073741824
      else None)"

definition ParseSize :: "string \<Rightarrow> int option" where
  "ParseSize s0 =
     (if s0 = [] then Some DefaultMaxBodySize
      else
        let s = TrimSpace (ToLower s0);
            num = (\<lambda>c. is_digit c \<or> c = CHR ''.'');
            numStr = takeWhile num s
        in if numStr = [] then None
           else case parse_decimal numStr of
                  None \<Rightarrow> None
                | Some v \<Rightarrow> (case size_unit (dropWhile num s) of None \<Rightarrow> None | Some m \<Rightarrow> Some \<lfloor>v * of_int m\<rfloor>))"

definition BodyLimit_New :: "string \<Rightarrow> BodyLimit option" where
  "BodyLimit_New s = (case ParseSize s of None \<Rightarrow> None | Some n \<Rightarrow> Some \<lparr>bl_pathLimits = [], bl_maxBodySize = n\<rparr>)"

definition NewWithDefault :: BodyLimit where
  "NewWithDefault = \<lparr>bl_pathLimits = [], bl_maxBodySize = DefaultMaxBodySize\<rparr>"

definition AddPathLimit :: "string \<Rightarrow> string \<Rightarrow> BodyLimit \<Rightarrow> BodyLimit option" where
  "AddPathLimit path s bl =
     (case ParseSize s of None \<Rightarrow> None | Some n \<Rightarrow> Some (bl\<lparr>bl_pathLimits := AList.update path n (bl_pathLimits bl)\<rparr>))"

text \<open>The loop over the map, in the order of its entries: the best match so far and its limit.\<close>

fun limit_loop :: "string \<Rightarrow> (string \<times> int) list \<Rightarrow> (string \<times> int) option \<Rightarrow> (string \<times> int) option" where
  "limit_loop path [] best = best"
| "limit_loop path ((p, n) # ls) best =
     limit_loop path ls
       (if HasPrefix path p \<and> (case best of None \<Rightarrow> True | Some (q, _) \<Rightarrow> length p > length q) then Some (p, n) else best)"

definition GetLimit :: "string \<Rightarrow> BodyLimit \<Rightarrow> int" where
  "GetLimit path bl = (case limit_loop path (bl_pathLimits bl) None of Some (_, n) \<Rightarrow> n | None \<Rightarrow> bl_maxBodySize bl)"

text \<open>The check of the announced length; a body that comes as a stream is wrapped in the reader below.\<close>

definition BodyLimit_Process :: "fh \<Rightarrow> BodyLimit \<Rightarrow> middleware" where
  "BodyLimit_Process f bl next x =
     (let lmt = GetLimit (hr_Path (x_request x)) bl
      in if x_contentLength x > 0 \<and> x_contentLength x > lmt then ctx_Error f ''Request Entity Too Large'' 413 x else next x)"

record limitedBodyReader =
  lr_limit :: int
  lr_read :: int
  lr_done :: bool

text \<open>One \<open>Read\<close> into a buffer of \<open>plen\<close> bytes: the error, or the number of bytes the original reader \<open>original\<close>
  gives for the shortened buffer. The flag says that the 413 answer has been written.\<close>

definition limited_Read :: "(int \<Rightarrow> int) \<Rightarrow> int \<Rightarrow> limitedBodyReader \<Rightarrow> (bool + int) \<times> limitedBodyReader" where
  "limited_Read original plen l =
     (if lr_done l then (Inl False, l)
      else
        let remaining = lr_limit l - lr_read l
        in if remaining \<le> 0 then (Inl True, l\<lparr>lr_done := True\<rparr>)
           else let n = original (min plen remaining) in (Inr n, l\<lparr>lr_read := lr_read l + n\<rparr>))"

section \<open>Rewriting\<close>

definition MaxRewriteIterations :: nat where
  "MaxRewriteIterations = 10"

datatype rewrite_flag = FlagLast | FlagRedirect | FlagPermanent | FlagBreak

definition parseFlag :: "string \<Rightarrow> rewrite_flag" where
  "parseFlag s0 =
     (let s = ToLower s0
      in if s = ''redirect'' then FlagRedirect
         else if s = ''permanent'' then FlagPermanent
         else if s = ''break'' then FlagBreak
         else FlagLast)"

record rewrite_rule =
  rule_pattern :: string
  rule_replacement :: string
  rule_flag :: rewrite_flag

definition dangerousPatterns :: "string list" where
  "dangerousPatterns =
    [CHR ''('' # CHR 0x5C # ''w+)+'', CHR ''('' # CHR 0x5C # ''d+)+'', ''(a+)+'', ''(.+)+'',
     CHR ''('' # CHR 0x5C # ''w*)*'', CHR ''('' # CHR 0x5C # ''d*)*'', ''(a*)*'', ''(.*)*'',
     CHR ''('' # CHR 0x5C # ''w+)?+'', CHR ''('' # CHR 0x5C # ''d+)?+'']"

definition validateRegexSafety :: "string \<Rightarrow> bool" where
  "validateRegexSafety p \<longleftrightarrow> length p \<le> 1000 \<and> \<not> list_ex (Contains p) dangerousPatterns"

fun Rewrite_New :: "rx \<Rightarrow> RewriteRule list \<Rightarrow> rewrite_rule list option" where
  "Rewrite_New rg [] = Some []"
| "Rewrite_New rg (r # rs) =
     (if \<not> validateRegexSafety (rwr_Pattern r) \<or> \<not> re_compile rg (rwr_Pattern r) then None
      else map_option (Cons \<lparr>rule_pattern = rwr_Pattern r, rule_replacement = rwr_Replacement r, rule_flag = parseFlag (rwr_Flag r)\<rparr>)
             (Rewrite_New rg rs))"

text \<open>\<open>ReplaceAllString\<close> of the \<open>regexp\<close> package and the expansion of variables against the current request are
  parameters: \<open>subst path rule\<close> is the path with the rule's replacement, \<open>expand\<close> the template expansion.\<close>

record rw_env =
  rw_match :: "string \<Rightarrow> string \<Rightarrow> bool"
  rw_replace :: "string \<Rightarrow> string \<Rightarrow> string \<Rightarrow> string"
  rw_expand :: "exchange \<Rightarrow> string \<Rightarrow> string"

definition set_uri :: "fh \<Rightarrow> string \<Rightarrow> exchange \<Rightarrow> exchange" where
  "set_uri f uri x = x\<lparr>x_request := fh_SetRequestURI f uri (x_request x)\<rparr>"

definition redirect_to :: "fh \<Rightarrow> string \<Rightarrow> int \<Rightarrow> exchange \<Rightarrow> exchange" where
  "redirect_to f uri code x = x\<lparr>x_response := fh_Redirect f uri code (x_request x) (x_response x)\<rparr>"

text \<open>The loop: the answer, or the exchange and path the next handler gets.\<close>

function rewrite_loop ::
  "fh \<Rightarrow> rw_env \<Rightarrow> rewrite_rule list \<Rightarrow> nat \<Rightarrow> nat \<Rightarrow> string \<Rightarrow> exchange \<Rightarrow> exchange + (exchange \<times> string option)" where
  "rewrite_loop f e rules iterationCount ruleIndex path x =
     (if ruleIndex < length rules then
        (if iterationCount \<ge> MaxRewriteIterations then Inl (ctx_Error f ''Internal Server Error'' 500 x)
         else
           let rule = rules ! ruleIndex
           in if rw_match e (rule_pattern rule) path then
                let newPath = rw_expand e x (rw_replace e (rule_pattern rule) path (rule_replacement rule))
                in case rule_flag rule of
                     FlagRedirect \<Rightarrow> Inl (redirect_to f newPath 302 x)
                   | FlagPermanent \<Rightarrow> Inl (redirect_to f newPath 301 x)
                   | FlagBreak \<Rightarrow> Inr (set_uri f newPath x, None)
                   | FlagLast \<Rightarrow> rewrite_loop f e rules (iterationCount + 1) 0 newPath (set_uri f newPath x)
              else rewrite_loop f e rules iterationCount (ruleIndex + 1) path x)
      else Inr (x, Some path))"
  by pat_completeness auto
termination
  by (relation "(\<lambda>(f, e, rules, i, k, p, x). MaxRewriteIterations - i) <*mlex*>
      measure (\<lambda>(f, e, rules, i, k, p, x). length rules - k)")
    (auto intro: wf_mlex mlex_less mlex_leq simp: MaxRewriteIterations_def)

declare rewrite_loop.simps [simp del]

definition Rewrite_Process :: "fh \<Rightarrow> rw_env \<Rightarrow> rewrite_rule list \<Rightarrow> middleware" where
  "Rewrite_Process f e rules next x =
     (let originalPath = hr_Path (x_request x)
      in case rewrite_loop f e rules 0 0 originalPath x of
           Inl y \<Rightarrow> y
         | Inr (y, None) \<Rightarrow> next y
         | Inr (y, Some path) \<Rightarrow> next (if path \<noteq> originalPath then set_uri f path y else y))"

section \<open>Cross-origin requests\<close>

record CORSMiddleware =
  cors_cfg :: "CORSConfig option"
  cors_wildcard :: bool
  cors_originSet :: "string list"
  cors_methodsVal :: string
  cors_headersVal :: string
  cors_exposeVal :: string
  cors_maxAgeVal :: string

fun joinStrings :: "string list \<Rightarrow> string" where
  "joinStrings [] = []"
| "joinStrings [s] = s"
| "joinStrings (s # ss) = s @ '','' @ joinStrings ss"

definition CORS_New :: "CORSConfig option \<Rightarrow> CORSMiddleware" where
  "CORS_New oc =
     (let empty = \<lparr>cors_cfg = oc, cors_wildcard = False, cors_originSet = [], cors_methodsVal = [], cors_headersVal = [],
                   cors_exposeVal = [], cors_maxAgeVal = []\<rparr>
      in case oc of
           None \<Rightarrow> empty
         | Some c \<Rightarrow>
             if \<not> co_Enabled c \<or> co_AllowedOrigins c = [] then empty
             else empty\<lparr>cors_wildcard := (''*'' \<in> set (co_AllowedOrigins c)),
                        cors_originSet := filter (\<lambda>org. org \<noteq> ''*'') (co_AllowedOrigins c),
                        cors_methodsVal := joinStrings (co_AllowedMethods c),
                        cors_headersVal := joinStrings (co_AllowedHeaders c),
                        cors_exposeVal := joinStrings (co_ExposeHeaders c),
                        cors_maxAgeVal := (if co_MaxAge c > 0 then intToStr (co_MaxAge c) else [])\<rparr>)"

definition matchOrigin :: "CORSMiddleware \<Rightarrow> string \<Rightarrow> bool" where
  "matchOrigin m org \<longleftrightarrow> cors_wildcard m \<or> org \<in> set (cors_originSet m)"

definition set_if :: "bool \<Rightarrow> string \<Rightarrow> string \<Rightarrow> exchange \<Rightarrow> exchange" where
  "set_if b n v x = (if b then set_resp_header n v x else x)"

definition set_status :: "int \<Rightarrow> exchange \<Rightarrow> exchange" where
  "set_status code x = x\<lparr>x_response := (x_response x)\<lparr>rs_Status := code\<rparr>\<rparr>"

definition handlePreflight :: "CORSMiddleware \<Rightarrow> CORSConfig \<Rightarrow> string \<Rightarrow> exchange \<Rightarrow> exchange" where
  "handlePreflight m c org x =
     set_status 204
       (set_if (co_AllowCredentials c) ''Access-Control-Allow-Credentials'' ''true''
         (set_if (co_MaxAge c > 0) ''Access-Control-Max-Age'' (cors_maxAgeVal m)
           (set_if (cors_headersVal m \<noteq> []) ''Access-Control-Allow-Headers'' (cors_headersVal m)
             (set_if (cors_methodsVal m \<noteq> []) ''Access-Control-Allow-Methods'' (cors_methodsVal m)
               (set_resp_header ''Access-Control-Allow-Origin'' org x)))))"

definition setActualHeaders :: "CORSMiddleware \<Rightarrow> CORSConfig \<Rightarrow> string \<Rightarrow> exchange \<Rightarrow> exchange" where
  "setActualHeaders m c org x =
     set_if (co_AllowCredentials c) ''Access-Control-Allow-Credentials'' ''true''
       (set_if (cors_exposeVal m \<noteq> []) ''Access-Control-Expose-Headers'' (cors_exposeVal m)
         (set_resp_header ''Access-Control-Allow-Origin'' org x))"

text \<open>The configuration and origin the middleware acts on, if it acts.\<close>

definition cors_applies :: "CORSMiddleware \<Rightarrow> exchange \<Rightarrow> (CORSConfig \<times> string) option" where
  "cors_applies m x =
     (let org = hdr_Peek (hr_Headers (x_request x)) ''Origin''
      in case cors_cfg m of
           Some c \<Rightarrow>
             if co_Enabled c \<and> co_AllowedOrigins c \<noteq> [] \<and> org \<noteq> [] \<and> matchOrigin m org then Some (c, org) else None
         | None \<Rightarrow> None)"

definition CORS_Process :: "CORSMiddleware \<Rightarrow> middleware" where
  "CORS_Process m next x =
     (case cors_applies m x of
        None \<Rightarrow> next x
      | Some (c, org) \<Rightarrow>
          if hr_Method (x_request x) = ''OPTIONS'' then handlePreflight m c org x
          else setActualHeaders m c org (next x))"

section \<open>Error pages\<close>

record ErrorPageManager =
  epm_pages :: "(int \<times> string) list"
  epm_defaultPage :: "string option"
  epm_responseCode :: int

datatype epm_result = EPM_Loaded ErrorPageManager | EPM_Partial ErrorPageManager | EPM_Failed

text \<open>\<open>read\<close> reads a file, \<open>None\<close> is an error.\<close>

definition NewErrorPageManager :: "(string \<Rightarrow> string option) \<Rightarrow> ErrorPageConfig \<Rightarrow> epm_result" where
  "NewErrorPageManager read cfg =
     (let loaded = List.map_filter (\<lambda>(code, path). map_option (Pair code) (read path)) (ep_Pages cfg);
          dflt = (if ep_Default cfg = [] then None else read (ep_Default cfg));
          m = \<lparr>epm_pages = loaded, epm_defaultPage = dflt, epm_responseCode = ep_ResponseCode cfg\<rparr>;
          total = length (ep_Pages cfg) + (if ep_Default cfg \<noteq> [] then 1 else 0);
          failed = total - length loaded - (if dflt \<noteq> None then 1 else 0)
      in if failed = 0 then EPM_Loaded m else if failed = total then EPM_Failed else EPM_Partial m)"

definition GetPage :: "int \<Rightarrow> ErrorPageManager \<Rightarrow> (string \<times> int) option" where
  "GetPage code m =
     (let rc = (if epm_responseCode m > 0 then epm_responseCode m else code)
      in case map_of (epm_pages m) code of
           Some content \<Rightarrow> Some (content, rc)
         | None \<Rightarrow> (case epm_defaultPage m of Some content \<Rightarrow> Some (content, rc) | None \<Rightarrow> None))"

definition HasPage :: "int \<Rightarrow> ErrorPageManager \<Rightarrow> bool" where
  "HasPage code m \<longleftrightarrow> map_of (epm_pages m) code \<noteq> None \<or> epm_defaultPage m \<noteq> None"

definition IsConfigured :: "ErrorPageManager \<Rightarrow> bool" where
  "IsConfigured m \<longleftrightarrow> epm_pages m \<noteq> [] \<or> epm_defaultPage m \<noteq> None"

definition isErrorStatusCode :: "int \<Rightarrow> bool" where
  "isErrorStatusCode code \<longleftrightarrow> code \<ge> 400 \<and> code < 600"

definition intercept :: "ErrorPageManager \<Rightarrow> exchange \<Rightarrow> exchange" where
  "intercept m x =
     (let code = rs_Status (x_response x)
      in if \<not> isErrorStatusCode code then x
         else case GetPage code m of
                None \<Rightarrow> x
              | Some (content, rc) \<Rightarrow>
                  let y = set_resp_header ''Content-Type'' ''text/html; charset=utf-8''
                            (x\<lparr>x_response := (x_response x)\<lparr>rs_Body := content\<rparr>\<rparr>)
                  in if rc \<noteq> code then set_status rc y else y)"

definition ErrorIntercept_Process :: "ErrorPageManager option \<Rightarrow> middleware" where
  "ErrorIntercept_Process om next x =
     (case om of None \<Rightarrow> next x | Some m \<Rightarrow> if IsConfigured m then intercept m (next x) else next x)"

section \<open>Security headers\<close>

record HeadersMiddleware =
  hm_config :: "SecurityHeaders option"
  hm_hsts :: string

definition formatHSTSValue :: "int \<Rightarrow> bool \<Rightarrow> bool \<Rightarrow> string" where
  "formatHSTSValue maxAge sub preload =
     ''max-age='' @ show_int maxAge @ (if sub then ''; includeSubDomains'' else []) @ (if preload then ''; preload'' else [])"

definition default_headers :: SecurityHeaders where
  "default_headers =
     \<lparr>sh_XFrameOptions = ''DENY'', sh_XContentTypeOptions = ''nosniff'', sh_ContentSecurityPolicy = [],
      sh_ReferrerPolicy = ''strict-origin-when-cross-origin'', sh_PermissionsPolicy = []\<rparr>"

definition formatHSTS :: string where
  "formatHSTS = formatHSTSValue 31536000 True False"

definition formatHSTSFromConfig :: "HSTSConfig option \<Rightarrow> string" where
  "formatHSTSFromConfig oh =
     (case oh of
        Some h \<Rightarrow> formatHSTSValue (if hs_MaxAge h \<le> 0 then 31536000 else hs_MaxAge h) (hs_IncludeSubDomains h) (hs_Preload h)
      | None \<Rightarrow> formatHSTS)"

definition NewHeadersWithHSTS :: "SecurityHeaders option \<Rightarrow> HSTSConfig option \<Rightarrow> HeadersMiddleware" where
  "NewHeadersWithHSTS oc oh =
     \<lparr>hm_config = Some (case oc of Some c \<Rightarrow> c | None \<Rightarrow> default_headers), hm_hsts = formatHSTSFromConfig oh\<rparr>"

definition addHeaders :: "HeadersMiddleware \<Rightarrow> exchange \<Rightarrow> exchange" where
  "addHeaders m x =
     (let c = (case hm_config m of Some c \<Rightarrow> c | None \<Rightarrow> default_headers);
          nonempty = (\<lambda>n v. set_if (v \<noteq> []) n v)
      in nonempty ''Permissions-Policy'' (sh_PermissionsPolicy c)
          (nonempty ''Referrer-Policy'' (sh_ReferrerPolicy c)
            (set_if (hr_IsTLS (x_request x) \<and> hm_hsts m \<noteq> []) ''Strict-Transport-Security'' (hm_hsts m)
              (nonempty ''Content-Security-Policy'' (sh_ContentSecurityPolicy c)
                (set_resp_header ''X-Content-Type-Options''
                  (if sh_XContentTypeOptions c \<noteq> [] then sh_XContentTypeOptions c else ''nosniff'')
                  (nonempty ''X-Frame-Options'' (sh_XFrameOptions c) x))))))"

definition Headers_Process :: "HeadersMiddleware \<Rightarrow> middleware" where
  "Headers_Process m next x = addHeaders m (next x)"

definition Headers_UpdateConfig :: "SecurityHeaders option \<Rightarrow> HeadersMiddleware \<Rightarrow> HeadersMiddleware" where
  "Headers_UpdateConfig oc m = (case oc of None \<Rightarrow> m | Some c \<Rightarrow> m\<lparr>hm_config := Some c, hm_hsts := formatHSTS\<rparr>)"

definition SetXFrameOptions :: "string \<Rightarrow> HeadersMiddleware \<Rightarrow> HeadersMiddleware" where
  "SetXFrameOptions v m = m\<lparr>hm_config := map_option (\<lambda>c. c\<lparr>sh_XFrameOptions := v\<rparr>) (hm_config m)\<rparr>"

definition SetContentSecurityPolicy :: "string \<Rightarrow> HeadersMiddleware \<Rightarrow> HeadersMiddleware" where
  "SetContentSecurityPolicy v m = m\<lparr>hm_config := map_option (\<lambda>c. c\<lparr>sh_ContentSecurityPolicy := v\<rparr>) (hm_config m)\<rparr>"

definition SetReferrerPolicy :: "string \<Rightarrow> HeadersMiddleware \<Rightarrow> HeadersMiddleware" where
  "SetReferrerPolicy v m = m\<lparr>hm_config := map_option (\<lambda>c. c\<lparr>sh_ReferrerPolicy := v\<rparr>) (hm_config m)\<rparr>"

definition SetPermissionsPolicy :: "string \<Rightarrow> HeadersMiddleware \<Rightarrow> HeadersMiddleware" where
  "SetPermissionsPolicy v m = m\<lparr>hm_config := map_option (\<lambda>c. c\<lparr>sh_PermissionsPolicy := v\<rparr>) (hm_config m)\<rparr>"

section \<open>The contract of a middleware\<close>

text \<open>A middleware either answers or passes a changed exchange on, once, and changes what comes back. It cannot call
  the next handler twice, nor look at it in any other way.\<close>

locale wrapper =
  fixes proc :: middleware
    and pre :: "exchange \<Rightarrow> exchange + exchange"
    and post :: "exchange \<Rightarrow> exchange \<Rightarrow> exchange"
  assumes wraps: "proc next x = (case pre x of Inl y \<Rightarrow> y | Inr x' \<Rightarrow> post x (next x'))"
begin

lemma answers: "pre x = Inl y \<Longrightarrow> proc next x = y"
  by (simp add: wraps)

lemma passes: "pre x = Inr x' \<Longrightarrow> proc next x = post x (next x')"
  by (simp add: wraps)

lemma next_local: "(\<And>x'. pre x = Inr x' \<Longrightarrow> next x' = next' x') \<Longrightarrow> proc next x = proc next' x"
  by (simp add: wraps split: sum.split)

end

definition rid_pre :: "string \<Rightarrow> exchange \<Rightarrow> exchange + exchange" where
  "rid_pre uuid x = Inr (RequestID_Process uuid (\<lambda>y. y) x)"

definition body_pre :: "fh \<Rightarrow> BodyLimit \<Rightarrow> exchange \<Rightarrow> exchange + exchange" where
  "body_pre f bl x =
     (if x_contentLength x > 0 \<and> x_contentLength x > GetLimit (hr_Path (x_request x)) bl
      then Inl (ctx_Error f ''Request Entity Too Large'' 413 x) else Inr x)"

definition rewrite_pre :: "fh \<Rightarrow> rw_env \<Rightarrow> rewrite_rule list \<Rightarrow> exchange \<Rightarrow> exchange + exchange" where
  "rewrite_pre f e rules x =
     (case rewrite_loop f e rules 0 0 (hr_Path (x_request x)) x of
        Inl y \<Rightarrow> Inl y
      | Inr (y, op) \<Rightarrow>
          Inr (case op of None \<Rightarrow> y | Some path \<Rightarrow> if path \<noteq> hr_Path (x_request x) then set_uri f path y else y))"

definition cors_pre :: "CORSMiddleware \<Rightarrow> exchange \<Rightarrow> exchange + exchange" where
  "cors_pre m x =
     (case cors_applies m x of
        Some (c, org) \<Rightarrow> if hr_Method (x_request x) = ''OPTIONS'' then Inl (handlePreflight m c org x) else Inr x
      | None \<Rightarrow> Inr x)"

definition cors_post :: "CORSMiddleware \<Rightarrow> exchange \<Rightarrow> exchange \<Rightarrow> exchange" where
  "cors_post m x y = (case cors_applies m x of Some (c, org) \<Rightarrow> setActualHeaders m c org y | None \<Rightarrow> y)"

definition intercept_post :: "ErrorPageManager option \<Rightarrow> exchange \<Rightarrow> exchange" where
  "intercept_post om y = (case om of Some m \<Rightarrow> if IsConfigured m then intercept m y else y | None \<Rightarrow> y)"

interpretation rid: wrapper "RequestID_Process uuid" "rid_pre uuid" "\<lambda>_ y. y" for uuid
  by unfold_locales (simp add: RequestID_Process_def rid_pre_def Let_def)

interpretation body: wrapper "BodyLimit_Process f bl" "body_pre f bl" "\<lambda>_ y. y" for f bl
  by unfold_locales (simp add: BodyLimit_Process_def body_pre_def Let_def)

interpretation rewr: wrapper "Rewrite_Process f e rules" "rewrite_pre f e rules" "\<lambda>_ y. y" for f e rules
  by unfold_locales (auto simp: Rewrite_Process_def rewrite_pre_def Let_def split: sum.split option.split)

interpretation cors: wrapper "CORS_Process m" "cors_pre m" "cors_post m" for m
  by unfold_locales (auto simp: CORS_Process_def cors_pre_def cors_post_def split: option.split)

interpretation epages: wrapper "ErrorIntercept_Process om" Inr "\<lambda>_. intercept_post om" for om
  by unfold_locales (simp add: ErrorIntercept_Process_def intercept_post_def split: option.split)

interpretation hdrs: wrapper "Headers_Process m" Inr "\<lambda>_. addHeaders m" for m
  by unfold_locales (simp add: Headers_Process_def)

text \<open>A chain of such middlewares runs their decisions in the order of the list up to the first answer, and the
  changes of those that passed in the reverse order.\<close>

type_synonym layer = "(exchange \<Rightarrow> exchange + exchange) \<times> (exchange \<Rightarrow> exchange \<Rightarrow> exchange)"

fun run_layers :: "layer list \<Rightarrow> handler \<Rightarrow> handler" where
  "run_layers [] final x = final x"
| "run_layers ((pre, post) # ls) final x = (case pre x of Inl y \<Rightarrow> y | Inr x' \<Rightarrow> post x (run_layers ls final x'))"

lemma Chain_Apply_Cons: "Chain_Apply (m # ms) final = m (Chain_Apply ms final)"
  by (simp add: Chain_Apply_def)

lemma Chain_Apply_layers:
  "list_all2 (\<lambda>m l. wrapper m (fst l) (snd l)) ms ls \<Longrightarrow> Chain_Apply ms final x = run_layers ls final x"
proof (induction ms ls arbitrary: x rule: list_all2_induct)
  case Nil
  then show ?case by (simp add: Chain_Apply_def)
next
  case (Cons m ms l ls)
  obtain pre post where l: "l = (pre, post)" by (metis prod.exhaust)
  have w: "wrapper m pre post" using Cons.hyps(1) l by simp
  show ?case unfolding Chain_Apply_Cons wrapper.wraps [OF w] l using Cons.IH by (auto split: sum.split)
qed

section \<open>Rewriting: the loop against a specification\<close>

text \<open>With \<open>n\<close> rewrites left: the first matching rule decides.\<close>

fun rewrite_spec :: "fh \<Rightarrow> rw_env \<Rightarrow> rewrite_rule list \<Rightarrow> nat \<Rightarrow> string \<Rightarrow> exchange \<Rightarrow> exchange + (exchange \<times> string option)" where
  "rewrite_spec f e rules 0 path x = (if rules = [] then Inr (x, Some path) else Inl (ctx_Error f ''Internal Server Error'' 500 x))"
| "rewrite_spec f e rules (Suc n) path x =
     (case List.find (\<lambda>r. rw_match e (rule_pattern r) path) rules of
        None \<Rightarrow> Inr (x, Some path)
      | Some r \<Rightarrow>
          let newPath = rw_expand e x (rw_replace e (rule_pattern r) path (rule_replacement r))
          in case rule_flag r of
               FlagRedirect \<Rightarrow> Inl (redirect_to f newPath 302 x)
             | FlagPermanent \<Rightarrow> Inl (redirect_to f newPath 301 x)
             | FlagBreak \<Rightarrow> Inr (set_uri f newPath x, None)
             | FlagLast \<Rightarrow> rewrite_spec f e rules n newPath (set_uri f newPath x))"

definition rewrite_step ::
  "fh \<Rightarrow> rw_env \<Rightarrow> rewrite_rule list \<Rightarrow> nat \<Rightarrow> string \<Rightarrow> exchange \<Rightarrow> rewrite_rule option \<Rightarrow> exchange + (exchange \<times> string option)" where
  "rewrite_step f e rules i path x ro =
     (case ro of
        None \<Rightarrow> Inr (x, Some path)
      | Some r \<Rightarrow>
          let newPath = rw_expand e x (rw_replace e (rule_pattern r) path (rule_replacement r))
          in case rule_flag r of
               FlagRedirect \<Rightarrow> Inl (redirect_to f newPath 302 x)
             | FlagPermanent \<Rightarrow> Inl (redirect_to f newPath 301 x)
             | FlagBreak \<Rightarrow> Inr (set_uri f newPath x, None)
             | FlagLast \<Rightarrow> rewrite_loop f e rules (i + 1) 0 newPath (set_uri f newPath x))"

lemma rewrite_loop_find:
  assumes "i < MaxRewriteIterations" "k \<le> length rules"
  shows "rewrite_loop f e rules i k path x =
    rewrite_step f e rules i path x (List.find (\<lambda>r. rw_match e (rule_pattern r) path) (drop k rules))"
  using assms(2)
proof (induction "length rules - k" arbitrary: k)
  case 0
  then show ?case by (subst rewrite_loop.simps) (simp add: rewrite_step_def)
next
  case (Suc n)
  then have k: "k < length rules" by simp
  then have d: "drop k rules = rules ! k # drop (Suc k) rules" by (simp add: Cons_nth_drop_Suc)
  show ?case
  proof (cases "rw_match e (rule_pattern (rules ! k)) path")
    case True
    then show ?thesis unfolding d using k assms(1) by (subst rewrite_loop.simps) (simp add: rewrite_step_def Let_def)
  next
    case False
    have "rewrite_loop f e rules i k path x = rewrite_loop f e rules i (Suc k) path x"
      using False k assms(1) by (subst rewrite_loop.simps) simp
    then show ?thesis unfolding d using Suc False k by simp
  qed
qed

lemma rewrite_loop_spec: "rewrite_loop f e rules (MaxRewriteIterations - n) 0 path x = rewrite_spec f e rules n path x"
  if "n \<le> MaxRewriteIterations"
  using that
proof (induction n arbitrary: path x)
  case 0
  then show ?case by (subst rewrite_loop.simps) simp
next
  case (Suc n)
  have i: "MaxRewriteIterations - Suc n < MaxRewriteIterations" using Suc.prems by simp
  have "MaxRewriteIterations - Suc n + 1 = MaxRewriteIterations - n" using Suc.prems by simp
  then show ?case
    unfolding rewrite_loop_find [OF i le0] rewrite_spec.simps rewrite_step_def
    using Suc by (simp add: Let_def split: option.split rewrite_flag.split)
qed

text \<open>C14. The rewriting loop always ends and is the iteration of its specification: each round applies the first matching
  rule, redirects and breaks end it, and after ten rewrites with the flag \<open>last\<close> the request is
  answered with 500 without another look at the rules.\<close>

theorem rewrite_first_match:
  "Rewrite_Process f e rules next x =
     (case rewrite_spec f e rules 10 (hr_Path (x_request x)) x of
        Inl y \<Rightarrow> y
      | Inr (y, None) \<Rightarrow> next y
      | Inr (y, Some path) \<Rightarrow> next (if path \<noteq> hr_Path (x_request x) then set_uri f path y else y))"
  using rewrite_loop_spec [of 10 f e rules "hr_Path (x_request x)" x]
  by (simp add: Rewrite_Process_def MaxRewriteIterations_def Let_def)

section \<open>Cross-origin requests: who gets credentials\<close>

lemma set_if_header:
  "hdr_Peek (rs_Headers (x_response (set_if b n v x))) k =
     (if b \<and> EqualFold n k then v else hdr_Peek (rs_Headers (x_response x)) k)"
  by (simp add: set_if_def set_resp_header_def)

lemma set_header_peek:
  "hdr_Peek (rs_Headers (x_response (set_resp_header n v x))) k =
     (if EqualFold n k then v else hdr_Peek (rs_Headers (x_response x)) k)"
  by (simp add: set_resp_header_def)

lemma set_status_headers: "rs_Headers (x_response (set_status c x)) = rs_Headers (x_response x)"
  by (simp add: set_status_def)

lemmas header_simps = set_if_header set_header_peek set_status_headers

lemma cors_names:
  "\<not> EqualFold ''Access-Control-Allow-Methods'' ''Access-Control-Allow-Credentials''"
  "\<not> EqualFold ''Access-Control-Allow-Headers'' ''Access-Control-Allow-Credentials''"
  "\<not> EqualFold ''Access-Control-Max-Age'' ''Access-Control-Allow-Credentials''"
  "\<not> EqualFold ''Access-Control-Allow-Origin'' ''Access-Control-Allow-Credentials''"
  "\<not> EqualFold ''Access-Control-Expose-Headers'' ''Access-Control-Allow-Credentials''"
  by code_simp+

lemma cors_applies_new:
  assumes "cors_applies (CORS_New (Some c)) x = Some (c', org)"
  shows "c' = c" "org = hdr_Peek (hr_Headers (x_request x)) ''Origin''" "co_Enabled c"
    "''*'' \<in> set (co_AllowedOrigins c) \<or> org \<in> set (co_AllowedOrigins c)"
proof -
  have cfg: "cors_cfg (CORS_New (Some c)) = Some c" by (simp add: CORS_New_def Let_def)
  then have a: "co_Enabled c \<and> co_AllowedOrigins c \<noteq> [] \<and> matchOrigin (CORS_New (Some c)) org" "c' = c"
      "org = hdr_Peek (hr_Headers (x_request x)) ''Origin''"
    using assms by (auto simp: cors_applies_def Let_def split: if_splits)
  then show "c' = c" "org = hdr_Peek (hr_Headers (x_request x)) ''Origin''" "co_Enabled c" by simp_all
  show "''*'' \<in> set (co_AllowedOrigins c) \<or> org \<in> set (co_AllowedOrigins c)"
    using a(1) by (auto simp: matchOrigin_def CORS_New_def Let_def)
qed

lemma validateCORS_exclusive:
  "validateCORS c = None \<Longrightarrow> co_Enabled c \<Longrightarrow> co_AllowCredentials c \<Longrightarrow> ''*'' \<notin> set (co_AllowedOrigins c)"
  by (auto simp: validateCORS_def)

text \<open>C38. Under a validated configuration, a response the next handlers left without the credentials header gets it only for an
  origin that the configuration lists by name.\<close>

theorem cors_credentials_listed:
  assumes "validateCORS c = None"
    and "\<And>y. hdr_Peek (rs_Headers (x_response (next y))) ''Access-Control-Allow-Credentials'' = []"
    and "hdr_Peek (rs_Headers (x_response x)) ''Access-Control-Allow-Credentials'' = []"
    and "hdr_Peek (rs_Headers (x_response (CORS_Process (CORS_New (Some c)) next x))) ''Access-Control-Allow-Credentials'' \<noteq> []"
  shows "hdr_Peek (hr_Headers (x_request x)) ''Origin'' \<in> set (co_AllowedOrigins c)"
proof (cases "cors_applies (CORS_New (Some c)) x")
  case None
  then show ?thesis using assms(2,4) by (simp add: CORS_Process_def)
next
  case (Some p)
  then obtain c' org where p: "cors_applies (CORS_New (Some c)) x = Some (c', org)" by (cases p) auto
  note a = cors_applies_new [OF p]
  have "co_AllowCredentials c"
    using assms(2-4) p a(1) cors_names
    by (auto simp: CORS_Process_def handlePreflight_def setActualHeaders_def header_simps split: if_splits)
  then show ?thesis using validateCORS_exclusive [OF assms(1) a(3)] a(2,4) by auto
qed

definition demo_cors :: CORSConfig where
  "demo_cors = zero_CORSConfig\<lparr>co_Enabled := True, co_AllowedOrigins := [''https://a.example''], co_AllowCredentials := True\<rparr>"

definition demo_exchange :: "headers \<Rightarrow> exchange" where
  "demo_exchange hs =
     \<lparr>x_request = \<lparr>hr_Method = ''GET'', hr_Headers = hs, hr_Host = ''h'', hr_Path = ''/'', hr_Query = [], hr_RawURI = ''/'', hr_IsTLS = False,
        hr_Remote = None, hr_User = Map.empty\<rparr>,
      x_response = \<lparr>rs_Status = 200, rs_Headers = [], rs_Body = []\<rparr>, x_contentLength = 0\<rparr>"

theorem cors_credentials_listed_witness:
  "''https://a.example'' \<in> set (co_AllowedOrigins demo_cors) \<and>
   hdr_Peek (rs_Headers (x_response (CORS_Process (CORS_New (Some demo_cors)) (\<lambda>_. demo_exchange []) (demo_exchange [(''Origin'', ''https://a.example'')]))))
     ''Access-Control-Allow-Credentials'' = ''true''"
proof -
  let ?x = "demo_exchange [(''Origin'', ''https://a.example'')]"
  have v: "validateCORS demo_cors = None" by code_simp
  have n: "hdr_Peek (rs_Headers (x_response (demo_exchange []))) ''Access-Control-Allow-Credentials'' = []" by code_simp
  have x: "hdr_Peek (rs_Headers (x_response ?x)) ''Access-Control-Allow-Credentials'' = []" by code_simp
  have t: "hdr_Peek (rs_Headers (x_response (CORS_Process (CORS_New (Some demo_cors)) (\<lambda>_. demo_exchange []) ?x)))
      ''Access-Control-Allow-Credentials'' = ''true''" by code_simp
  have "hdr_Peek (hr_Headers (x_request ?x)) ''Origin'' \<in> set (co_AllowedOrigins demo_cors)"
    by (rule cors_credentials_listed [OF v n x]) (simp add: t)
  moreover have "hdr_Peek (hr_Headers (x_request ?x)) ''Origin'' = ''https://a.example''" by code_simp
  ultimately show ?thesis using t by simp
qed

section \<open>Body limits\<close>

lemma limit_loop_best:
  assumes "distinct (map fst ls)"
    and "case best of None \<Rightarrow> True | Some (q, m) \<Rightarrow> HasPrefix path q \<and> q \<notin> fst ` set ls"
  shows "case limit_loop path ls best of
      None \<Rightarrow> best = None \<and> (\<forall>(p, n) \<in> set ls. \<not> HasPrefix path p)
    | Some (q, m) \<Rightarrow> HasPrefix path q \<and> ((q, m) \<in> set ls \<or> best = Some (q, m)) \<and>
        (\<forall>(p, n) \<in> set ls. HasPrefix path p \<longrightarrow> length p \<le> length q) \<and>
        (case best of None \<Rightarrow> True | Some (q', _) \<Rightarrow> length q' \<le> length q)"
  using assms
proof (induction path ls best rule: limit_loop.induct)
  case (2 path p n ls best)
  let ?take = "HasPrefix path p \<and> (case best of None \<Rightarrow> True | Some (q, _) \<Rightarrow> length p > length q)"
  have IH: "case limit_loop path ls (if ?take then Some (p, n) else best) of
      None \<Rightarrow> (if ?take then Some (p, n) else best) = None \<and> (\<forall>(p, n) \<in> set ls. \<not> HasPrefix path p)
    | Some (q, m) \<Rightarrow> HasPrefix path q \<and> ((q, m) \<in> set ls \<or> (if ?take then Some (p, n) else best) = Some (q, m)) \<and>
        (\<forall>(p, n) \<in> set ls. HasPrefix path p \<longrightarrow> length p \<le> length q) \<and>
        (case (if ?take then Some (p, n) else best) of None \<Rightarrow> True | Some (q', _) \<Rightarrow> length q' \<le> length q)"
    using 2 by (intro 2) (auto split: option.splits)
  show ?case
  proof (cases ?take)
    case True
    then show ?thesis using IH by (auto split: option.splits)
  next
    case False
    then show ?thesis using IH by (auto split: option.splits)
  qed
qed (auto split: option.split)

text \<open>C39. The limit of a request is that of the longest configured path that is a prefix of the request path, in
  whatever order the map is visited, and the server's limit without one.\<close>

theorem body_limit_longest:
  assumes "distinct (map fst (bl_pathLimits bl))"
  shows "((p, n) \<in> set (bl_pathLimits bl) \<and> HasPrefix path p \<and>
      (\<forall>(q, m) \<in> set (bl_pathLimits bl). HasPrefix path q \<longrightarrow> length q \<le> length p) \<longrightarrow> GetLimit path bl = n) \<and>
    ((\<forall>(q, m) \<in> set (bl_pathLimits bl). \<not> HasPrefix path q) \<longrightarrow> GetLimit path bl = bl_maxBodySize bl)"
proof (cases "limit_loop path (bl_pathLimits bl) None")
  case None
  then show ?thesis using limit_loop_best [OF assms, where best = None and path = path] by (auto simp: GetLimit_def)
next
  case (Some r)
  obtain q m where r: "r = (q, m)" by (metis prod.exhaust)
  have b: "HasPrefix path q" "(q, m) \<in> set (bl_pathLimits bl)" "\<forall>(p, n) \<in> set (bl_pathLimits bl). HasPrefix path p \<longrightarrow> length p \<le> length q"
    using limit_loop_best [OF assms, where best = None and path = path] Some r by auto
  show ?thesis
  proof (intro conjI impI)
    assume a: "(p, n) \<in> set (bl_pathLimits bl) \<and> HasPrefix path p \<and>
      (\<forall>(q, m) \<in> set (bl_pathLimits bl). HasPrefix path q \<longrightarrow> length q \<le> length p)"
    then have "length p = length q" using b by fastforce
    then have "p = q" using a b(1) HasPrefix_same_length by blast
    then have "n = m" using a b(2) assms by (metis eq_key_imp_eq_value)
    then show "GetLimit path bl = n" using Some r by (simp add: GetLimit_def)
  next
    assume "\<forall>(q, m) \<in> set (bl_pathLimits bl). \<not> HasPrefix path q"
    then show "GetLimit path bl = bl_maxBodySize bl" using b by fastforce
  qed
qed

theorem body_limit_longest_witness:
  "GetLimit ''/api/up'' \<lparr>bl_pathLimits = [(''/'', 1), (''/api'', 5)], bl_maxBodySize = 9\<rparr> = 5"
proof -
  let ?b = "\<lparr>bl_pathLimits = [(''/'', 1), (''/api'', 5)], bl_maxBodySize = 9\<rparr>"
  have d: "distinct (map fst (bl_pathLimits ?b))" by simp
  have "HasPrefix ''/api/up'' ''/api''" by code_simp
  then show ?thesis using body_limit_longest [OF d, of "''/api''" 5 "''/api/up''"] by simp
qed

fun limited_reads :: "((int \<Rightarrow> int) \<times> int) list \<Rightarrow> limitedBodyReader \<Rightarrow> (bool + int) list \<times> limitedBodyReader" where
  "limited_reads [] l = ([], l)"
| "limited_reads ((original, plen) # rs) l =
     (let (r, l1) = limited_Read original plen l; (out, l2) = limited_reads rs l1 in (r # out, l2))"

definition delivered :: "(bool + int) list \<Rightarrow> int" where
  "delivered out = sum_list (map (\<lambda>r. case r of Inr n \<Rightarrow> n | Inl _ \<Rightarrow> 0) out)"

definition reader_ok :: "limitedBodyReader \<Rightarrow> bool" where
  "reader_ok l \<longleftrightarrow> 0 \<le> lr_read l \<and> lr_read l \<le> lr_limit l \<and> (lr_done l \<longrightarrow> lr_read l = lr_limit l)"

lemma limited_Read_step:
  assumes "reader_ok l" "\<forall>m \<ge> 0. 0 \<le> original m \<and> original m \<le> m" "0 \<le> plen"
  shows "reader_ok (snd (limited_Read original plen l))" "lr_limit (snd (limited_Read original plen l)) = lr_limit l"
    "lr_read (snd (limited_Read original plen l)) = lr_read l + delivered [fst (limited_Read original plen l)]"
    "isl (fst (limited_Read original plen l)) \<longleftrightarrow> lr_read l = lr_limit l"
    "lr_read l \<le> lr_read (snd (limited_Read original plen l))"
  using assms(1) assms(2) [rule_format, of "min plen (lr_limit l - lr_read l)"] assms(3)
  by (auto simp: limited_Read_def reader_ok_def delivered_def Let_def)

lemma limited_reads_ok:
  assumes "reader_ok l" "\<forall>(original, plen) \<in> set rs. 0 \<le> plen \<and> (\<forall>m \<ge> 0. 0 \<le> original m \<and> original m \<le> m)"
  shows "reader_ok (snd (limited_reads rs l)) \<and> lr_limit (snd (limited_reads rs l)) = lr_limit l \<and>
    lr_read (snd (limited_reads rs l)) = lr_read l + delivered (fst (limited_reads rs l)) \<and>
    (list_ex isl (fst (limited_reads rs l)) \<longrightarrow> lr_read (snd (limited_reads rs l)) = lr_limit l) \<and>
    lr_read l \<le> lr_read (snd (limited_reads rs l))"
  using assms
proof (induction rs arbitrary: l)
  case (Cons r rs)
  obtain original plen where r: "r = (original, plen)" by (metis prod.exhaust)
  obtain out l1 where o1: "limited_Read original plen l = (out, l1)" by (metis prod.exhaust)
  have c: "\<forall>m \<ge> 0. 0 \<le> original m \<and> original m \<le> m" "0 \<le> plen" using Cons.prems(2) r by auto
  note s = limited_Read_step [OF Cons.prems(1) c, unfolded o1 fst_conv snd_conv]
  have rs: "\<forall>(original, plen) \<in> set rs. 0 \<le> plen \<and> (\<forall>m \<ge> 0. 0 \<le> original m \<and> original m \<le> m)" using Cons.prems(2) by simp
  obtain os l2 where o2: "limited_reads rs l1 = (os, l2)" by (metis prod.exhaust)
  note IH = Cons.IH [OF s(1) rs, unfolded o2 fst_conv snd_conv]
  have "lr_read l2 = lr_limit l" if "isl out"
    using that s IH by (simp add: reader_ok_def)
  moreover have "delivered (out # os) = delivered [out] + delivered os" by (simp add: delivered_def)
  ultimately show ?case using r o1 o2 s(2,3,5) IH by (auto simp: Let_def)
qed (simp add: delivered_def)

text \<open>C40. Streamed bodies: whatever the buffers are and however much the original reader gives of what it is asked for, the
  handler never receives more bytes than the limit, and the request is refused exactly at a read that comes
  after the limit has been reached.\<close>

theorem body_reader_bounds:
  assumes "lim0 \<ge> 0" "\<forall>(original, plen) \<in> set rs. 0 \<le> plen \<and> (\<forall>m \<ge> 0. 0 \<le> original m \<and> original m \<le> m)"
  shows "delivered (fst (limited_reads rs \<lparr>lr_limit = lim0, lr_read = 0, lr_done = False\<rparr>)) \<le> lim0 \<and>
    (list_ex isl (fst (limited_reads rs \<lparr>lr_limit = lim0, lr_read = 0, lr_done = False\<rparr>)) \<longrightarrow>
       delivered (fst (limited_reads rs \<lparr>lr_limit = lim0, lr_read = 0, lr_done = False\<rparr>)) = lim0)"
  using limited_reads_ok [OF _ assms(2), of "\<lparr>lr_limit = lim0, lr_read = 0, lr_done = False\<rparr>"] assms(1)
  by (auto simp: reader_ok_def)

text \<open>The witness reads a body of exactly the limit: the read that would have found its end is refused.\<close>

theorem body_reader_bounds_witness:
  "fst (limited_reads [(\<lambda>m. m, 4), (\<lambda>_. 0, 4)] \<lparr>lr_limit = 4, lr_read = 0, lr_done = False\<rparr>) = [Inr 4, Inl True] \<and>
   delivered [Inr 4, Inl True] = 4"
proof -
  let ?rs = "[(\<lambda>m :: int. m, 4), (\<lambda>_. 0, 4)] :: ((int \<Rightarrow> int) \<times> int) list"
  have ok: "\<forall>(original, plen) \<in> set ?rs. 0 \<le> plen \<and> (\<forall>m \<ge> 0. 0 \<le> original m \<and> original m \<le> m)" by simp
  have "fst (limited_reads ?rs \<lparr>lr_limit = 4, lr_read = 0, lr_done = False\<rparr>) = [Inr 4, Inl True]"
    by (simp add: limited_Read_def)
  then show ?thesis using body_reader_bounds [OF _ ok, of 4] by simp
qed

end
