(* ===== verification/VHost.thy ===== *)
theory VHost
  imports HttpMsg
begin

text \<open>
  \<^verbatim>\<open>internal/server/vhost.go\<close>: virtual hosts. A request is dispatched by its host name to the host of that exact name, the
  longest matching wildcard, a name with any ending, the first matching regular expression or the default. Handlers
  are values of any type; the three Go maps are maps, the \<open>regexp\<close> package is the parameter of \<^theory_text>\<open>GoStrings\<close>.
\<close>

section \<open>State and operations\<close>

record 'h VirtualHost =
  vh_handler :: 'h
  vh_name :: string

record 'h VHostManager =
  vm_hosts :: "string \<rightharpoonup> 'h VirtualHost"
  vm_wildcardSuffix :: "string \<rightharpoonup> 'h VirtualHost"
  vm_wildcardTLD :: "string \<rightharpoonup> 'h VirtualHost"
  vm_regexHosts :: "(string \<times> 'h VirtualHost) list"
  vm_defaultHost :: "'h VirtualHost option"

definition NewVHostManager :: "'h VHostManager" where
  "NewVHostManager =
     \<lparr>vm_hosts = Map.empty, vm_wildcardSuffix = Map.empty, vm_wildcardTLD = Map.empty, vm_regexHosts = [], vm_defaultHost = None\<rparr>"

text \<open>\<open>None\<close> is the error for an invalid regular expression.\<close>

definition AddHost :: "rx \<Rightarrow> string \<Rightarrow> 'h \<Rightarrow> 'h VHostManager \<Rightarrow> 'h VHostManager option" where
  "AddHost x name h v =
     (let vh = \<lparr>vh_handler = h, vh_name = name\<rparr>
      in if HasPrefix name ''~'' then
           (if re_compile x (tl name) then Some (v\<lparr>vm_regexHosts := vm_regexHosts v @ [(tl name, vh)]\<rparr>) else None)
         else if HasPrefix name ''*.'' then Some (v\<lparr>vm_wildcardSuffix := (vm_wildcardSuffix v)(drop 2 name \<mapsto> vh)\<rparr>)
         else if HasSuffix name ''.*'' then
           Some (v\<lparr>vm_wildcardTLD := (vm_wildcardTLD v)(take (length name - 2) name \<mapsto> vh)\<rparr>)
         else Some (v\<lparr>vm_hosts := (vm_hosts v)(name \<mapsto> vh)\<rparr>))"

definition SetDefault :: "'h \<Rightarrow> 'h VHostManager \<Rightarrow> 'h VHostManager" where
  "SetDefault h v = v\<lparr>vm_defaultHost := Some \<lparr>vh_handler = h, vh_name = ''default''\<rparr>\<rparr>"

fun join_dot :: "string list \<Rightarrow> string" where
  "join_dot [] = []"
| "join_dot [p] = p"
| "join_dot (p # ps) = p @ ''.'' @ join_dot ps"

fun wildcard_loop :: "(string \<rightharpoonup> 'v) \<Rightarrow> string list \<Rightarrow> 'v option" where
  "wildcard_loop m [] = None"
| "wildcard_loop m (p # ps) = (case m (join_dot (p # ps)) of Some v \<Rightarrow> Some v | None \<Rightarrow> wildcard_loop m ps)"

definition findLongestWildcardPrefix :: "string \<Rightarrow> 'h VHostManager \<Rightarrow> 'h VirtualHost option" where
  "findLongestWildcardPrefix host v = wildcard_loop (vm_wildcardSuffix v) (tl (Split host (CHR ''.'')))"

definition FindHost :: "rx \<Rightarrow> string \<Rightarrow> 'h VHostManager \<Rightarrow> 'h VirtualHost option" where
  "FindHost x host v =
     (case vm_hosts v host of
        Some vh \<Rightarrow> Some vh
      | None \<Rightarrow>
          (case findLongestWildcardPrefix host v of
             Some vh \<Rightarrow> Some vh
           | None \<Rightarrow>
               (let parts = Split host (CHR ''.'')
                in case (if length parts \<ge> 2 then vm_wildcardTLD v (parts ! 0) else None) of
                     Some vh \<Rightarrow> Some vh
                   | None \<Rightarrow>
                       (case List.find (\<lambda>(p, _). re_match x p host) (vm_regexHosts v) of
                          Some (_, vh) \<Rightarrow> Some vh
                        | None \<Rightarrow> vm_defaultHost v))))"

datatype 'h dispatch = Dispatch 'h | DispatchNotFound

definition VHost_Handler :: "rx \<Rightarrow> 'h VHostManager \<Rightarrow> string \<Rightarrow> 'h dispatch" where
  "VHost_Handler x v host_header =
     (case FindHost x (StripPort host_header) v of Some vh \<Rightarrow> Dispatch (vh_handler vh) | None \<Rightarrow> DispatchNotFound)"

section \<open>The longest wildcard\<close>

text \<open>\<open>suf\<close> is what a wildcard leaves of the host: the host is a label, a dot and the suffix.\<close>

definition covers :: "string \<Rightarrow> string \<Rightarrow> bool" where
  "covers suf host \<longleftrightarrow> (\<exists>label. host = label @ CHR ''.'' # suf)"

lemma Split_eq_join_dot: "join_dot (Split s (CHR ''.'')) = s"
proof (induction s)
  case (Cons c s)
  show ?case
  proof (cases "Split s (CHR ''.'')")
    case Nil
    then show ?thesis by simp
  next
    case (Cons p ps)
    then show ?thesis using Cons.IH by (cases ps) auto
  qed
qed simp

lemma covers_Cons: "covers suf (c # s) \<longleftrightarrow> (c = CHR ''.'' \<and> suf = s) \<or> covers suf s"
  unfolding covers_def by (metis append_Cons append_Nil list.inject neq_Nil_conv)

lemma covers_length: "covers suf host \<Longrightarrow> length suf < length host"
  by (auto simp: covers_def)

text \<open>The suffixes the loop tries, longest first, are those the host is covered by.\<close>

fun suffixes_of :: "string list \<Rightarrow> string list" where
  "suffixes_of [] = []"
| "suffixes_of (p # ps) = join_dot (p # ps) # suffixes_of ps"

lemma suffixes_cover: "suf \<in> set (suffixes_of (tl (Split host (CHR ''.'')))) \<longleftrightarrow> covers suf host"
proof (induction host)
  case (Cons c s)
  obtain p ps where ps: "Split s (CHR ''.'') = p # ps" by (cases "Split s (CHR ''.'')") simp_all
  show ?case
  proof (cases "c = CHR ''.''")
    case True
    have "join_dot (p # ps) = s" using Split_eq_join_dot [of s] ps by simp
    then show ?thesis using Cons.IH ps True by (simp add: covers_Cons)
  next
    case False
    then show ?thesis using Cons.IH ps by (simp add: covers_Cons)
  qed
qed (simp add: covers_def)

lemma suffixes_sorted: "sorted_wrt (\<lambda>a b. length b < length a) (suffixes_of ps)"
proof (induction ps)
  case (Cons p ps)
  have "length b < length (join_dot (p # ps))" if "b \<in> set (suffixes_of ps)" for b
    using that
  proof (induction ps arbitrary: p)
    case (Cons q qs)
    show ?case
    proof (cases "b = join_dot (q # qs)")
      case False
      then have "length b < length (join_dot (q # qs))" using Cons by simp
      then show ?thesis by simp
    qed simp
  qed simp
  then show ?case using Cons by simp
qed simp

lemma wildcard_loop_find: "wildcard_loop m ps = (case List.find (\<lambda>s. m s \<noteq> None) (suffixes_of ps) of Some s \<Rightarrow> m s | None \<Rightarrow> None)"
  by (induction ps) (auto split: option.splits)

lemma find_Some_first:
  assumes "List.find P xs = Some y" "sorted_wrt R xs" "z \<in> set xs" "P z" "z \<noteq> y"
  shows "R y z"
  using assms by (induction xs) (auto split: if_splits simp: find_Some_iff)

lemma wildcard_longest:
  "(findLongestWildcardPrefix host v = None \<longleftrightarrow> (\<forall>suf. covers suf host \<longrightarrow> vm_wildcardSuffix v suf = None)) \<and>
   (\<forall>vh. findLongestWildcardPrefix host v = Some vh \<longrightarrow>
      (\<exists>suf. covers suf host \<and> vm_wildcardSuffix v suf = Some vh \<and>
         (\<forall>s. covers s host \<and> vm_wildcardSuffix v s \<noteq> None \<longrightarrow> length s \<le> length suf)))"
proof -
  let ?ss = "suffixes_of (tl (Split host (CHR ''.'')))"
  let ?m = "vm_wildcardSuffix v"
  have eq: "findLongestWildcardPrefix host v = (case List.find (\<lambda>s. ?m s \<noteq> None) ?ss of Some s \<Rightarrow> ?m s | None \<Rightarrow> None)"
    by (simp add: findLongestWildcardPrefix_def wildcard_loop_find)
  show ?thesis
  proof (cases "List.find (\<lambda>s. ?m s \<noteq> None) ?ss")
    case None
    then have "\<forall>suf \<in> set ?ss. ?m suf = None" by (auto simp: find_None_iff)
    then show ?thesis using eq None suffixes_cover [of _ host] by simp
  next
    case (Some suf)
    then obtain vh where vh: "?m suf = Some vh" "suf \<in> set ?ss" by (auto simp: find_Some_iff)
    have "length s \<le> length suf" if "covers s host" "?m s \<noteq> None" for s
      using find_Some_first [OF Some suffixes_sorted, of s] that suffixes_cover [of s host] by (cases "s = suf") auto
    then show ?thesis using eq Some vh suffixes_cover [of suf host] by auto
  qed
qed

lemma covers_unique: "covers a host \<Longrightarrow> covers b host \<Longrightarrow> length a = length b \<Longrightarrow> a = b"
  unfolding covers_def by (metis append_eq_append_conv2 append_eq_conv_conj length_Cons length_append add_right_cancel list.inject append_eq_append_conv)

lemma Split_head: "Split s c ! 0 = takeWhile (\<lambda>d. d \<noteq> c) s" "2 \<le> length (Split s c) \<longleftrightarrow> c \<in> set s"
  by (induction s) (auto split: list.splits simp: neq_Nil_conv Suc_le_eq)

text \<open>C15. What the host name of a request selects, in the order of precedence: an exact name; the longest wildcard suffix
  that covers the host; for a host of several labels the name with any ending that is the first label; the first
  registered matching regular expression; and the default.\<close>

theorem vhost_priority:
  "(vm_hosts v host = Some vh \<longrightarrow> FindHost x host v = Some vh) \<and>
   (vm_hosts v host = None \<and> covers suf host \<and> vm_wildcardSuffix v suf = Some vh \<and>
      (\<forall>s. covers s host \<and> vm_wildcardSuffix v s \<noteq> None \<longrightarrow> length s \<le> length suf) \<longrightarrow> FindHost x host v = Some vh) \<and>
   (vm_hosts v host = None \<and> (\<forall>s. covers s host \<longrightarrow> vm_wildcardSuffix v s = None) \<longrightarrow>
      FindHost x host v =
        (let first = takeWhile (\<lambda>c. c \<noteq> CHR ''.'') host
         in if CHR ''.'' \<in> set host \<and> vm_wildcardTLD v first \<noteq> None then vm_wildcardTLD v first
            else case filter (\<lambda>(p, _). re_match x p host) (vm_regexHosts v) of
                   (p, vh) # _ \<Rightarrow> Some vh
                 | [] \<Rightarrow> vm_defaultHost v))"
proof (intro conjI impI)
  show "FindHost x host v = Some vh" if "vm_hosts v host = Some vh" using that by (simp add: FindHost_def)
next
  assume a: "vm_hosts v host = None \<and> covers suf host \<and> vm_wildcardSuffix v suf = Some vh \<and>
      (\<forall>s. covers s host \<and> vm_wildcardSuffix v s \<noteq> None \<longrightarrow> length s \<le> length suf)"
  then obtain vh' s where s: "findLongestWildcardPrefix host v = Some vh'" "covers s host" "vm_wildcardSuffix v s = Some vh'"
      "length suf \<le> length s"
    using wildcard_longest [of host v] by (metis not_None_eq)
  then have "s = suf" using a covers_unique [of s host suf] by (metis le_antisym option.distinct(1))
  then show "FindHost x host v = Some vh" using a s by (simp add: FindHost_def)
next
  assume a: "vm_hosts v host = None \<and> (\<forall>s. covers s host \<longrightarrow> vm_wildcardSuffix v s = None)"
  have f: "List.find P xs = (case filter P xs of [] \<Rightarrow> None | y # _ \<Rightarrow> Some y)" for P and xs :: "(string \<times> 'a VirtualHost) list"
    by (induction xs) auto
  have "findLongestWildcardPrefix host v = None" using a wildcard_longest [of host v] by blast
  then show "FindHost x host v =
        (let first = takeWhile (\<lambda>c. c \<noteq> CHR ''.'') host
         in if CHR ''.'' \<in> set host \<and> vm_wildcardTLD v first \<noteq> None then vm_wildcardTLD v first
            else case filter (\<lambda>(p, _). re_match x p host) (vm_regexHosts v) of
                   (p, vh) # _ \<Rightarrow> Some vh
                 | [] \<Rightarrow> vm_defaultHost v)"
    using a Split_head [of host "CHR ''.''"]
    by (auto simp: FindHost_def f Let_def split: option.split list.split)
qed

definition plain_vhosts :: "nat VHostManager" where
  "plain_vhosts = NewVHostManager\<lparr>vm_wildcardSuffix := [''example.com'' \<mapsto> \<lparr>vh_handler = 1, vh_name = ''*.example.com''\<rparr>,
     ''b.example.com'' \<mapsto> \<lparr>vh_handler = 2, vh_name = ''*.b.example.com''\<rparr>]\<rparr>"

definition no_rx :: rx where
  "no_rx = \<lparr>re_compile = \<lambda>_. True, re_match = \<lambda>_ _. False, re_submatch = \<lambda>_ _. None, re_names = \<lambda>_. []\<rparr>"

theorem vhost_priority_witness:
  "FindHost no_rx ''a.b.example.com'' plain_vhosts = Some \<lparr>vh_handler = 2, vh_name = ''*.b.example.com''\<rparr>"
proof -
  have c: "covers ''b.example.com'' ''a.b.example.com''" unfolding covers_def by (intro exI [of _ "''a''"]) simp
  have m: "vm_hosts plain_vhosts ''a.b.example.com'' = None"
    "vm_wildcardSuffix plain_vhosts ''b.example.com'' = Some \<lparr>vh_handler = 2, vh_name = ''*.b.example.com''\<rparr>"
    "\<forall>s. covers s ''a.b.example.com'' \<and> vm_wildcardSuffix plain_vhosts s \<noteq> None \<longrightarrow> length s \<le> length ''b.example.com''"
    by (auto simp: plain_vhosts_def NewVHostManager_def split: if_splits)
  show ?thesis
    using vhost_priority [THEN conjunct2, THEN conjunct1, rule_format, of plain_vhosts "''a.b.example.com''" "''b.example.com''"] c m
    by blast
qed

text \<open>A name with several labels before the wildcard ending is stored under all of them but looked up under the first label only:
  it is never found this way.\<close>

lemma multi_label_ending_never_found:
  assumes "vm_wildcardTLD v = [''www.example'' \<mapsto> vh]"
  shows "vm_wildcardTLD v (Split host (CHR ''.'') ! 0) = None"
proof -
  have "CHR ''.'' \<notin> set (takeWhile (\<lambda>d. d \<noteq> CHR ''.'') host)" by (auto dest: set_takeWhileD)
  then have "takeWhile (\<lambda>d. d \<noteq> CHR ''.'') host \<noteq> ''www.example''" by auto
  then show ?thesis using assms by (simp add: Split_head)
qed

end
