(* ===== verification/Pool.thy ===== *)
theory Pool
  imports Prelude "HOL-Library.Multiset"
begin

text \<open>
  The goroutine pool of \<^verbatim>\<open>internal/server/pool.go\<close> that runs the request handlers, as a step machine: every atomic
  operation of a worker and of a call of \<open>Submit\<close> is a step of its own, and a schedule picks the goroutine and,
  in a worker's \<open>select\<close>, the case. A worker or a call is the place it has reached in its code. The log of the tasks
  that have been run and the list of those submitted are kept for the statements only.

  \<open>AddInt32\<close> and the start of the goroutine in \<open>startWorker\<close> are one step: nothing tells a goroutine that has not
  taken its first step from one that does not exist yet. A timer may fire whenever its worker waits. The counters
  are unbounded; the conversion of the configured bounds to \<open>int32\<close> is written out.
\<close>

section \<open>The machine\<close>

datatype 't worker =
    WLoop
  | WSelect
  | WTake 't
  | WRun 't
  | WTimer
  | WCheck
  | WDone
  | WLeave
  | WGone

datatype 't call =
    SStart 't
  | SSend 't
  | SIdle
  | SWorkers
  | SSpawn
  | SFull 't
  | SSpawnFull 't
  | SResend 't
  | SDirect 't
  | SReturned

record 't GoroutinePool =
  pl_taskQueue :: "'t list"
  pl_cap :: nat
  pl_cancelled :: bool
  pl_running :: bool
  pl_maxWorkers :: int
  pl_minWorkers :: int
  pl_workers :: int
  pl_idleWorkers :: int
  pl_goroutines :: "'t worker list"
  pl_calls :: "'t call list"
  pl_log :: "'t list"
  pl_submitted :: "'t list"

record PoolConfig =
  pc_MaxWorkers :: int
  pc_MinWorkers :: int
  pc_IdleTimeout :: int
  pc_QueueSize :: int

definition int32 :: "int \<Rightarrow> int" where
  "int32 n = (n + 2147483648) mod 4294967296 - 2147483648"

definition startWorker :: "'t GoroutinePool \<Rightarrow> 't GoroutinePool" where
  "startWorker p = p\<lparr>pl_workers := pl_workers p + 1, pl_goroutines := pl_goroutines p @ [WLoop]\<rparr>"

definition NewGoroutinePool :: "PoolConfig \<Rightarrow> 't GoroutinePool" where
  "NewGoroutinePool cfg =
     (let mx = (if pc_MaxWorkers cfg \<le> 0 then 10000 else pc_MaxWorkers cfg);
          mn0 = (if pc_MinWorkers cfg \<le> 0 then 100 else pc_MinWorkers cfg);
          mn = (if mn0 > mx then mx else mn0);
          qs = (if pc_QueueSize cfg \<le> 0 then 1000 else pc_QueueSize cfg);
          p = \<lparr>pl_taskQueue = [], pl_cap = nat qs, pl_cancelled = False, pl_running = False, pl_maxWorkers = int32 mx,
               pl_minWorkers = int32 mn, pl_workers = 0, pl_idleWorkers = 0, pl_goroutines = [], pl_calls = [],
               pl_log = [], pl_submitted = []\<rparr>
      in (startWorker ^^ nat mn) p)"

text \<open>The case a worker's \<open>select\<close> takes.\<close>

datatype choice = PickTask | PickTimer | PickDone

definition worker_select :: "choice \<Rightarrow> 't GoroutinePool \<Rightarrow> ('t worker \<times> 't GoroutinePool) option" where
  "worker_select c p =
     (case c of
        PickTask \<Rightarrow> (case pl_taskQueue p of [] \<Rightarrow> None | t # q \<Rightarrow> Some (WTake t, p\<lparr>pl_taskQueue := q\<rparr>))
      | PickTimer \<Rightarrow> Some (WTimer, p)
      | PickDone \<Rightarrow> if pl_cancelled p then Some (WDone, p) else None)"

fun worker_act :: "choice \<Rightarrow> 't worker \<Rightarrow> 't GoroutinePool \<Rightarrow> ('t worker \<times> 't GoroutinePool) option" where
  "worker_act c WLoop p = Some (WSelect, p\<lparr>pl_idleWorkers := pl_idleWorkers p + 1\<rparr>)"
| "worker_act c WSelect p = worker_select c p"
| "worker_act c (WTake t) p = Some (WRun t, p\<lparr>pl_idleWorkers := pl_idleWorkers p - 1\<rparr>)"
| "worker_act c (WRun t) p = Some (WLoop, p\<lparr>pl_log := pl_log p @ [t]\<rparr>)"
| "worker_act c WTimer p = Some (WCheck, p\<lparr>pl_idleWorkers := pl_idleWorkers p - 1\<rparr>)"
| "worker_act c WCheck p = Some (if pl_workers p > pl_minWorkers p then WLeave else WLoop, p)"
| "worker_act c WDone p = Some (WLeave, p\<lparr>pl_idleWorkers := pl_idleWorkers p - 1\<rparr>)"
| "worker_act c WLeave p = Some (WGone, p\<lparr>pl_workers := pl_workers p - 1\<rparr>)"
| "worker_act c WGone p = None"

text \<open>\<open>Submit\<close>; the sends to the queue are non-blocking.\<close>

definition enqueue :: "'t \<Rightarrow> 't GoroutinePool \<Rightarrow> 't GoroutinePool option" where
  "enqueue t p = (if length (pl_taskQueue p) < pl_cap p then Some (p\<lparr>pl_taskQueue := pl_taskQueue p @ [t]\<rparr>) else None)"

fun Submit_act :: "'t call \<Rightarrow> 't GoroutinePool \<Rightarrow> ('t call \<times> 't GoroutinePool) option" where
  "Submit_act (SStart t) p = Some (if pl_running p then SSend t else SDirect t, p)"
| "Submit_act (SSend t) p = Some (case enqueue t p of Some p' \<Rightarrow> (SIdle, p') | None \<Rightarrow> (SFull t, p))"
| "Submit_act SIdle p = Some (if pl_idleWorkers p = 0 then SWorkers else SReturned, p)"
| "Submit_act SWorkers p = Some (if pl_workers p < pl_maxWorkers p then SSpawn else SReturned, p)"
| "Submit_act SSpawn p = Some (SReturned, startWorker p)"
| "Submit_act (SFull t) p = Some (if pl_workers p < pl_maxWorkers p then SSpawnFull t else SDirect t, p)"
| "Submit_act (SSpawnFull t) p = Some (SResend t, startWorker p)"
| "Submit_act (SResend t) p = Some (case enqueue t p of Some p' \<Rightarrow> (SReturned, p') | None \<Rightarrow> (SDirect t, p))"
| "Submit_act (SDirect t) p = Some (SReturned, p\<lparr>pl_log := pl_log p @ [t]\<rparr>)"
| "Submit_act SReturned p = None"

definition Pool_Start :: "'t GoroutinePool \<Rightarrow> 't GoroutinePool" where
  "Pool_Start p = p\<lparr>pl_running := True\<rparr>"

text \<open>The two steps of \<open>Stop\<close>; the wait for the workers that follows changes nothing.\<close>

definition Stop_flag :: "'t GoroutinePool \<Rightarrow> 't GoroutinePool" where
  "Stop_flag p = p\<lparr>pl_running := False\<rparr>"

definition Stop_cancel :: "'t GoroutinePool \<Rightarrow> 't GoroutinePool" where
  "Stop_cancel p = p\<lparr>pl_cancelled := True\<rparr>"

record PoolStats =
  st_Workers :: int
  st_IdleWorkers :: int
  st_MaxWorkers :: int
  st_MinWorkers :: int
  st_QueueLen :: int
  st_QueueCap :: int

definition Pool_Stats :: "'t GoroutinePool \<Rightarrow> PoolStats" where
  "Pool_Stats p =
     \<lparr>st_Workers = pl_workers p, st_IdleWorkers = pl_idleWorkers p, st_MaxWorkers = pl_maxWorkers p,
      st_MinWorkers = pl_minWorkers p, st_QueueLen = int (length (pl_taskQueue p)), st_QueueCap = int (pl_cap p)\<rparr>"

datatype 't action = Work choice nat | Proceed nat | Call 't | Start | StopFlag | StopCancel

abbreviation active :: "'t call list \<Rightarrow> nat" where
  "active cs \<equiv> length (filter (\<lambda>s. s \<noteq> SReturned) cs)"

text \<open>At most \<open>k\<close> calls of \<open>Submit\<close> are under way at a time: the server handles that many requests at once.\<close>

fun pool_step :: "nat \<Rightarrow> 't action \<Rightarrow> 't GoroutinePool \<Rightarrow> 't GoroutinePool option" where
  "pool_step k (Work c i) p =
     (if i < length (pl_goroutines p) then
        (case worker_act c (pl_goroutines p ! i) p of
           Some (w, p') \<Rightarrow> Some (p'\<lparr>pl_goroutines := (pl_goroutines p')[i := w]\<rparr>)
         | None \<Rightarrow> None)
      else None)"
| "pool_step k (Proceed i) p =
     (if i < length (pl_calls p) then
        (case Submit_act (pl_calls p ! i) p of
           Some (s, p') \<Rightarrow> Some (p'\<lparr>pl_calls := (pl_calls p')[i := s]\<rparr>)
         | None \<Rightarrow> None)
      else None)"
| "pool_step k (Call t) p =
     (if active (pl_calls p) < k
      then Some (p\<lparr>pl_calls := pl_calls p @ [SStart t], pl_submitted := pl_submitted p @ [t]\<rparr>) else None)"
| "pool_step k Start p = Some (Pool_Start p)"
| "pool_step k StopFlag p = Some (Stop_flag p)"
| "pool_step k StopCancel p = Some (Stop_cancel p)"

inductive pool_run :: "nat \<Rightarrow> 't GoroutinePool \<Rightarrow> 't action list \<Rightarrow> 't GoroutinePool \<Rightarrow> bool" for k where
  run_nil: "pool_run k p [] p"
| run_step: "pool_step k a p = Some p1 \<Longrightarrow> pool_run k p1 as p2 \<Longrightarrow> pool_run k p (a # as) p2"

inductive_simps pool_run_Nil [simp]: "pool_run k p [] p'"
inductive_simps pool_run_Cons: "pool_run k p (a # as) p'"

lemma pool_run_invariant:
  assumes "pool_run k p as p'" "P p" "\<And>a q q'. a \<in> set as \<Longrightarrow> P q \<Longrightarrow> pool_step k a q = Some q' \<Longrightarrow> P q'"
  shows "P p'"
  using assms by (induction rule: pool_run.induct) auto

section \<open>Counters, bounds and tasks\<close>

text \<open>Sums over the goroutines change by what the one that moved contributes.\<close>

lemma sum_list_update_comm:
  fixes f :: "'a \<Rightarrow> 'b :: comm_monoid_add"
  assumes "i < length xs"
  shows "sum_list (map f (xs[i := y])) + f (xs ! i) = sum_list (map f xs) + f y"
proof -
  have "sum_list (map f xs) = sum_list (map f (take i xs)) + f (xs ! i) + sum_list (map f (drop (Suc i) xs))"
    using id_take_nth_drop [OF assms] by (metis (no_types, lifting) add.assoc list.simps(9) map_append sum_list.Cons sum_list.append)
  moreover have "sum_list (map f (xs[i := y])) = sum_list (map f (take i xs)) + f y + sum_list (map f (drop (Suc i) xs))"
    using assms by (simp add: upd_conv_take_nth_drop add.assoc)
  ultimately show ?thesis by (simp add: ac_simps)
qed

fun is_live :: "'t worker \<Rightarrow> int" where
  "is_live WGone = 0"
| "is_live _ = 1"

fun is_idle :: "'t worker \<Rightarrow> int" where
  "is_idle WSelect = 1"
| "is_idle (WTake _) = 1"
| "is_idle WTimer = 1"
| "is_idle WDone = 1"
| "is_idle _ = 0"

fun worker_task :: "'t worker \<Rightarrow> 't multiset" where
  "worker_task (WTake t) = {#t#}"
| "worker_task (WRun t) = {#t#}"
| "worker_task _ = {#}"

fun call_task :: "'t call \<Rightarrow> 't multiset" where
  "call_task (SStart t) = {#t#}"
| "call_task (SSend t) = {#t#}"
| "call_task (SFull t) = {#t#}"
| "call_task (SSpawnFull t) = {#t#}"
| "call_task (SResend t) = {#t#}"
| "call_task (SDirect t) = {#t#}"
| "call_task _ = {#}"

fun is_spawning :: "'t call \<Rightarrow> int" where
  "is_spawning SSpawn = 1"
| "is_spawning (SSpawnFull _) = 1"
| "is_spawning _ = 0"

fun is_active :: "'t call \<Rightarrow> int" where
  "is_active SReturned = 0"
| "is_active _ = 1"

definition live_workers :: "'t GoroutinePool \<Rightarrow> int" where
  "live_workers p = sum_list (map is_live (pl_goroutines p))"

definition waiting_workers :: "'t GoroutinePool \<Rightarrow> int" where
  "waiting_workers p = sum_list (map is_idle (pl_goroutines p))"

definition spawning_calls :: "'t GoroutinePool \<Rightarrow> int" where
  "spawning_calls p = sum_list (map is_spawning (pl_calls p))"

definition in_hand :: "'t GoroutinePool \<Rightarrow> 't multiset" where
  "in_hand p = sum_list (map worker_task (pl_goroutines p)) + sum_list (map call_task (pl_calls p))"

definition pool_inv :: "nat \<Rightarrow> 't GoroutinePool \<Rightarrow> bool" where
  "pool_inv k p \<longleftrightarrow>
     pl_workers p = live_workers p \<and> pl_idleWorkers p = waiting_workers p \<and>
     length (pl_taskQueue p) \<le> pl_cap p \<and>
     sum_list (map is_active (pl_calls p)) \<le> int k \<and>
     pl_workers p + spawning_calls p \<le> pl_maxWorkers p + int k - 1 \<and>
     mset (pl_submitted p) = mset (pl_log p) + mset (pl_taskQueue p) + in_hand p"

lemmas pool_counts = live_workers_def waiting_workers_def spawning_calls_def in_hand_def

lemma is_active_length: "sum_list (map is_active cs) = int (active cs)"
proof (induction cs)
  case (Cons c cs)
  then show ?case by (cases c) auto
qed simp

lemma spawning_le_active: "sum_list (map is_spawning cs) \<le> sum_list (map is_active cs)"
proof (induction cs)
  case (Cons c cs)
  then show ?case by (cases c) auto
qed simp

lemma pool_counts_update:
  assumes "i < length ws"
  shows "sum_list (map is_live (ws[i := w])) = sum_list (map is_live ws) - is_live (ws ! i) + is_live w"
    "sum_list (map is_idle (ws[i := w])) = sum_list (map is_idle ws) - is_idle (ws ! i) + is_idle w"
  using sum_list_update_comm [OF assms, of is_live w] sum_list_update_comm [OF assms, of is_idle w] by auto

lemma call_counts_update:
  assumes "i < length cs"
  shows "sum_list (map is_spawning (cs[i := c])) = sum_list (map is_spawning cs) - is_spawning (cs ! i) + is_spawning c"
    "sum_list (map is_active (cs[i := c])) = sum_list (map is_active cs) - is_active (cs ! i) + is_active c"
  using sum_list_update_comm [OF assms, of is_spawning c] sum_list_update_comm [OF assms, of is_active c] by auto

lemma task_update:
  assumes "i < length xs" "f (xs ! i) + A = f y + B"
  shows "sum_list (map f (xs[i := y])) + B = sum_list (map f xs) + (A :: 'a multiset)"
proof -
  have "sum_list (map f (xs[i := y])) + f (xs ! i) + (A + B) = sum_list (map f xs) + f y + (A + B)"
    using sum_list_update_comm [OF assms(1), of f y] by simp
  then have "(sum_list (map f (xs[i := y])) + B) + (f (xs ! i) + A) = (sum_list (map f xs) + A) + (f y + B)"
    by (simp add: ac_simps)
  then show ?thesis using assms(2) by simp
qed

text \<open>What one step of a worker does: its own contribution moves with the counters, the queue and the log.\<close>

lemma worker_act_effect:
  assumes "worker_act c w p = Some (w', p')"
  shows "pl_workers p' - is_live w' = pl_workers p - is_live w"
    "pl_idleWorkers p' - is_idle w' = pl_idleWorkers p - is_idle w"
    "mset (pl_log p') + mset (pl_taskQueue p') + worker_task w' = mset (pl_log p) + mset (pl_taskQueue p) + worker_task w"
    "length (pl_taskQueue p') \<le> length (pl_taskQueue p)" "pl_workers p' \<le> pl_workers p"
    "pl_goroutines p' = pl_goroutines p" "pl_calls p' = pl_calls p" "pl_submitted p' = pl_submitted p"
    "pl_cap p' = pl_cap p" "pl_maxWorkers p' = pl_maxWorkers p" "pl_minWorkers p' = pl_minWorkers p"
  using assms
  by (cases w; auto simp: worker_select_def split: choice.splits list.splits if_splits)+

lemma worker_step_inv:
  assumes inv: "pool_inv k p" and i: "i < length (pl_goroutines p)"
    and act: "worker_act c (pl_goroutines p ! i) p = Some (w, p')"
  shows "pool_inv k (p'\<lparr>pl_goroutines := (pl_goroutines p')[i := w]\<rparr>)"
proof -
  note e = worker_act_effect [OF act]
  have "sum_list (map worker_task ((pl_goroutines p)[i := w])) + (mset (pl_log p') + mset (pl_taskQueue p')) =
      sum_list (map worker_task (pl_goroutines p)) + (mset (pl_log p) + mset (pl_taskQueue p))"
    by (rule task_update [OF i]) (use e(3) in \<open>simp add: ac_simps\<close>)
  then have "mset (pl_submitted p) = mset (pl_log p') + mset (pl_taskQueue p') +
      (sum_list (map worker_task ((pl_goroutines p)[i := w])) + sum_list (map call_task (pl_calls p)))"
    using inv unfolding pool_inv_def in_hand_def by (simp add: ac_simps)
  then show ?thesis using inv e pool_counts_update [OF i, of w] by (auto simp: pool_inv_def pool_counts)
qed

lemma Submit_act_effect:
  assumes "Submit_act s p = Some (s', p')" "length (pl_taskQueue p) \<le> pl_cap p"
  shows "mset (pl_log p') + mset (pl_taskQueue p') + call_task s' = mset (pl_log p) + mset (pl_taskQueue p) + call_task s"
    "length (pl_taskQueue p') \<le> pl_cap p" "is_active s = 1"
    "pl_workers p' - live_workers p' = pl_workers p - live_workers p" "waiting_workers p' = waiting_workers p"
    "pl_workers p' + is_spawning s' \<le> max (pl_workers p + is_spawning s) (pl_maxWorkers p)"
    "sum_list (map worker_task (pl_goroutines p')) = sum_list (map worker_task (pl_goroutines p))"
    "pl_calls p' = pl_calls p" "pl_submitted p' = pl_submitted p" "pl_idleWorkers p' = pl_idleWorkers p"
    "pl_cap p' = pl_cap p" "pl_maxWorkers p' = pl_maxWorkers p" "pl_minWorkers p' = pl_minWorkers p"
  using assms
  by (cases s; auto simp: startWorker_def enqueue_def pool_counts split: option.splits if_splits)+

lemma spawning_nonneg: "0 \<le> sum_list (map is_spawning cs)"
proof (induction cs)
  case (Cons c cs)
  then show ?case by (cases c) auto
qed simp

lemma others_spawning:
  assumes "i < length cs"
  shows "sum_list (map is_spawning cs) - is_spawning (cs ! i) \<le> sum_list (map is_active cs) - is_active (cs ! i)"
  using spawning_le_active [of "cs[i := SReturned]"] call_counts_update [OF assms, of SReturned] by simp

lemma is_active_le: "0 \<le> is_active s" "is_active s \<le> 1"
  by (cases s; simp)+

lemma Submit_step_inv:
  assumes inv: "pool_inv k p" and i: "i < length (pl_calls p)"
    and act: "Submit_act (pl_calls p ! i) p = Some (s, p')"
  shows "pool_inv k (p'\<lparr>pl_calls := (pl_calls p')[i := s]\<rparr>)"
proof -
  have q: "length (pl_taskQueue p) \<le> pl_cap p" using inv by (simp add: pool_inv_def)
  note e = Submit_act_effect [OF act q]
  note cs = call_counts_update [OF i, of s]
  have "sum_list (map call_task ((pl_calls p)[i := s])) + (mset (pl_log p') + mset (pl_taskQueue p')) =
      sum_list (map call_task (pl_calls p)) + (mset (pl_log p) + mset (pl_taskQueue p))"
    by (rule task_update [OF i]) (use e(1) in \<open>simp add: ac_simps\<close>)
  then have tasks: "mset (pl_submitted p) = mset (pl_log p') + mset (pl_taskQueue p') +
      (sum_list (map worker_task (pl_goroutines p)) + sum_list (map call_task ((pl_calls p)[i := s])))"
    using inv unfolding pool_inv_def in_hand_def by (simp add: ac_simps)
  have bound: "pl_workers p' + sum_list (map is_spawning ((pl_calls p)[i := s])) \<le> pl_maxWorkers p + int k - 1"
    using e(3,6) others_spawning [OF i] cs(1) inv unfolding pool_inv_def spawning_calls_def by linarith
  have "sum_list (map is_active ((pl_calls p)[i := s])) \<le> int k"
    using cs(2) e(3) is_active_le [of s] inv unfolding pool_inv_def by linarith
  then show ?thesis using inv e tasks bound by (auto simp: pool_inv_def pool_counts)
qed

lemma pool_step_inv:
  assumes "pool_inv k p" "pool_step k a p = Some p'"
  shows "pool_inv k p'"
proof (cases a)
  case (Work c i)
  then show ?thesis using assms worker_step_inv [OF assms(1)] by (auto split: if_splits option.splits)
next
  case (Proceed i)
  then show ?thesis using assms Submit_step_inv [OF assms(1)] by (auto split: if_splits option.splits)
next
  case (Call t)
  then show ?thesis using assms by (auto simp: pool_inv_def pool_counts is_active_length split: if_splits)
qed (use assms in \<open>auto simp: pool_inv_def pool_counts Pool_Start_def Stop_flag_def Stop_cancel_def\<close>)

lemma pool_step_max: "pool_step k a p = Some p' \<Longrightarrow> pl_maxWorkers p' = pl_maxWorkers p"
proof (cases a)
  case (Work c i)
  assume "pool_step k a p = Some p'"
  then show ?thesis using Work by (auto dest: worker_act_effect(10) split: if_splits option.splits)
next
  case (Proceed i)
  assume "pool_step k a p = Some p'"
  then show ?thesis using Proceed
    by (cases "pl_calls p ! i"; auto simp: startWorker_def enqueue_def split: if_splits option.splits)
qed (auto simp: Pool_Start_def Stop_flag_def Stop_cancel_def split: if_splits)

lemma startWorkers:
  "(startWorker ^^ n) p = p\<lparr>pl_workers := pl_workers p + int n, pl_goroutines := pl_goroutines p @ replicate n WLoop\<rparr>"
proof (induction n)
  case (Suc n)
  then show ?case by (simp add: startWorker_def replicate_append_same [symmetric])
qed simp

lemma int32_id: "0 \<le> n \<Longrightarrow> n < 2147483648 \<Longrightarrow> int32 n = n"
  by (simp add: int32_def)

lemma sum_replicate_empty: "sum_list (replicate n {#}) = {#}"
  by (induction n) auto

lemma NewGoroutinePool_inv:
  assumes "pc_MaxWorkers cfg < 2147483648" "k \<ge> 1"
  shows "pool_inv k (NewGoroutinePool cfg)"
  using assms
  by (auto simp: NewGoroutinePool_def Let_def startWorkers pool_inv_def pool_counts sum_list_replicate sum_replicate_empty int32_id)

text \<open>In every schedule of a new pool with at most \<open>k\<close> calls of \<open>Submit\<close> at a time: the counters are exact, so that
  \<open>Stats\<close> reports the workers that exist and those that wait; the workers exceed the maximum by at most the
  calls that may decide at the same time, and not at all when the calls come one after the other; the queue keeps
  its capacity; and no task is lost or run twice: the submitted tasks are those run, those queued and those in the
  hands of a worker or of their call.\<close>

theorem pool_conserves_tasks:
  fixes p :: "'t GoroutinePool"
  assumes "pc_MaxWorkers cfg < 2147483648" "k \<ge> 1" "pool_run k (NewGoroutinePool cfg) as p"
  shows "st_Workers (Pool_Stats p) = live_workers p \<and> st_IdleWorkers (Pool_Stats p) = waiting_workers p \<and>
    live_workers p \<le> pl_maxWorkers (NewGoroutinePool cfg :: 't GoroutinePool) + int k - 1 \<and>
    st_QueueLen (Pool_Stats p) \<le> st_QueueCap (Pool_Stats p) \<and>
    mset (pl_submitted p) = mset (pl_log p) + mset (pl_taskQueue p) + in_hand p"
proof -
  have "pool_inv k p \<and> pl_maxWorkers p = pl_maxWorkers (NewGoroutinePool cfg :: 't GoroutinePool)"
    by (rule pool_run_invariant [OF assms(3), where P = "\<lambda>q. pool_inv k q \<and> pl_maxWorkers q = pl_maxWorkers (NewGoroutinePool cfg :: 't GoroutinePool)"])
      (auto simp: NewGoroutinePool_inv [OF assms(1,2)] pool_step_max intro: pool_step_inv)
  moreover have "spawning_calls p \<ge> 0" by (simp add: spawning_calls_def spawning_nonneg)
  ultimately show ?thesis by (auto simp: pool_inv_def Pool_Stats_def)
qed

section \<open>\<open>Submit\<close> returns\<close>

text \<open>The steps a call still has to take.\<close>

fun call_rank :: "'t call \<Rightarrow> nat" where
  "call_rank (SStart _) = 6"
| "call_rank (SSend _) = 5"
| "call_rank (SFull _) = 4"
| "call_rank (SSpawnFull _) = 3"
| "call_rank (SResend _) = 2"
| "call_rank (SDirect _) = 1"
| "call_rank SIdle = 3"
| "call_rank SWorkers = 2"
| "call_rank SSpawn = 1"
| "call_rank SReturned = 0"

lemma Submit_act_progress:
  "s \<noteq> SReturned \<Longrightarrow> \<exists>s' p'. Submit_act s p = Some (s', p') \<and> call_rank s' < call_rank s"
  by (cases s) (auto split: option.split)

lemma pool_step_calls:
  assumes "pool_step k a p = Some p'" "i < length (pl_calls p)"
  shows "i < length (pl_calls p') \<and>
    (if a = Proceed i then call_rank (pl_calls p' ! i) < call_rank (pl_calls p ! i) else pl_calls p' ! i = pl_calls p ! i)"
proof (cases a)
  case (Work c j)
  then show ?thesis using assms by (auto dest: worker_act_effect(7) split: if_splits option.splits)
next
  case (Proceed j)
  have keep: "pl_calls q = pl_calls p" if "Submit_act s p = Some (s', q)" for s s' q
    using that by (cases s) (auto simp: startWorker_def enqueue_def split: option.splits if_splits)
  have down: "call_rank s' < call_rank s" if "Submit_act s p = Some (s', q)" for s s' q
    using that by (cases s) (auto split: option.splits if_splits)
  obtain s q where q: "Submit_act (pl_calls p ! j) p = Some (s, q)" "p' = q\<lparr>pl_calls := (pl_calls q)[j := s]\<rparr>"
    using Proceed assms(1) by (auto split: if_splits option.splits)
  then show ?thesis using keep [OF q(1)] down [OF q(1)] assms(2) Proceed by (auto simp: nth_list_update)
qed (use assms in \<open>auto simp: nth_append Pool_Start_def Stop_flag_def Stop_cancel_def split: if_splits\<close>)

lemma submit_steps_bounded:
  "pool_run k p as p' \<Longrightarrow> i < length (pl_calls p) \<Longrightarrow>
     i < length (pl_calls p') \<and> length (filter (\<lambda>a. a = Proceed i) as) + call_rank (pl_calls p' ! i) \<le> call_rank (pl_calls p ! i)"
proof (induction rule: pool_run.induct)
  case (run_step a p p1 as p2)
  note s = pool_step_calls [OF run_step.hyps(1) run_step.prems]
  have "i < length (pl_calls p1)" using s by blast
  from run_step.IH [OF this] show ?case using s by (auto split: if_splits)
qed simp

text \<open>A call of \<open>Submit\<close> never waits: whatever the workers and the other calls do, it can always take its next step
  until it has returned, and it returns after at most six of them.\<close>

theorem submit_returns:
  assumes "pool_run k p as p'" "i < length (pl_calls p)"
  shows "length (filter (\<lambda>a. a = Proceed i) as) \<le> 6 \<and>
    (pl_calls p' ! i = SReturned \<or> (\<exists>q. pool_step k (Proceed i) p' = Some q))"
proof -
  have "call_rank s \<le> 6" for s :: "'a call" by (cases s) auto
  then have "length (filter (\<lambda>a. a = Proceed i) as) \<le> 6"
    using submit_steps_bounded [OF assms] by (meson add_leE le_trans)
  moreover have "pl_calls p' ! i = SReturned \<or> (\<exists>q. pool_step k (Proceed i) p' = Some q)"
    using submit_steps_bounded [OF assms] Submit_act_progress [of "pl_calls p' ! i" p'] by fastforce
  ultimately show ?thesis by blast
qed

section \<open>Tasks left behind\<close>

definition small_pool :: "nat GoroutinePool" where
  "small_pool = NewGoroutinePool \<lparr>pc_MaxWorkers = 2, pc_MinWorkers = 1, pc_IdleTimeout = 60, pc_QueueSize = 4\<rparr>"

fun run_acts :: "nat \<Rightarrow> 't action list \<Rightarrow> 't GoroutinePool \<Rightarrow> 't GoroutinePool option" where
  "run_acts k [] p = Some p"
| "run_acts k (a # as) p = (case pool_step k a p of None \<Rightarrow> None | Some p' \<Rightarrow> run_acts k as p')"

lemma run_acts_run: "run_acts k as p = Some p' \<Longrightarrow> pool_run k p as p'"
  by (induction as arbitrary: p) (auto simp: pool_run_Cons split: option.splits)

text \<open>Task 0 arrives before the first worker has reached its \<open>select\<close>, so that a second one is started; both
  then wait until their timers fire, and task 1 arrives before they have said so.\<close>

definition strand_acts :: "nat action list" where
  "strand_acts =
     Start # Call 0 # replicate 5 (Proceed 0) @
     [Work PickTask 0, Work PickTask 0, Work PickTask 0, Work PickTask 0, Work PickTask 0, Work PickTask 1,
      Work PickTimer 0, Work PickTimer 1, Call 1, Proceed 1, Proceed 1, Proceed 1,
      Work PickTask 0, Work PickTask 1, Work PickTask 0, Work PickTask 1, Work PickTask 0, Work PickTask 1]"

fun is_Call :: "'t action \<Rightarrow> bool" where
  "is_Call (Call _) = True"
| "is_Call _ = False"

definition stranded :: "'t GoroutinePool \<Rightarrow> bool" where
  "stranded p \<longleftrightarrow> list_all (\<lambda>w. w = WGone) (pl_goroutines p) \<and> list_all (\<lambda>s. s = SReturned) (pl_calls p)"

lemma stranded_step:
  assumes "stranded p" "pool_step k a p = Some p'" "\<not> is_Call a"
  shows "stranded p' \<and> pl_log p' = pl_log p"
  using assms
  by (cases a) (auto simp: stranded_def list_all_length Pool_Start_def Stop_flag_def Stop_cancel_def split: if_splits)

lemma stranded_run:
  assumes "stranded p" "pool_run k p as p'" "list_all (\<lambda>a. \<not> is_Call a) as"
  shows "pl_log p' = pl_log p"
proof -
  have "stranded p' \<and> pl_log p' = pl_log p"
    by (rule pool_run_invariant [OF assms(2), where P = "\<lambda>q. stranded q \<and> pl_log q = pl_log p"])
      (use assms(1,3) stranded_step in \<open>fastforce simp: list_all_iff\<close>)+
  then show ?thesis ..
qed

text \<open>The check of \<open>minWorkers\<close> and the departure are separate steps: two workers whose timers fire together both
  see two workers, and both leave although one is to stay. A task that was queued while they were still counted as
  idle started no worker, and stays in the queue of the running pool until another request arrives.\<close>

theorem pool_strands_task:
  "\<exists>p. pool_run 1 small_pool strand_acts p \<and> pl_running p \<and> \<not> pl_cancelled p \<and> pl_workers p = 0 \<and>
       pl_minWorkers p = 1 \<and> pl_taskQueue p = [1] \<and>
       (\<nexists>as q. list_all (\<lambda>a. \<not> is_Call a) as \<and> pool_run 1 p as q \<and> 1 \<in> set (pl_log q))"
proof -
  let ?p = "the (run_acts 1 strand_acts small_pool)"
  have some: "run_acts 1 strand_acts small_pool = Some ?p" by code_simp
  have st: "stranded ?p" "1 \<notin> set (pl_log ?p)" by code_simp+
  have "\<nexists>as q. list_all (\<lambda>a. \<not> is_Call a) as \<and> pool_run 1 ?p as q \<and> 1 \<in> set (pl_log q)"
    using stranded_run [OF st(1)] st(2) by metis
  moreover have "pl_running ?p \<and> \<not> pl_cancelled ?p \<and> pl_workers ?p = 0 \<and> pl_minWorkers ?p = 1 \<and> pl_taskQueue ?p = [1]"
    by code_simp
  ultimately show ?thesis using run_acts_run [OF some] by blast
qed

theorem pool_conserves_tasks_witness:
  "\<exists>p. pool_run 1 small_pool strand_acts p \<and> st_Workers (Pool_Stats p) = live_workers p \<and>
     mset (pl_submitted p) = mset (pl_log p) + mset (pl_taskQueue p) + in_hand p"
proof -
  let ?p = "the (run_acts 1 strand_acts small_pool)"
  have "run_acts 1 strand_acts small_pool = Some ?p" by code_simp
  from run_acts_run [OF this] have r: "pool_run 1 small_pool strand_acts ?p" .
  then have "pool_run 1 (NewGoroutinePool \<lparr>pc_MaxWorkers = 2, pc_MinWorkers = 1, pc_IdleTimeout = 60, pc_QueueSize = 4\<rparr>) strand_acts ?p"
    by (simp add: small_pool_def)
  from pool_conserves_tasks [OF _ _ this] r show ?thesis by auto
qed

theorem submit_returns_witness:
  "\<exists>p'. pool_run 1 (small_pool\<lparr>pl_calls := [SStart 7]\<rparr>) [Proceed 0, Proceed 0] p' \<and> pl_calls p' ! 0 = SReturned"
proof -
  let ?p = "small_pool\<lparr>pl_calls := [SStart 7]\<rparr>"
  let ?q = "the (run_acts 1 [Proceed 0, Proceed 0] ?p)"
  have "run_acts 1 [Proceed 0, Proceed 0] ?p = Some ?q" by code_simp
  from run_acts_run [OF this] have r: "pool_run 1 ?p [Proceed 0, Proceed 0] ?q" .
  have "pool_step 1 (Proceed 0) ?q = None" by code_simp
  then have "pl_calls ?q ! 0 = SReturned" using submit_returns [OF r, of 0] by simp
  then show ?thesis using r by blast
qed

end
