(* ===== verification/Auth.thy ===== *)
theory Auth
  imports Middleware Sticky "HOL-Library.Word"
begin

text \<open>
  Authentication: \<^verbatim>\<open>internal/middleware/security/auth.go\<close> (Basic authentication against stored password hashes) and
  \<^verbatim>\<open>internal/middleware/security/auth_request.go\<close> (a subrequest decides). The hash functions of the packages \<open>bcrypt\<close> and
  \<open>argon2\<close> are the parameter \<open>pw\<close>, the HTTP client and the expansion of variables the parameter \<open>env\<close>. The parameters
  of an Argon2 hash are words of the width the code parses them into. \<open>argon2.IDKey\<close> panics on some parameters; a
  panic is the value \<open>None\<close>.

  The configuration does not tell a missing list of forwarded headers from an empty one: the empty list stands for a
  missing one.
\<close>

section \<open>\<open>base64.StdEncoding\<close> and \<open>base64.RawStdEncoding\<close>\<close>

text \<open>The standard alphabet differs from that of the URL encoding in its last two characters.\<close>

definition url_of_std :: "char \<Rightarrow> char" where
  "url_of_std c =
     (if c = CHR ''+'' then CHR ''-'' else if c = CHR ''/'' then CHR ''_''
      else if c = CHR ''-'' \<or> c = CHR ''_'' then CHR ''+'' else c)"

definition std_of_url :: "char \<Rightarrow> char" where
  "std_of_url c = (if c = CHR ''-'' then CHR ''+'' else if c = CHR ''_'' then CHR ''/'' else c)"

definition StdEncode :: "string \<Rightarrow> string" where
  "StdEncode s = map std_of_url (EncodeToString s)"

definition StdDecode :: "string \<Rightarrow> string option" where
  "StdDecode s = DecodeString (map url_of_std s)"

definition RawStdDecode :: "string \<Rightarrow> string option" where
  "RawStdDecode s0 =
     (let s = filter (\<lambda>c. c \<noteq> CHR 0x0D \<and> c \<noteq> CHR 0x0A) s0
      in if CHR ''='' \<in> set s \<or> length s mod 4 = 1 then None
         else StdDecode (s @ replicate ((4 - length s mod 4) mod 4) (CHR ''='')))"

section \<open>Basic authentication\<close>

datatype HashAlgorithm = HashBcrypt | HashArgon2id

record argon2Params =
  a2_time :: "32 word"
  a2_memory :: "32 word"
  a2_threads :: "8 word"
  a2_saltLen :: "32 word"
  a2_keyLen :: "32 word"

record BasicAuth =
  ba_users :: "string \<rightharpoonup> string"
  ba_realm :: string
  ba_algorithm :: HashAlgorithm
  ba_requireTLS :: bool

record pw_env =
  pw_bcrypt :: "string \<Rightarrow> string \<Rightarrow> bool"
  pw_IDKey :: "string \<Rightarrow> string \<Rightarrow> 32 word \<Rightarrow> 32 word \<Rightarrow> 8 word \<Rightarrow> 32 word \<Rightarrow> string option"

datatype auth_error =
    NilConfig
  | UnsupportedType string
  | NoUsers
  | UnsupportedAlgorithm string
  | EmptyUsername
  | EmptyPassword string
  | InvalidHash string
  | URIRequired
  | InvalidURL

definition defaultArgon2Params :: argon2Params where
  "defaultArgon2Params = \<lparr>a2_time = 3, a2_memory = 65536, a2_threads = 4, a2_saltLen = 16, a2_keyLen = 32\<rparr>"

definition validatePasswordHash :: "string \<Rightarrow> HashAlgorithm \<Rightarrow> bool" where
  "validatePasswordHash hash alg =
     (case alg of HashBcrypt \<Rightarrow> HasPrefix hash ''$2'' | HashArgon2id \<Rightarrow> HasPrefix hash ''$argon2id$'')"

fun load_users :: "HashAlgorithm \<Rightarrow> User list \<Rightarrow> (string \<rightharpoonup> string) \<Rightarrow> auth_error + (string \<rightharpoonup> string)" where
  "load_users alg [] m = Inr m"
| "load_users alg (u # us) m =
     (if us_Name u = [] then Inl EmptyUsername
      else if us_Password u = [] then Inl (EmptyPassword (us_Name u))
      else if \<not> validatePasswordHash (us_Password u) alg then Inl (InvalidHash (us_Name u))
      else load_users alg us (m(us_Name u \<mapsto> us_Password u)))"

definition parse_algorithm :: "string \<Rightarrow> HashAlgorithm option" where
  "parse_algorithm s =
     (let a = ToLower s
      in if a = ''bcrypt'' \<or> a = [] then Some HashBcrypt else if a = ''argon2id'' then Some HashArgon2id else None)"

definition NewBasicAuth :: "AuthConfig option \<Rightarrow> auth_error + BasicAuth" where
  "NewBasicAuth cfg0 =
     (case cfg0 of
        None \<Rightarrow> Inl NilConfig
      | Some cfg \<Rightarrow>
          if au_Type cfg \<noteq> ''basic'' then Inl (UnsupportedType (au_Type cfg))
          else if au_Users cfg = [] then Inl NoUsers
          else case parse_algorithm (au_Algorithm cfg) of
                 None \<Rightarrow> Inl (UnsupportedAlgorithm (au_Algorithm cfg))
               | Some alg \<Rightarrow>
                   (case load_users alg (au_Users cfg) Map.empty of
                      Inl e \<Rightarrow> Inl e
                    | Inr users \<Rightarrow>
                        Inr \<lparr>ba_users = users,
                             ba_realm = (if au_Realm cfg \<noteq> [] then au_Realm cfg else ''Restricted Area''),
                             ba_algorithm = alg, ba_requireTLS = au_RequireTLS cfg\<rparr>))"

definition parseUint32 :: "string \<Rightarrow> 32 word" where
  "parseUint32 s = foldl (\<lambda>r c. if is_digit c then r * 10 + of_nat (digit_val c) else r) 0 s"

definition parseUint8 :: "string \<Rightarrow> 8 word" where
  "parseUint8 s = foldl (\<lambda>r c. if is_digit c then r * 10 + of_nat (digit_val c) else r) 0 s"

definition argon2_param :: "argon2Params \<Rightarrow> string \<Rightarrow> argon2Params" where
  "argon2_param params p =
     (case Split p (CHR ''='') of
        [k, v] \<Rightarrow>
          (if k = ''m'' then params\<lparr>a2_memory := parseUint32 v\<rparr>
           else if k = ''t'' then params\<lparr>a2_time := parseUint32 v\<rparr>
           else if k = ''p'' then params\<lparr>a2_threads := parseUint8 v\<rparr>
           else params)
      | _ \<Rightarrow> params)"

definition parseArgon2idHash :: "string \<Rightarrow> (argon2Params \<times> string \<times> string) option" where
  "parseArgon2idHash hash =
     (case Split hash (CHR ''$'') of
        [_, alg, version, paramsStr, salt64, hash64] \<Rightarrow>
          if alg \<noteq> ''argon2id'' then None
          else if version \<noteq> ''v=19'' then None
          else
            let params = foldl argon2_param defaultArgon2Params (Split paramsStr (CHR '',''))
            in (case RawStdDecode salt64 of
                  None \<Rightarrow> None
                | Some salt \<Rightarrow>
                    (case RawStdDecode hash64 of
                       None \<Rightarrow> None
                     | Some expectedHash \<Rightarrow>
                         Some (params\<lparr>a2_keyLen := of_nat (length expectedHash)\<rparr>, salt, expectedHash)))
      | _ \<Rightarrow> None)"

definition authenticateArgon2id :: "pw_env \<Rightarrow> string \<Rightarrow> string \<Rightarrow> bool option" where
  "authenticateArgon2id pw password hash =
     (case parseArgon2idHash hash of
        None \<Rightarrow> Some False
      | Some (params, salt, expectedHash) \<Rightarrow>
          map_option (\<lambda>actualHash. actualHash = expectedHash)
            (pw_IDKey pw password salt (a2_time params) (a2_memory params) (a2_threads params) (a2_keyLen params)))"

definition Authenticate :: "pw_env \<Rightarrow> BasicAuth \<Rightarrow> string \<Rightarrow> string \<Rightarrow> bool option" where
  "Authenticate pw ba username password =
     (case ba_users ba username of
        None \<Rightarrow> Some False
      | Some hashedPassword \<Rightarrow>
          (case ba_algorithm ba of
             HashBcrypt \<Rightarrow> Some (pw_bcrypt pw hashedPassword password)
           | HashArgon2id \<Rightarrow> authenticateArgon2id pw password hashedPassword))"

definition extractCredentials :: "request \<Rightarrow> (string \<times> string) option" where
  "extractCredentials r =
     (let authStr = hdr_Peek (hr_Headers r) ''Authorization''
      in if authStr = [] then None
         else if \<not> HasPrefix authStr ''Basic '' then None
         else case StdDecode (TrimPrefix authStr ''Basic '') of
                None \<Rightarrow> None
              | Some credentials \<Rightarrow>
                  (case IndexByte credentials (CHR '':'') of
                     None \<Rightarrow> None
                   | Some i \<Rightarrow> Some (take i credentials, drop (i + 1) credentials)))"

definition sendAuthChallenge :: "fh \<Rightarrow> BasicAuth \<Rightarrow> exchange \<Rightarrow> exchange" where
  "sendAuthChallenge f ba x =
     ctx_Error f ''Unauthorized'' 401
       (set_resp_header ''WWW-Authenticate''
         (''Basic realm='' @ [CHR 0x22] @ ba_realm ba @ [CHR 0x22] @ '', charset='' @ [CHR 0x22] @ ''UTF-8'' @ [CHR 0x22]) x)"

definition BasicAuth_Process :: "fh \<Rightarrow> pw_env \<Rightarrow> BasicAuth \<Rightarrow> handler \<Rightarrow> exchange \<Rightarrow> exchange option" where
  "BasicAuth_Process f pw ba next x =
     (if ba_requireTLS ba \<and> \<not> hr_IsTLS (x_request x)
      then Some (ctx_Error f ''Forbidden: HTTPS required for authentication'' 403 x)
      else case extractCredentials (x_request x) of
             None \<Rightarrow> Some (sendAuthChallenge f ba x)
           | Some (username, password) \<Rightarrow>
               (case Authenticate pw ba username password of
                  None \<Rightarrow> None
                | Some False \<Rightarrow> Some (sendAuthChallenge f ba x)
                | Some True \<Rightarrow> Some (next (set_user ''remote_user'' username x))))"

definition AddUser :: "string \<Rightarrow> string \<Rightarrow> BasicAuth \<Rightarrow> auth_error + BasicAuth" where
  "AddUser username hashedPassword ba =
     (if username = [] then Inl EmptyUsername
      else if \<not> validatePasswordHash hashedPassword (ba_algorithm ba) then Inl (InvalidHash username)
      else Inr (ba\<lparr>ba_users := (ba_users ba)(username \<mapsto> hashedPassword)\<rparr>))"

definition RemoveUser :: "string \<Rightarrow> BasicAuth \<Rightarrow> BasicAuth" where
  "RemoveUser username ba = ba\<lparr>ba_users := (ba_users ba)(username := None)\<rparr>"

definition UpdateUser :: "string \<Rightarrow> string \<Rightarrow> BasicAuth \<Rightarrow> auth_error + BasicAuth" where
  "UpdateUser username hashedPassword ba = AddUser username hashedPassword ba"

definition HasUser :: "string \<Rightarrow> BasicAuth \<Rightarrow> bool" where
  "HasUser username ba \<longleftrightarrow> (case ba_users ba username of Some h \<Rightarrow> h \<noteq> [] | None \<Rightarrow> False)"

definition UserCount :: "BasicAuth \<Rightarrow> nat" where
  "UserCount ba = card (dom (ba_users ba))"

section \<open>Authentication by a subrequest\<close>

record AuthRequest =
  aq_client :: "(string \<times> bool) option"
  aq_config :: AuthRequestConfig

record subrequest =
  sr_Method :: string
  sr_URI :: string
  sr_Headers :: headers

text \<open>\<open>env_do\<close> is the exchange of the client for the address, or of the default client, with the status or an
  error; \<open>env_expand\<close> the expansion of a template in the request.\<close>

record auth_env =
  env_do :: "(string \<times> bool) option \<Rightarrow> subrequest \<Rightarrow> int option"
  env_expand :: "request \<Rightarrow> string \<Rightarrow> string"

definition upper_char :: "char \<Rightarrow> char" where
  "upper_char c = (if 97 \<le> (of_char c :: nat) \<and> (of_char c :: nat) \<le> 122 then char_of ((of_char c :: nat) - 32) else c)"

definition ToUpper :: "string \<Rightarrow> string" where
  "ToUpper s = map upper_char s"

definition applyDefaults :: "AuthRequestConfig \<Rightarrow> AuthRequestConfig" where
  "applyDefaults cfg =
     (let cfg = (if ar_Method cfg = [] then cfg\<lparr>ar_Method := ''GET''\<rparr> else cfg);
          cfg = cfg\<lparr>ar_Method := ToUpper (ar_Method cfg)\<rparr>;
          cfg = (if ar_Timeout cfg = 0 then cfg\<lparr>ar_Timeout := 5 * second\<rparr> else cfg)
      in if ar_ForwardHeaders cfg = [] then cfg\<lparr>ar_ForwardHeaders := [''Cookie'', ''Authorization'', ''X-Forwarded-For'', ''X-Real-Ip'']\<rparr>
         else cfg)"

definition isFullURL :: "string \<Rightarrow> bool" where
  "isFullURL uri \<longleftrightarrow> HasPrefix uri ''http://'' \<or> HasPrefix uri ''https://''"

text \<open>\<open>net.SplitHostPort\<close> accepts the address; \<open>net.JoinHostPort\<close>.\<close>

definition SplitHostPort_ok :: "string \<Rightarrow> bool" where
  "SplitHostPort_ok s =
     (case IndexByte (rev s) (CHR '':'') of
        None \<Rightarrow> False
      | Some r \<Rightarrow>
          let i = length s - 1 - r
          in if HasPrefix s ''['' then
               (case IndexByte s (CHR '']'') of
                  None \<Rightarrow> False
                | Some e \<Rightarrow>
                    e + 1 = i \<and> CHR ''['' \<notin> set (drop 1 s) \<and> CHR '']'' \<notin> set (drop (e + 1) s))
             else CHR '':'' \<notin> set (take i s) \<and> CHR ''['' \<notin> set s \<and> CHR '']'' \<notin> set s)"

definition JoinHostPort :: "string \<Rightarrow> string \<Rightarrow> string" where
  "JoinHostPort host port =
     (if CHR '':'' \<in> set host then ''['' @ host @ '']:'' @ port else host @ '':'' @ port)"

definition cut_at :: "char \<Rightarrow> string \<Rightarrow> string" where
  "cut_at c s = (case IndexByte s c of Some i \<Rightarrow> take i s | None \<Rightarrow> s)"

definition parseAuthURL :: "string \<Rightarrow> (string \<times> bool) option" where
  "parseAuthURL url0 =
     (let (url, isTLS) =
            (if HasPrefix url0 ''https://'' then (TrimPrefix url0 ''https://'', True)
             else if HasPrefix url0 ''http://'' then (drop 7 url0, False)
             else (url0, False));
          host = cut_at (CHR ''?'') (cut_at (CHR ''/'') url)
      in if host = [] then None
         else Some (if SplitHostPort_ok host then host else JoinHostPort host (if isTLS then ''443'' else ''80''), isTLS))"

definition NewAuthRequest :: "AuthRequestConfig \<Rightarrow> auth_error + AuthRequest" where
  "NewAuthRequest cfg0 =
     (if \<not> ar_Enabled cfg0 then Inr \<lparr>aq_client = None, aq_config = cfg0\<rparr>
      else if ar_URI cfg0 = [] then Inl URIRequired
      else
        let cfg = applyDefaults cfg0
        in if isFullURL (ar_URI cfg) then
             (case parseAuthURL (ar_URI cfg) of
                None \<Rightarrow> Inl InvalidURL
              | Some c \<Rightarrow> Inr \<lparr>aq_client = Some c, aq_config = cfg\<rparr>)
           else Inr \<lparr>aq_client = None, aq_config = cfg\<rparr>)"

definition expandVars :: "auth_env \<Rightarrow> request \<Rightarrow> string \<Rightarrow> string" where
  "expandVars env r tmpl =
     (if tmpl = [] then [] else if \<not> Contains tmpl ''$'' then tmpl else env_expand env r tmpl)"

definition auth_subrequest :: "auth_env \<Rightarrow> AuthRequest \<Rightarrow> request \<Rightarrow> subrequest" where
  "auth_subrequest env a r =
     (let uri0 = expandVars env r (ar_URI (aq_config a));
          host = (if hr_Host r = [] then ''localhost'' else hr_Host r);
          uri = (if isFullURL uri0 then uri0 else (if hr_IsTLS r then ''https'' else ''http'') @ ''://'' @ host @ uri0);
          forwarded = foldl (\<lambda>hs n. if hdr_Peek (hr_Headers r) n \<noteq> [] then hdr_Set n (hdr_Peek (hr_Headers r) n) hs else hs)
                        [] (ar_ForwardHeaders (aq_config a));
          custom = foldl (\<lambda>hs (k, v). hdr_Set k (expandVars env r v) hs) forwarded (ar_Headers (aq_config a))
      in \<lparr>sr_Method = ar_Method (aq_config a), sr_URI = uri, sr_Headers = custom\<rparr>)"

text \<open>The outcome: an error, or whether the request is allowed and the status.\<close>

definition doAuthRequest :: "auth_env \<Rightarrow> AuthRequest \<Rightarrow> request \<Rightarrow> (bool \<times> int) option" where
  "doAuthRequest env a r =
     (case env_do env (aq_client a) (auth_subrequest env a r) of
        None \<Rightarrow> None
      | Some statusCode \<Rightarrow>
          if statusCode \<ge> 200 \<and> statusCode < 300 then Some (True, statusCode)
          else if statusCode = 401 \<or> statusCode = 403 then Some (False, statusCode)
          else Some (False, 500))"

definition AuthRequest_Process :: "fh \<Rightarrow> auth_env \<Rightarrow> AuthRequest \<Rightarrow> middleware" where
  "AuthRequest_Process f env a next x =
     (if \<not> ar_Enabled (aq_config a) then next x
      else case doAuthRequest env a (x_request x) of
             None \<Rightarrow> ctx_Error f ''Internal Server Error'' 500 x
           | Some (allowed, statusCode) \<Rightarrow>
               if \<not> allowed then ctx_Error f ''Unauthorized'' statusCode x else next x)"

text \<open>A configuration whose URI is a full URL without a host is stored before the error is found.\<close>

definition AuthRequest_UpdateConfig :: "AuthRequestConfig \<Rightarrow> AuthRequest \<Rightarrow> auth_error option \<times> AuthRequest" where
  "AuthRequest_UpdateConfig cfg0 a =
     (if \<not> ar_Enabled cfg0 then (None, a\<lparr>aq_config := cfg0, aq_client := None\<rparr>)
      else if ar_URI cfg0 = [] then (Some URIRequired, a)
      else
        let cfg = applyDefaults cfg0; a = a\<lparr>aq_config := cfg\<rparr>
        in if isFullURL (ar_URI cfg) then
             (case parseAuthURL (ar_URI cfg) of
                None \<Rightarrow> (Some InvalidURL, a)
              | Some c \<Rightarrow> (None, a\<lparr>aq_client := Some c\<rparr>))
           else (None, a\<lparr>aq_client := None\<rparr>))"

definition AuthRequest_Close :: "AuthRequest \<Rightarrow> AuthRequest" where
  "AuthRequest_Close a = a\<lparr>aq_client := None\<rparr>"

section \<open>Encodings are read back\<close>

lemma b64_table_std: "\<forall>i \<in> set [0..<64]. url_of_std (std_of_url (b64_char i)) = b64_char i \<and> std_of_url (b64_char i) \<noteq> CHR ''='' \<and>
    std_of_url (b64_char i) \<noteq> CHR 0x0D \<and> std_of_url (b64_char i) \<noteq> CHR 0x0A \<and> std_of_url (b64_char i) \<noteq> CHR ''$''"
  by code_simp

lemma b64_std:
  "i < 64 \<Longrightarrow> url_of_std (std_of_url (b64_char i)) = b64_char i" "i < 64 \<Longrightarrow> std_of_url (b64_char i) \<noteq> CHR ''=''"
  "i < 64 \<Longrightarrow> std_of_url (b64_char i) \<noteq> CHR 0x0D" "i < 64 \<Longrightarrow> std_of_url (b64_char i) \<noteq> CHR 0x0A" "i < 64 \<Longrightarrow> std_of_url (b64_char i) \<noteq> CHR ''$''"
  using b64_table_std by simp_all

lemma pad_std [simp]: "std_of_url pad = pad" "url_of_std pad = pad"
  by (simp_all add: std_of_url_def url_of_std_def)

lemma encode_std: "map url_of_std (StdEncode s) = EncodeToString s"
  by (induction s rule: EncodeToString.induct) (simp_all add: StdEncode_def b64_std sextets)

lemma StdDecode_encode: "StdDecode (StdEncode s) = Some s"
  by (simp add: StdDecode_def encode_std decode_encode)

text \<open>The encoding without padding.\<close>

definition RawStdEncode :: "string \<Rightarrow> string" where
  "RawStdEncode s = filter (\<lambda>c. c \<noteq> pad) (StdEncode s)"

lemma StdEncode_raw:
  "StdEncode s = RawStdEncode s @ replicate ((4 - length (RawStdEncode s) mod 4) mod 4) pad \<and> length (RawStdEncode s) mod 4 \<noteq> 1"
  unfolding RawStdEncode_def StdEncode_def
proof (induction s rule: EncodeToString.induct)
  case (4 a b c rest)
  have "Suc (Suc (Suc (Suc n))) mod 4 = n mod 4" for n :: nat by presburger
  then show ?case using 4 by (simp add: b64_std sextets)
qed (simp_all add: b64_std sextets numeral_2_eq_2)

lemma RawStdEncode_chars: "c \<in> set (RawStdEncode s) \<Longrightarrow> c \<noteq> pad \<and> c \<noteq> CHR 0x0D \<and> c \<noteq> CHR 0x0A \<and> c \<noteq> CHR ''$''"
  unfolding RawStdEncode_def StdEncode_def
  by (induction s rule: EncodeToString.induct) (auto simp: b64_std sextets)

lemma RawStdDecode_encode: "RawStdDecode (RawStdEncode s) = Some s"
proof -
  have "filter (\<lambda>c. c \<noteq> CHR 0x0D \<and> c \<noteq> CHR 0x0A) (RawStdEncode s) = RawStdEncode s"
    using RawStdEncode_chars by (simp add: filter_id_conv)
  moreover have "pad \<notin> set (RawStdEncode s)" using RawStdEncode_chars by blast
  moreover have "StdDecode (RawStdEncode s @ replicate ((4 - length (RawStdEncode s) mod 4) mod 4) pad) = Some s"
    using StdEncode_raw [of s] StdDecode_encode [of s] by metis
  ultimately show ?thesis using StdEncode_raw [of s] by (simp add: RawStdDecode_def)
qed

lemma parse_uint_digits:
  "list_all is_digit s \<Longrightarrow>
   foldl (\<lambda>r c. if is_digit c then r * 10 + of_nat (digit_val c) else r) (of_nat m) s =
     (of_nat (foldl (\<lambda>acc c. acc * 10 + digit_val c) m s) :: 'a :: len word)"
proof (induction s arbitrary: m)
  case (Cons c s)
  then show ?case using Cons.IH [of "m * 10 + digit_val c"] by simp
qed simp

lemma parseUint_show: "parseUint32 (show_nat n) = of_nat n" "parseUint8 (show_nat n) = of_nat n"
  using parse_uint_digits [of "show_nat n" 0] parse_uint_digits [of "show_nat n" 0] show_nat_digits [of n]
  by (simp_all add: parseUint32_def parseUint8_def digits_val_def)

lemma show_nat_not_in: "\<not> is_digit c \<Longrightarrow> c \<notin> set (show_nat n)"
  using show_nat_chars by blast

text \<open>A hash in the documented format is read back with its salt and digest, and with its parameters at the width
  of the fields: a parallelism of 256 is read as 0.\<close>

theorem argon2_hash_roundtrip:
  "parseArgon2idHash (''$argon2id$v=19$m='' @ show_nat m @ '',t='' @ show_nat t @ '',p='' @ show_nat p @ ''$'' @
      RawStdEncode salt @ ''$'' @ RawStdEncode digest) =
   Some (\<lparr>a2_time = of_nat t, a2_memory = of_nat m, a2_threads = of_nat p, a2_saltLen = 16,
          a2_keyLen = of_nat (length digest)\<rparr>, salt, digest)"
proof -
  let ?ps = "''m='' @ show_nat m @ '',t='' @ show_nat t @ '',p='' @ show_nat p"
  have d: "\<not> is_digit (CHR ''$'')" "\<not> is_digit (CHR '','')" "\<not> is_digit (CHR ''='')" by (simp_all add: is_digit_def)
  note n = show_nat_not_in [OF d(1)] show_nat_not_in [OF d(2)] show_nat_not_in [OF d(3)]
  have "CHR ''$'' \<notin> set ?ps" using n(1) by simp
  moreover have "CHR ''$'' \<notin> set (RawStdEncode s)" for s using RawStdEncode_chars by blast
  ultimately have split: "Split (''$argon2id$v=19$'' @ ?ps @ ''$'' @ RawStdEncode salt @ ''$'' @ RawStdEncode digest) (CHR ''$'') =
      [[], ''argon2id'', ''v=19'', ?ps, RawStdEncode salt, RawStdEncode digest]"
    using Split_append_sep [of "CHR ''$''" ?ps "RawStdEncode salt @ ''$'' @ RawStdEncode digest"]
      Split_append_sep [of "CHR ''$''" "RawStdEncode salt" "RawStdEncode digest"] Split_no_sep [of "CHR ''$''" "RawStdEncode digest"]
    by simp
  have commas: "Split ?ps (CHR '','') = [''m='' @ show_nat m, ''t='' @ show_nat t, ''p='' @ show_nat p]"
    using n(2) Split_append_sep [of "CHR '',''" "''m='' @ show_nat m"] Split_append_sep [of "CHR '',''" "''t='' @ show_nat t"]
      Split_no_sep [of "CHR '',''" "''p='' @ show_nat p"] by simp
  have kv: "Split (show_nat k) (CHR ''='') = [show_nat k]" for k using n(3) by (simp add: Split_no_sep)
  have "foldl argon2_param defaultArgon2Params (Split ?ps (CHR '','')) =
      \<lparr>a2_time = of_nat t, a2_memory = of_nat m, a2_threads = of_nat p, a2_saltLen = 16, a2_keyLen = 32\<rparr>"
    unfolding commas by (simp add: argon2_param_def kv parseUint_show defaultArgon2Params_def)
  then show ?thesis using split by (simp add: parseArgon2idHash_def RawStdDecode_encode Let_def)
qed

section \<open>Who is let in\<close>

lemma extractCredentials_basic:
  assumes "hdr_Peek (hr_Headers r) ''Authorization'' = ''Basic '' @ StdEncode (u @ '':'' @ p)" "CHR '':'' \<notin> set u"
  shows "extractCredentials r = Some (u, p)"
  using assms IndexByte_append [OF assms(2), of p]
  by (simp add: extractCredentials_def TrimPrefix_def HasPrefix_def StdDecode_encode)

definition user_table :: "User list \<Rightarrow> (string \<times> string) list" where
  "user_table us = map (\<lambda>u. (us_Name u, us_Password u)) us"

lemma load_users_table:
  "load_users alg us m = Inr m' \<Longrightarrow> m' = (m ++ map_of (rev (user_table us)))"
  by (induction us arbitrary: m) (auto simp: user_table_def map_add_def fun_eq_iff split: if_splits option.splits)

text \<open>The check of a password against the hash of the configuration.\<close>

definition accepts :: "pw_env \<Rightarrow> HashAlgorithm \<Rightarrow> string \<Rightarrow> string \<Rightarrow> bool option" where
  "accepts pw alg hash password =
     (case alg of HashBcrypt \<Rightarrow> Some (pw_bcrypt pw hash password) | HashArgon2id \<Rightarrow> authenticateArgon2id pw password hash)"

text \<open>Basic authentication on every request with credentials in the standard form: the handler runs, with the user's
  name recorded, exactly when the configuration has the user and the hash function accepts the password for the
  configured hash; every other request is challenged. Names and passwords may contain anything but a colon in the
  name.\<close>

theorem basic_auth_admits:
  assumes "NewBasicAuth (Some cfg) = Inr ba" "distinct (map us_Name (au_Users cfg))"
    and "au_RequireTLS cfg \<longrightarrow> hr_IsTLS (x_request x)"
    and "hdr_Peek (hr_Headers (x_request x)) ''Authorization'' = ''Basic '' @ StdEncode (u @ '':'' @ p)" "CHR '':'' \<notin> set u"
  shows "BasicAuth_Process f pw ba next x =
    (case map_of (user_table (au_Users cfg)) u of
       None \<Rightarrow> Some (sendAuthChallenge f ba x)
     | Some hash \<Rightarrow>
         map_option (\<lambda>ok. if ok then next (set_user ''remote_user'' u x) else sendAuthChallenge f ba x)
           (accepts pw (ba_algorithm ba) hash p))"
proof -
  obtain alg users where l: "load_users alg (au_Users cfg) Map.empty = Inr users" "ba_users ba = users" "ba_algorithm ba = alg"
      "ba_requireTLS ba = au_RequireTLS cfg"
    using assms(1) by (auto simp: NewBasicAuth_def split: if_splits option.splits sum.splits)
  have "distinct (map fst (user_table (au_Users cfg)))" using assms(2) by (simp add: user_table_def comp_def)
  then have "map_of (rev (user_table (au_Users cfg))) = map_of (user_table (au_Users cfg))"
    by (subst map_of_inject_set) (simp_all add: rev_map [symmetric])
  then have users: "ba_users ba = map_of (user_table (au_Users cfg))" using load_users_table [OF l(1)] l(2) by simp
  show ?thesis
    using extractCredentials_basic [OF assms(4,5)] assms(3) l(3,4) users
    by (auto simp: BasicAuth_Process_def Authenticate_def accepts_def split: option.split HashAlgorithm.split bool.split)
qed

definition demo_auth :: AuthConfig where
  "demo_auth =
     \<lparr>au_Type = ''basic'', au_Algorithm = [], au_Realm = [],
      au_Users = [\<lparr>us_Name = ''ann'', us_Password = ''$2b$10$abc''\<rparr>], au_MinPasswordLength = 8, au_RequireTLS = False\<rparr>"

definition demo_fh :: fh where
  "demo_fh = \<lparr>fh_Error = (\<lambda>msg code _. \<lparr>rs_Status = code, rs_Headers = [], rs_Body = msg\<rparr>), fh_SetRequestURI = (\<lambda>_ r. r),
     fh_Redirect = (\<lambda>_ code _ r. r\<lparr>rs_Status := code\<rparr>)\<rparr>"

definition demo_exchange :: "headers \<Rightarrow> exchange" where
  "demo_exchange hs =
     \<lparr>x_request = \<lparr>hr_Method = ''GET'', hr_Headers = hs, hr_Host = ''h'', hr_Path = ''/'', hr_Query = [], hr_RawURI = ''/'', hr_IsTLS = False,
                    hr_Remote = None, hr_User = Map.empty\<rparr>,
      x_response = \<lparr>rs_Status = 200, rs_Headers = [], rs_Body = []\<rparr>, x_contentLength = 0\<rparr>"

theorem basic_auth_admits_witness:
  "\<exists>ba. NewBasicAuth (Some demo_auth) = Inr ba \<and>
    BasicAuth_Process demo_fh \<lparr>pw_bcrypt = (\<lambda>h p. h = ''$2b$10$abc'' \<and> p = ''a:b''), pw_IDKey = (\<lambda>_ _ _ _ _ _. None)\<rparr> ba (\<lambda>y. y)
      (demo_exchange [(''Authorization'', ''Basic '' @ StdEncode ''ann:a:b'')]) =
    Some (set_user ''remote_user'' ''ann'' (demo_exchange [(''Authorization'', ''Basic '' @ StdEncode ''ann:a:b'')]))"
proof -
  have "ToLower [] = []" by code_simp
  then obtain ba where ba: "NewBasicAuth (Some demo_auth) = Inr ba"
    by (simp add: NewBasicAuth_def demo_auth_def parse_algorithm_def validatePasswordHash_def HasPrefix_def)
  let ?x = "demo_exchange [(''Authorization'', ''Basic '' @ StdEncode (''ann'' @ '':'' @ ''a:b''))]"
  have alg: "ba_algorithm ba = HashBcrypt"
    using ba \<open>ToLower [] = []\<close> by (auto simp: NewBasicAuth_def demo_auth_def parse_algorithm_def split: sum.splits)
  have "distinct (map us_Name (au_Users demo_auth))" "au_RequireTLS demo_auth \<longrightarrow> hr_IsTLS (x_request ?x)"
      "hdr_Peek (hr_Headers (x_request ?x)) ''Authorization'' = ''Basic '' @ StdEncode (''ann'' @ '':'' @ ''a:b'')" "CHR '':'' \<notin> set ''ann''"
    by (simp_all add: demo_auth_def demo_exchange_def)
  from basic_auth_admits [OF ba this, of demo_fh "\<lparr>pw_bcrypt = (\<lambda>h p. h = ''$2b$10$abc'' \<and> p = ''a:b''), pw_IDKey = (\<lambda>_ _ _ _ _ _. None)\<rparr>" "\<lambda>y. y"]
  show ?thesis using ba alg by (simp add: demo_auth_def user_table_def accepts_def)
qed

text \<open>\<open>ctx.Error\<close> clears the response, headers included, before it writes the status and the message. Under this
  documented behaviour the challenge is lost: a refused client is not told how to authenticate.\<close>

lemma auth_challenge_lost:
  assumes "\<And>msg code r r'. fh_Error f msg code r = fh_Error f msg code r'"
  shows "sendAuthChallenge f ba x = ctx_Error f ''Unauthorized'' 401 x"
  using assms by (simp add: sendAuthChallenge_def ctx_Error_def set_resp_header_def)

text \<open>The subrequest as a middleware: the client's answer decides.\<close>

definition areq_pre :: "fh \<Rightarrow> auth_env \<Rightarrow> AuthRequest \<Rightarrow> exchange \<Rightarrow> exchange + exchange" where
  "areq_pre f env a x =
     (if \<not> ar_Enabled (aq_config a) then Inr x
      else case doAuthRequest env a (x_request x) of
             None \<Rightarrow> Inl (ctx_Error f ''Internal Server Error'' 500 x)
           | Some (allowed, statusCode) \<Rightarrow> if allowed then Inr x else Inl (ctx_Error f ''Unauthorized'' statusCode x))"

interpretation areq: wrapper "AuthRequest_Process f env a" "areq_pre f env a" "\<lambda>_ y. y" for f env a
  by unfold_locales (auto simp: AuthRequest_Process_def areq_pre_def split: option.split)

lemma NewAuthRequest_enabled:
  "NewAuthRequest cfg = Inr a \<Longrightarrow> ar_Enabled cfg \<Longrightarrow> ar_Enabled (aq_config a) \<and> ar_URI (aq_config a) = ar_URI cfg"
  by (auto simp: NewAuthRequest_def applyDefaults_def Let_def split: if_splits option.splits)

text \<open>With an enabled authentication service, the handler runs exactly when the service answers with a status between
  200 and 299; its 401 and 403 are passed on to the client, and everything else, an unreachable service included, is
  answered with 500.\<close>

theorem auth_request_gate:
  assumes "NewAuthRequest cfg = Inr a" "ar_Enabled cfg"
  shows "AuthRequest_Process f env a next x =
    (case env_do env (aq_client a) (auth_subrequest env a (x_request x)) of
       None \<Rightarrow> ctx_Error f ''Internal Server Error'' 500 x
     | Some status \<Rightarrow>
         if status div 100 = 2 then next x
         else ctx_Error f ''Unauthorized'' (if status = 401 \<or> status = 403 then status else 500) x)"
proof -
  have "(status \<ge> 200 \<and> status < 300) \<longleftrightarrow> status div 100 = 2" for status :: int by presburger
  then show ?thesis
    using NewAuthRequest_enabled [OF assms] unfolding areq.wraps areq_pre_def doAuthRequest_def
    by (simp split: option.split)
qed

theorem auth_request_gate_witness:
  "\<exists>a. NewAuthRequest \<lparr>ar_Headers = [], ar_URI = ''http://auth/check'', ar_Method = [], ar_ForwardHeaders = [], ar_Timeout = 0, ar_Enabled = True\<rparr> = Inr a \<and>
     aq_client a = Some (''auth:80'', False) \<and>
     AuthRequest_Process demo_fh \<lparr>env_do = (\<lambda>_ _. Some 302), env_expand = (\<lambda>_ t. t)\<rparr> a (\<lambda>y. y) (demo_exchange []) =
       ctx_Error demo_fh ''Unauthorized'' 500 (demo_exchange [])"
proof -
  let ?cfg = "\<lparr>ar_Headers = [], ar_URI = ''http://auth/check'', ar_Method = [], ar_ForwardHeaders = [], ar_Timeout = 0, ar_Enabled = True\<rparr>"
  obtain a where a: "NewAuthRequest ?cfg = Inr a" "aq_client a = Some (''auth:80'', False)"
  proof -
    have "parseAuthURL ''http://auth/check'' = Some (''auth:80'', False)" "isFullURL ''http://auth/check''" by code_simp+
    then show thesis using that by (simp add: NewAuthRequest_def applyDefaults_def Let_def)
  qed
  from auth_request_gate [OF a(1), of demo_fh "\<lparr>env_do = (\<lambda>_ _. Some 302), env_expand = (\<lambda>_ t. t)\<rparr>" "\<lambda>y. y" "demo_exchange []"]
  show ?thesis using a by auto
qed

text \<open>An IPv6 literal without a port is joined with the default port in a second pair of brackets.\<close>

lemma auth_url_ipv6: "parseAuthURL ''http://[::1]/check'' = Some (''[[::1]]:80'', False)"
  by code_simp

end
