(* ===== verification/Spec2Isabelle.thy ===== *)
theory Spec2Isabelle
  imports ConsistentHash Sticky Location HealthCheck Access RateLimit FileCache ProxyCache Validate
    SharedDict NginxConvert Middleware VHost Pool Auth
begin

end
